(* ===== verification/Conduit_Prelude.thy ===== *)
theory Conduit_Prelude
  imports Main "HOL-Library.Word"
begin

text \<open>
  Shared vocabulary of the development: the fixed-width integer types of the C++ sources, the
  arithmetic of \<open>size_t\<close>, decimal printing, bit strings, and searching.  A bit string is a \<open>bool list\<close>
  with the most significant bit first, the order in which the wire format is read and written;
  \<open>word_bits\<close>, \<open>bits_val\<close> and \<open>bytes_bits\<close> connect it to machine words and byte
  buffers.  The bit-level reader and writer are specified against these three functions.
\<close>

unbundle bit_operations_syntax

section \<open>Integer types\<close>

type_synonym u8 = "8 word"
type_synonym u16 = "16 word"
type_synonym u32 = "32 word"
type_synonym u64 = "64 word"
type_synonym bytes = "8 word list"

text \<open>
  \<open>size_t\<close> values are naturals below \<open>size_max + 1\<close>; sums that can exceed the range are
  written with \<open>size_add\<close> and differences that can go below zero with \<open>size_sub\<close>.
\<close>

definition size_mod :: nat where
  "size_mod = 2 ^ 64"

definition size_add :: "nat \<Rightarrow> nat \<Rightarrow> nat" where
  "size_add a b = (a + b) mod size_mod"

definition size_sub :: "nat \<Rightarrow> nat \<Rightarrow> nat" where
  "size_sub a b = (a + size_mod - b) mod size_mod"

lemma size_add_small [simp]: "a + b < size_mod \<Longrightarrow> size_add a b = a + b"
  by (simp add: size_add_def)

lemma size_sub_le: "b \<le> a \<Longrightarrow> a < size_mod \<Longrightarrow> size_sub a b = a - b"
proof -
  assume le: "b \<le> a" and lt: "a < size_mod"
  have "a + size_mod - b = size_mod + (a - b)" using le by simp
  then show ?thesis using lt by (simp add: size_sub_def less_imp_diff_less del: add_diff_assoc)
qed

text \<open>A byte buffer that fits the address space: its bit count is a \<open>size_t\<close>.\<close>

definition addressable :: "'a list \<Rightarrow> bool" where
  "addressable xs \<longleftrightarrow> length xs < 2 ^ 60"

lemma addressable_size: "addressable xs \<Longrightarrow> length xs + 64 < size_mod"
  by (simp add: addressable_def size_mod_def)

section \<open>Collections of rewrite rules\<close>

named_theorems bits_simps \<open>bit strings: lengths, slices, concatenation\<close>
named_theorems reader_simps \<open>positions and well-formedness of bit readers\<close>
named_theorems writer_simps \<open>contents and well-formedness of bit writers\<close>
named_theorems queue_simps \<open>ring-buffer queue\<close>

section \<open>Decimal printing\<close>

text \<open>\<open>std::to_string\<close> of an unsigned number, and \<open>std::format\<close> with an empty replacement field.\<close>

fun to_string :: "nat \<Rightarrow> string" where
  "to_string n =
     (if n < 10 then [char_of (48 + n)] else to_string (n div 10) @ [char_of (48 + n mod 10)])"

declare to_string.simps [simp del]

lemma to_string_nonempty [simp]: "to_string n \<noteq> []"
  by (subst to_string.simps) simp

text \<open>\<open>std::to_string\<close> of a signed number.\<close>

definition to_string_int :: "int \<Rightarrow> string" where
  "to_string_int i = (if i < 0 then ''-'' @ to_string (nat (- i)) else to_string (nat i))"

fun digits_value :: "string \<Rightarrow> nat" where
  "digits_value ds = fold (\<lambda>c v. 10 * v + (of_char c - 48)) ds 0"

lemma digits_value_to_string: "digits_value (to_string n) = n"
proof (induction n rule: to_string.induct)
  case (1 n)
  show ?case
  proof (cases "n < 10")
    case True
    then show ?thesis by (subst to_string.simps) simp
  next
    case False
    with 1 have "digits_value (to_string (n div 10)) = n div 10" by simp
    moreover have "of_char (char_of (48 + n mod 10)) - 48 = n mod 10" by simp
    ultimately show ?thesis using False by (subst to_string.simps) simp
  qed
qed

lemma to_string_inj: "to_string m = to_string n \<Longrightarrow> m = n"
  by (metis digits_value_to_string)

section \<open>Bit strings\<close>

fun bits_val :: "bool list \<Rightarrow> nat" where
  "bits_val [] = 0"
| "bits_val (b # bs) = of_bool b * 2 ^ length bs + bits_val bs"

text \<open>The low \<open>n\<close> bits of a word, most significant first.\<close>

definition word_bits :: "nat \<Rightarrow> 'a::len word \<Rightarrow> bool list" where
  "word_bits n w = map (\<lambda>i. bit w (n - 1 - i)) [0..<n]"

definition bytes_bits :: "bytes \<Rightarrow> bool list" where
  "bytes_bits bs = concat (map (word_bits 8) bs)"

lemma word_bits_0 [simp]: "word_bits 0 w = []"
  by (simp add: word_bits_def)

lemma length_word_bits [simp]: "length (word_bits n w) = n"
  by (simp add: word_bits_def)

lemma nth_word_bits: "i < n \<Longrightarrow> word_bits n w ! i = bit w (n - 1 - i)"
  by (simp add: word_bits_def)

lemma word_bits_Suc: "word_bits (Suc n) w = bit w n # word_bits n w"
  by (rule nth_equalityI) (auto simp: nth_word_bits nth_Cons split: nat.splits)

lemma bits_val_append: "bits_val (xs @ ys) = bits_val xs * 2 ^ length ys + bits_val ys"
  by (induction xs) (auto simp: algebra_simps power_add)

lemma bits_val_less: "bits_val xs < 2 ^ length xs"
  by (induction xs) (auto simp: of_bool_def)

lemma bits_val_inj:
  "length xs = length ys \<Longrightarrow> bits_val xs = bits_val ys \<Longrightarrow> xs = ys"
proof (induction xs ys rule: list_induct2)
  case Nil
  then show ?case by simp
next
  case (Cons x xs y ys)
  have "bits_val xs < 2 ^ length ys" "bits_val ys < 2 ^ length ys"
    using bits_val_less [of xs] bits_val_less [of ys] Cons.hyps by simp_all
  with Cons.prems Cons.hyps have "x = y"
    by (cases x; cases y) auto
  with Cons show ?case by simp
qed

lemma bits_val_word_bits: "bits_val (word_bits n w) = take_bit n (unat w)"
proof (induction n)
  case 0
  then show ?case by simp
next
  case (Suc n)
  have "take_bit (Suc n) (unat w) = of_bool (bit (unat w) n) * 2 ^ n + take_bit n (unat w)"
    by (simp add: take_bit_Suc_from_most ac_simps)
  moreover have "bit (unat w) n = bit w n"
    by (simp add: bit_unsigned_iff)
  ultimately show ?case by (simp add: word_bits_Suc Suc)
qed

lemma bits_val_word_bits_full: "bits_val (word_bits LENGTH('a) (w :: 'a::len word)) = unat w"
  by (simp add: bits_val_word_bits take_bit_nat_eq_self_iff)

lemma word_bits_take_bit: "m \<le> n \<Longrightarrow> word_bits m (take_bit n w) = word_bits m w"
  by (rule nth_equalityI) (auto simp: nth_word_bits bit_simps)

lemma take_drop_word_bits:
  "j + k \<le> n \<Longrightarrow> take k (drop j (word_bits n w)) = word_bits k (drop_bit (n - j - k) w)"
  by (rule nth_equalityI) (auto simp: nth_word_bits bit_simps intro!: arg_cong [where f = "bit w"])

lemma word_bits_split: "word_bits (m + n) w = word_bits m (drop_bit n w) @ word_bits n w"
  by (rule nth_equalityI)
    (auto simp: nth_word_bits nth_append bit_simps intro!: arg_cong [where f = "bit w"])

lemma word_bits_ucast:
  "n \<le> LENGTH('b) \<Longrightarrow> word_bits n (ucast (w :: 'a::len word) :: 'b::len word) = word_bits n w"
  by (rule nth_equalityI) (auto simp: nth_word_bits bit_simps)

lemma word_bits_inj:
  "word_bits LENGTH('a) v = word_bits LENGTH('a) (w :: 'a::len word) \<Longrightarrow> v = w"
  by (metis bits_val_word_bits_full word_unat_eq_iff)

text \<open>A word whose bit string is given: the inverse of \<open>word_bits\<close> at any width.\<close>

lemma of_nat_bits_val_word_bits:
  "of_nat (bits_val (word_bits n (w :: 'a::len word))) = take_bit n w"
  by (simp add: bits_val_word_bits flip: unsigned_take_bit_eq)

section \<open>Words as numbers\<close>

lemma unat_of_nat_small: "n < 2 ^ LENGTH('a) \<Longrightarrow> unat (of_nat n :: 'a::len word) = n"
  by (simp add: unat_of_nat)

lemma sint_small: "unat w < 2 ^ (LENGTH('a) - 1) \<Longrightarrow> sint (w :: 'a::len word) = int (unat w)"
proof -
  assume "unat w < 2 ^ (LENGTH('a) - 1)"
  then have "uint w < 2 ^ (LENGTH('a) - 1)"
    by (metis of_nat_less_numeral_power_cancel_iff uint_nat)
  moreover have "- (2 ^ (LENGTH('a) - 1)) \<le> uint w"
    by (rule order.trans [of _ 0]) simp_all
  ultimately show ?thesis
    by (simp add: sint_uint signed_take_bit_int_eq_self_iff)
qed

lemma bit_imp_unat_less: "(\<And>i. bit (w :: 'a::len word) i \<Longrightarrow> i < n) \<Longrightarrow> unat w < 2 ^ n"
proof -
  assume "\<And>i. bit w i \<Longrightarrow> i < n"
  then have "take_bit n w = w" by (intro bit_word_eqI) (auto simp: bit_simps)
  then have "take_bit n (unat w) = unat w" by (simp flip: unsigned_take_bit_eq)
  then show ?thesis by (simp add: take_bit_nat_eq_self_iff)
qed

lemma unat_less_imp_bit: "unat (w :: 'a::len word) < 2 ^ n \<Longrightarrow> bit w i \<Longrightarrow> i < n"
proof -
  assume "unat w < 2 ^ n" and b: "bit w i"
  then have "take_bit n w = w"
    by (simp add: word_unat_eq_iff unsigned_take_bit_eq take_bit_nat_eq_self_iff)
  then show "i < n" using b by (metis bit_take_bit_iff)
qed

section \<open>Byte buffers as bit strings\<close>

lemma bytes_bits_Nil [simp]: "bytes_bits [] = []"
  by (simp add: bytes_bits_def)

lemma bytes_bits_Cons [simp]: "bytes_bits (b # bs) = word_bits 8 b @ bytes_bits bs"
  by (simp add: bytes_bits_def)

lemma bytes_bits_append [simp]: "bytes_bits (xs @ ys) = bytes_bits xs @ bytes_bits ys"
  by (simp add: bytes_bits_def)

lemma length_bytes_bits [simp]: "length (bytes_bits bs) = 8 * length bs"
  by (induction bs) auto

lemma drop_bytes_bits: "drop (8 * k) (bytes_bits bs) = bytes_bits (drop k bs)"
proof (induction k arbitrary: bs)
  case 0
  then show ?case by simp
next
  case (Suc k)
  then show ?case by (cases bs) (auto simp: drop_append)
qed

lemma take_bytes_bits: "take (8 * k) (bytes_bits bs) = bytes_bits (take k bs)"
proof (induction k arbitrary: bs)
  case 0
  then show ?case by simp
next
  case (Suc k)
  then show ?case by (cases bs) (auto simp: take_append)
qed

lemma bytes_bits_inj: "bytes_bits xs = bytes_bits ys \<Longrightarrow> xs = ys"
proof (induction xs arbitrary: ys)
  case Nil
  then show ?case by (cases ys) (auto dest: arg_cong [where f = length])
next
  case (Cons x xs)
  then obtain y zs where ys: "ys = y # zs"
    by (cases ys) (auto dest: arg_cong [where f = length])
  with Cons.prems have "word_bits 8 x = word_bits 8 y" "bytes_bits xs = bytes_bits zs"
    by auto
  then show ?case
    using Cons.IH ys word_bits_inj [of x y] by simp
qed

lemma nth_bytes_bits: "j < 8 * length bs \<Longrightarrow> bytes_bits bs ! j = bit (bs ! (j div 8)) (7 - j mod 8)"
proof (induction bs arbitrary: j)
  case Nil
  then show ?case by simp
next
  case (Cons b bs)
  show ?case
  proof (cases "j < 8")
    case True
    then show ?thesis by (simp add: nth_append nth_word_bits)
  next
    case False
    define i where "i = j - 8"
    have "j = i + 8" "(i + 8) div 8 = Suc (i div 8)" using False by (simp_all add: i_def)
    then show ?thesis using Cons by (simp add: nth_append)
  qed
qed

text \<open>A slice that stays within one byte of the buffer.\<close>

lemma bytes_bits_slice:
  assumes "i < length bs" and "j + k \<le> 8"
  shows "take k (drop (8 * i + j) (bytes_bits bs)) = word_bits k (drop_bit (8 - j - k) (bs ! i))"
proof -
  have "drop (8 * i + j) (bytes_bits bs) = drop j (bytes_bits (drop i bs))"
    by (simp add: add.commute flip: drop_bytes_bits drop_drop)
  also have "bytes_bits (drop i bs) = word_bits 8 (bs ! i) @ bytes_bits (drop (Suc i) bs)"
    using assms(1) by (simp flip: Cons_nth_drop_Suc)
  finally have "take k (drop (8 * i + j) (bytes_bits bs)) = take k (drop j (word_bits 8 (bs ! i)))"
    using assms(2) by simp
  then show ?thesis using assms(2) by (simp add: take_drop_word_bits)
qed

lemma bytes_bits_update:
  assumes "i < length bs"
  shows "bytes_bits (bs[i := v]) =
    take (8 * i) (bytes_bits bs) @ word_bits 8 v @ drop (8 * Suc i) (bytes_bits bs)"
  using assms by (simp add: upd_conv_take_nth_drop take_bytes_bits drop_bytes_bits del: mult_Suc_right)

section \<open>Searching\<close>

text \<open>\<open>std::search\<close>: the index of the first occurrence of a pattern.\<close>

fun search :: "'a list \<Rightarrow> 'a list \<Rightarrow> nat option" where
  "search pat [] = (if pat = [] then Some 0 else None)"
| "search pat (x # xs) =
     (if take (length pat) (x # xs) = pat then Some 0 else map_option Suc (search pat xs))"

lemma search_bound: "search pat xs = Some i \<Longrightarrow> i + length pat \<le> length xs"
proof (induction xs arbitrary: i)
  case (Cons x xs)
  then show ?case by (auto split: if_splits dest!: arg_cong [where f = length])
qed (auto split: if_splits)

lemma search_Some: "search pat xs = Some i \<Longrightarrow> take (length pat) (drop i xs) = pat"
  by (induction xs arbitrary: i) (auto split: if_splits)

lemma search_first: "search pat xs = Some i \<Longrightarrow> j < i \<Longrightarrow> take (length pat) (drop j xs) \<noteq> pat"
proof (induction xs arbitrary: i j)
  case (Cons x xs)
  then show ?case by (cases j) (auto split: if_splits)
qed (auto split: if_splits)

lemma search_None: "search pat xs = None \<Longrightarrow> take (length pat) (drop j xs) \<noteq> pat"
proof (induction xs arbitrary: j)
  case (Cons x xs)
  then show ?case by (cases j) (auto split: if_splits)
qed (auto split: if_splits)

lemma search_skip:
  assumes "\<forall>j < p. take (length pat) (drop j zs) \<noteq> pat" and "p \<le> length zs"
  shows "search pat zs = map_option ((+) p) (search pat (drop p zs))"
  using assms
proof (induction p arbitrary: zs)
  case 0
  then show ?case by (simp add: option.map_ident)
next
  case (Suc p)
  then obtain z ys where zs: "zs = z # ys" by (cases zs) auto
  have "\<forall>j < p. take (length pat) (drop j ys) \<noteq> pat" "p \<le> length ys"
    using Suc.prems zs by (auto dest: spec [where x = "Suc _"])
  moreover have "take (length pat) zs \<noteq> pat" using Suc.prems by fastforce
  ultimately show ?case
    using Suc.IH [of ys] zs by (simp add: option.map_comp comp_def)
qed

lemma search_here: "take (length pat) zs = pat \<Longrightarrow> search pat zs = Some 0"
  by (cases zs) auto

lemma map_option_plus_0 [simp]: "map_option ((+) (0 :: nat)) z = z"
  by (cases z) auto

lemma take_drop_append:
  "j + n \<le> length xs \<Longrightarrow> take n (drop j (xs @ ys)) = take n (drop j xs)"
  by simp

lemma search_append:
  assumes "search pat xs = Some i"
  shows "search pat (xs @ ys) = Some i"
proof -
  note b = search_bound [OF assms]
  have "\<forall>j < i. take (length pat) (drop j (xs @ ys)) \<noteq> pat"
    using search_first [OF assms] b by (auto simp: take_drop_append)
  moreover have "search pat (drop i (xs @ ys)) = Some 0"
    using b search_Some [OF assms] by (intro search_here) simp
  ultimately show ?thesis using search_skip [of i pat "xs @ ys"] b by simp
qed

lemma search_append_None:
  assumes "search pat xs = None" and "pat \<noteq> []" and "p \<le> length xs" and "p + length pat \<le> length xs + 1"
  shows "search pat (xs @ ys) = map_option ((+) p) (search pat (drop p xs @ ys))"
proof -
  have "\<forall>j < p. take (length pat) (drop j (xs @ ys)) \<noteq> pat"
    using search_None [OF assms(1)] assms(4) by (auto simp: take_drop_append)
  then show ?thesis using search_skip [of p pat "xs @ ys"] assms(3) by simp
qed

end
