(* ===== verification/Conduit_Error.thy ===== *)
theory Conduit_Error
  imports Conduit_Prelude
begin

text \<open>
  The error values of the runtime library: \<open>include/conduit/core/error.hpp\<close> and
  \<open>src/core/error.cpp\<close>.  \<open>ErrorCode\<close> and \<open>ErrorSeverity\<close> are the two enumerations,
  the record \<open>error\<close> is the class \<open>Error\<close> (its source location and time stamp, which no code
  branches on, are left out), and a \<open>Result<T>\<close> is a sum with the error on the left.
\<close>

section \<open>Error codes\<close>

datatype (plugins only: code size) ErrorCode =
    BufferUnderrun | InvalidFieldValue | ConstraintViolation | UnknownEnumValue
  | UnknownDiscriminator | ExactConsumptionFailed | NegativeLength | DecodingFailed
  | UnknownTypeId | MaxLengthExceeded | StringEncodingError | ConstraintViolationDeferred
  | EncodeConstraintViolation | MissingRequiredField | EncodingFailed | BufferOverrun
  | StringTooLong | DirectionViolation
  | ConnectionRefused | ConnectionTimeout | ConnectionReset | ConnectionClosed
  | HostNotFound | NetworkUnreachable | SocketError
  | NotRunning | AlreadyRunning | PeerNotFound | QueueFull | InvalidConfig
  | MultiplePeers | UnsupportedMessageType | BatchNotSupported
  | InternalError | NotImplemented | InvalidArgument | InvalidState | Timeout

text \<open>The enumerators' integer values.\<close>

primrec code_value :: "ErrorCode \<Rightarrow> int" where
  "code_value BufferUnderrun = 100"
| "code_value InvalidFieldValue = 101"
| "code_value ConstraintViolation = 102"
| "code_value UnknownEnumValue = 103"
| "code_value UnknownDiscriminator = 104"
| "code_value ExactConsumptionFailed = 105"
| "code_value NegativeLength = 106"
| "code_value DecodingFailed = 107"
| "code_value UnknownTypeId = 108"
| "code_value MaxLengthExceeded = 109"
| "code_value StringEncodingError = 110"
| "code_value ConstraintViolationDeferred = 111"
| "code_value EncodeConstraintViolation = 200"
| "code_value MissingRequiredField = 201"
| "code_value EncodingFailed = 202"
| "code_value BufferOverrun = 203"
| "code_value StringTooLong = 204"
| "code_value DirectionViolation = 205"
| "code_value ConnectionRefused = 300"
| "code_value ConnectionTimeout = 301"
| "code_value ConnectionReset = 302"
| "code_value ConnectionClosed = 303"
| "code_value HostNotFound = 304"
| "code_value NetworkUnreachable = 305"
| "code_value SocketError = 306"
| "code_value NotRunning = 400"
| "code_value AlreadyRunning = 401"
| "code_value PeerNotFound = 402"
| "code_value QueueFull = 403"
| "code_value InvalidConfig = 404"
| "code_value MultiplePeers = 405"
| "code_value UnsupportedMessageType = 406"
| "code_value BatchNotSupported = 407"
| "code_value InternalError = 900"
| "code_value NotImplemented = 901"
| "code_value InvalidArgument = 902"
| "code_value InvalidState = 903"
| "code_value Timeout = 904"

datatype ErrorSeverity = Sev_Debug | Sev_Info | Sev_Warning | Sev_Error | Sev_Critical | Sev_Fatal

record error =
  err_code :: ErrorCode
  err_message :: string
  err_context :: string

type_synonym 'a Result = "error + 'a"
type_synonym VoidResult = "error + unit"

text \<open>The constructor \<open>Error(code, message)\<close>, which leaves the context empty.\<close>

definition mk_error :: "ErrorCode \<Rightarrow> string \<Rightarrow> error" where
  "mk_error c m = \<lparr>err_code = c, err_message = m, err_context = []\<rparr>"

definition has_context :: "error \<Rightarrow> bool" where
  "has_context e \<longleftrightarrow> err_context e \<noteq> []"

text \<open>\<open>operator==\<close> compares codes only.\<close>

definition error_eq :: "error \<Rightarrow> error \<Rightarrow> bool" where
  "error_eq a b \<longleftrightarrow> err_code a = err_code b"

section \<open>Categories\<close>

definition is_decode_error :: "error \<Rightarrow> bool" where
  "is_decode_error e \<longleftrightarrow> (let v = code_value (err_code e) in v \<ge> 100 \<and> v < 200)"

definition is_encode_error :: "error \<Rightarrow> bool" where
  "is_encode_error e \<longleftrightarrow> (let v = code_value (err_code e) in v \<ge> 200 \<and> v < 300)"

definition is_connection_error :: "error \<Rightarrow> bool" where
  "is_connection_error e \<longleftrightarrow> (let v = code_value (err_code e) in v \<ge> 300 \<and> v < 400)"

definition is_transceiver_error :: "error \<Rightarrow> bool" where
  "is_transceiver_error e \<longleftrightarrow> (let v = code_value (err_code e) in v \<ge> 400 \<and> v < 500)"

definition is_recoverable :: "error \<Rightarrow> bool" where
  "is_recoverable e =
     (case err_code e of
        BufferUnderrun \<Rightarrow> True | InvalidFieldValue \<Rightarrow> True | UnknownEnumValue \<Rightarrow> True
      | UnknownDiscriminator \<Rightarrow> True | ConnectionRefused \<Rightarrow> True | ConnectionTimeout \<Rightarrow> True
      | ConnectionReset \<Rightarrow> True | ConnectionClosed \<Rightarrow> True | QueueFull \<Rightarrow> True | Timeout \<Rightarrow> True
      | _ \<Rightarrow> False)"

definition severity :: "error \<Rightarrow> ErrorSeverity" where
  "severity e =
     (let v = code_value (err_code e) in
      if v \<ge> 100 \<and> v < 200 then Sev_Warning
      else if v \<ge> 200 \<and> v < 300 then Sev_Warning
      else if v \<ge> 300 \<and> v < 400 then Sev_Error
      else if v \<ge> 400 \<and> v < 500 then Sev_Error
      else if err_code e = Timeout then Sev_Error
      else if v \<ge> 900 then Sev_Critical
      else Sev_Error)"

section \<open>Context and formatting\<close>

definition with_context :: "string \<Rightarrow> error \<Rightarrow> error" where
  "with_context ctx e =
     (if err_context e = [] then e\<lparr>err_context := ctx\<rparr>
      else e\<lparr>err_context := ctx @ '' > '' @ err_context e\<rparr>)"

primrec code_to_string :: "ErrorCode \<Rightarrow> string" where
  "code_to_string BufferUnderrun = ''BUFFER_UNDERRUN''"
| "code_to_string InvalidFieldValue = ''INVALID_FIELD_VALUE''"
| "code_to_string ConstraintViolation = ''CONSTRAINT_VIOLATION''"
| "code_to_string UnknownEnumValue = ''UNKNOWN_ENUM_VALUE''"
| "code_to_string UnknownDiscriminator = ''UNKNOWN_DISCRIMINATOR''"
| "code_to_string ExactConsumptionFailed = ''EXACT_CONSUMPTION_FAILED''"
| "code_to_string NegativeLength = ''NEGATIVE_LENGTH''"
| "code_to_string DecodingFailed = ''DECODING_FAILED''"
| "code_to_string UnknownTypeId = ''UNKNOWN_TYPE_ID''"
| "code_to_string MaxLengthExceeded = ''MAX_LENGTH_EXCEEDED''"
| "code_to_string StringEncodingError = ''STRING_ENCODING_ERROR''"
| "code_to_string ConstraintViolationDeferred = ''CONSTRAINT_VIOLATION_DEFERRED''"
| "code_to_string EncodeConstraintViolation = ''ENCODE_CONSTRAINT_VIOLATION''"
| "code_to_string MissingRequiredField = ''MISSING_REQUIRED_FIELD''"
| "code_to_string EncodingFailed = ''ENCODING_FAILED''"
| "code_to_string BufferOverrun = ''BUFFER_OVERRUN''"
| "code_to_string StringTooLong = ''STRING_TOO_LONG''"
| "code_to_string DirectionViolation = ''DIRECTION_VIOLATION''"
| "code_to_string ConnectionRefused = ''CONNECTION_REFUSED''"
| "code_to_string ConnectionTimeout = ''CONNECTION_TIMEOUT''"
| "code_to_string ConnectionReset = ''CONNECTION_RESET''"
| "code_to_string ConnectionClosed = ''CONNECTION_CLOSED''"
| "code_to_string HostNotFound = ''HOST_NOT_FOUND''"
| "code_to_string NetworkUnreachable = ''NETWORK_UNREACHABLE''"
| "code_to_string SocketError = ''SOCKET_ERROR''"
| "code_to_string NotRunning = ''NOT_RUNNING''"
| "code_to_string AlreadyRunning = ''ALREADY_RUNNING''"
| "code_to_string PeerNotFound = ''PEER_NOT_FOUND''"
| "code_to_string QueueFull = ''QUEUE_FULL''"
| "code_to_string InvalidConfig = ''INVALID_CONFIG''"
| "code_to_string MultiplePeers = ''MULTIPLE_PEERS''"
| "code_to_string UnsupportedMessageType = ''UNSUPPORTED_MESSAGE_TYPE''"
| "code_to_string BatchNotSupported = ''BATCH_NOT_SUPPORTED''"
| "code_to_string InternalError = ''INTERNAL_ERROR''"
| "code_to_string NotImplemented = ''NOT_IMPLEMENTED''"
| "code_to_string InvalidArgument = ''INVALID_ARGUMENT''"
| "code_to_string InvalidState = ''INVALID_STATE''"
| "code_to_string Timeout = ''TIMEOUT''"

primrec severity_to_string :: "ErrorSeverity \<Rightarrow> string" where
  "severity_to_string Sev_Debug = ''DEBUG''"
| "severity_to_string Sev_Info = ''INFO''"
| "severity_to_string Sev_Warning = ''WARNING''"
| "severity_to_string Sev_Error = ''ERROR''"
| "severity_to_string Sev_Critical = ''CRITICAL''"
| "severity_to_string Sev_Fatal = ''FATAL''"

definition format_short :: "error \<Rightarrow> string" where
  "format_short e =
     (if err_context e = []
      then ''['' @ code_to_string (err_code e) @ ''] '' @ err_message e
      else ''['' @ code_to_string (err_code e) @ ''] '' @ err_message e
           @ '' (in '' @ err_context e @ '')'')"

section \<open>Facts\<close>

text \<open>All enumerators, in the order of the header.\<close>

definition all_codes :: "ErrorCode list" where
  "all_codes =
     [BufferUnderrun, InvalidFieldValue, ConstraintViolation, UnknownEnumValue,
      UnknownDiscriminator, ExactConsumptionFailed, NegativeLength, DecodingFailed,
      UnknownTypeId, MaxLengthExceeded, StringEncodingError, ConstraintViolationDeferred,
      EncodeConstraintViolation, MissingRequiredField, EncodingFailed, BufferOverrun,
      StringTooLong, DirectionViolation,
      ConnectionRefused, ConnectionTimeout, ConnectionReset, ConnectionClosed,
      HostNotFound, NetworkUnreachable, SocketError,
      NotRunning, AlreadyRunning, PeerNotFound, QueueFull, InvalidConfig,
      MultiplePeers, UnsupportedMessageType, BatchNotSupported,
      InternalError, NotImplemented, InvalidArgument, InvalidState, Timeout]"

lemma in_all_codes: "c \<in> set all_codes"
  by (cases c) (simp_all add: all_codes_def)

lemma inj_if_distinct_on_codes: "distinct (map f all_codes) \<Longrightarrow> inj f"
  by (simp add: distinct_map inj_on_def in_all_codes)

lemma inj_code_value: "inj code_value"
  by (rule inj_if_distinct_on_codes) (simp add: all_codes_def)

text \<open>The enumeration is ordered by its integer values, as in C++.\<close>

instantiation ErrorCode :: linorder
begin

definition less_eq_ErrorCode :: "ErrorCode \<Rightarrow> ErrorCode \<Rightarrow> bool" where
  "less_eq_ErrorCode a b \<longleftrightarrow> code_value a \<le> code_value b"

definition less_ErrorCode :: "ErrorCode \<Rightarrow> ErrorCode \<Rightarrow> bool" where
  "less_ErrorCode a b \<longleftrightarrow> code_value a < code_value b"

instance
  by standard
    (auto simp: less_eq_ErrorCode_def less_ErrorCode_def dest: injD [OF inj_code_value])

end

lemma inj_code_to_string: "inj code_to_string"
  by (rule inj_if_distinct_on_codes) (simp add: all_codes_def)

lemma err_code_with_context [simp]: "err_code (with_context ctx e) = err_code e"
  by (simp add: with_context_def)

lemma err_message_with_context [simp]: "err_message (with_context ctx e) = err_message e"
  by (simp add: with_context_def)

lemma err_code_mk_error [simp]: "err_code (mk_error c m) = c"
  by (simp add: mk_error_def)

lemma err_context_mk_error [simp]: "err_context (mk_error c m) = []"
  by (simp add: mk_error_def)

text \<open>Attaching contexts from the inside out: the outermost one ends up first.\<close>

lemma err_context_fold:
  assumes "err_context e \<noteq> []" and "\<forall>c \<in> set cs. c \<noteq> []"
  shows "err_context (fold with_context cs e) =
    concat (map (\<lambda>c. c @ '' > '') (rev cs)) @ err_context e"
  using assms
proof (induction cs arbitrary: e)
  case Nil
  then show ?case by simp
next
  case (Cons c cs)
  have "err_context (with_context c e) = c @ '' > '' @ err_context e"
    using Cons.prems(1) by (simp add: with_context_def)
  with Cons show ?case by simp
qed

end
