(* ===== verification/Endian_Codec.thy ===== *)
theory Endian_Codec
  imports Conduit_Prelude "HOL-Library.While_Combinator"
begin

text \<open>
  Byte order and float formats: \<open>include/conduit/io/endian.hpp\<close>.  The functions of that header
  that work on a byte span carry the prefix \<open>io_\<close> here, since \<open>BitReader\<close> and
  \<open>BitWriter\<close> have members of the same names.  A write returns the updated span.  Offsets are
  positions inside the address space, so \<open>offset + n\<close> does not wrap.

  A \<open>float\<close> or \<open>double\<close> is represented by its 32- or 64-bit pattern: the C++ code only moves
  patterns between integers and floating-point objects with \<open>memcpy\<close> and never calculates with
  the floating-point values.  The loop in \<open>f16_to_f32\<close> is a \<open>while_option\<close>, so the conversion
  returns an \<open>option\<close>; \<open>f16_to_f32_returns\<close> shows that it always returns.
\<close>

unbundle bit_operations_syntax

datatype Endian = Big | Little

section \<open>Byte swapping\<close>

definition byte_swap16 :: "u16 \<Rightarrow> u16" where
  "byte_swap16 value = push_bit 8 value OR drop_bit 8 value"

definition byte_swap32 :: "u32 \<Rightarrow> u32" where
  "byte_swap32 value =
     push_bit 24 (value AND 0x000000FF) OR
     push_bit 8 (value AND 0x0000FF00) OR
     drop_bit 8 (value AND 0x00FF0000) OR
     drop_bit 24 (value AND 0xFF000000)"

definition byte_swap64 :: "u64 \<Rightarrow> u64" where
  "byte_swap64 value =
     push_bit 56 (value AND 0x00000000000000FF) OR
     push_bit 40 (value AND 0x000000000000FF00) OR
     push_bit 24 (value AND 0x0000000000FF0000) OR
     push_bit 8 (value AND 0x00000000FF000000) OR
     drop_bit 8 (value AND 0x000000FF00000000) OR
     drop_bit 24 (value AND 0x0000FF0000000000) OR
     drop_bit 40 (value AND 0x00FF000000000000) OR
     drop_bit 56 (value AND 0xFF00000000000000)"

section \<open>Reading integers from a byte span\<close>

definition io_read_u16 :: "bytes \<Rightarrow> nat \<Rightarrow> Endian \<Rightarrow> u16" where
  "io_read_u16 data offset e =
     (if offset + 2 > length data then 0
      else case e of
        Big \<Rightarrow> push_bit 8 (ucast (data ! offset)) OR ucast (data ! (offset + 1))
      | Little \<Rightarrow> push_bit 8 (ucast (data ! (offset + 1))) OR ucast (data ! offset))"

definition io_read_u32 :: "bytes \<Rightarrow> nat \<Rightarrow> Endian \<Rightarrow> u32" where
  "io_read_u32 data offset e =
     (if offset + 4 > length data then 0
      else case e of
        Big \<Rightarrow> push_bit 24 (ucast (data ! offset)) OR
               push_bit 16 (ucast (data ! (offset + 1))) OR
               push_bit 8 (ucast (data ! (offset + 2))) OR
               ucast (data ! (offset + 3))
      | Little \<Rightarrow> push_bit 24 (ucast (data ! (offset + 3))) OR
               push_bit 16 (ucast (data ! (offset + 2))) OR
               push_bit 8 (ucast (data ! (offset + 1))) OR
               ucast (data ! offset))"

definition io_read_u64 :: "bytes \<Rightarrow> nat \<Rightarrow> Endian \<Rightarrow> u64" where
  "io_read_u64 data offset e =
     (if offset + 8 > length data then 0
      else case e of
        Big \<Rightarrow> push_bit 56 (ucast (data ! offset)) OR
               push_bit 48 (ucast (data ! (offset + 1))) OR
               push_bit 40 (ucast (data ! (offset + 2))) OR
               push_bit 32 (ucast (data ! (offset + 3))) OR
               push_bit 24 (ucast (data ! (offset + 4))) OR
               push_bit 16 (ucast (data ! (offset + 5))) OR
               push_bit 8 (ucast (data ! (offset + 6))) OR
               ucast (data ! (offset + 7))
      | Little \<Rightarrow> push_bit 56 (ucast (data ! (offset + 7))) OR
               push_bit 48 (ucast (data ! (offset + 6))) OR
               push_bit 40 (ucast (data ! (offset + 5))) OR
               push_bit 32 (ucast (data ! (offset + 4))) OR
               push_bit 24 (ucast (data ! (offset + 3))) OR
               push_bit 16 (ucast (data ! (offset + 2))) OR
               push_bit 8 (ucast (data ! (offset + 1))) OR
               ucast (data ! offset))"

definition io_read_u48 :: "bytes \<Rightarrow> nat \<Rightarrow> Endian \<Rightarrow> u64" where
  "io_read_u48 data offset e =
     (if offset + 6 > length data then 0
      else case e of
        Big \<Rightarrow> push_bit 40 (ucast (data ! offset)) OR
               push_bit 32 (ucast (data ! (offset + 1))) OR
               push_bit 24 (ucast (data ! (offset + 2))) OR
               push_bit 16 (ucast (data ! (offset + 3))) OR
               push_bit 8 (ucast (data ! (offset + 4))) OR
               ucast (data ! (offset + 5))
      | Little \<Rightarrow> push_bit 40 (ucast (data ! (offset + 5))) OR
               push_bit 32 (ucast (data ! (offset + 4))) OR
               push_bit 24 (ucast (data ! (offset + 3))) OR
               push_bit 16 (ucast (data ! (offset + 2))) OR
               push_bit 8 (ucast (data ! (offset + 1))) OR
               ucast (data ! offset))"

section \<open>Writing integers to a byte span\<close>

definition io_write_u16 :: "bytes \<Rightarrow> nat \<Rightarrow> u16 \<Rightarrow> Endian \<Rightarrow> bytes" where
  "io_write_u16 data offset value e =
     (if offset + 2 > length data then data
      else case e of
        Big \<Rightarrow> data[offset := ucast (drop_bit 8 value), offset + 1 := ucast value]
      | Little \<Rightarrow> data[offset := ucast value, offset + 1 := ucast (drop_bit 8 value)])"

definition io_write_u32 :: "bytes \<Rightarrow> nat \<Rightarrow> u32 \<Rightarrow> Endian \<Rightarrow> bytes" where
  "io_write_u32 data offset value e =
     (if offset + 4 > length data then data
      else case e of
        Big \<Rightarrow> data[offset := ucast (drop_bit 24 value),
                    offset + 1 := ucast (drop_bit 16 value),
                    offset + 2 := ucast (drop_bit 8 value),
                    offset + 3 := ucast value]
      | Little \<Rightarrow> data[offset := ucast value,
                    offset + 1 := ucast (drop_bit 8 value),
                    offset + 2 := ucast (drop_bit 16 value),
                    offset + 3 := ucast (drop_bit 24 value)])"

definition io_write_u64 :: "bytes \<Rightarrow> nat \<Rightarrow> u64 \<Rightarrow> Endian \<Rightarrow> bytes" where
  "io_write_u64 data offset value e =
     (if offset + 8 > length data then data
      else case e of
        Big \<Rightarrow> data[offset := ucast (drop_bit 56 value),
                    offset + 1 := ucast (drop_bit 48 value),
                    offset + 2 := ucast (drop_bit 40 value),
                    offset + 3 := ucast (drop_bit 32 value),
                    offset + 4 := ucast (drop_bit 24 value),
                    offset + 5 := ucast (drop_bit 16 value),
                    offset + 6 := ucast (drop_bit 8 value),
                    offset + 7 := ucast value]
      | Little \<Rightarrow> data[offset := ucast value,
                    offset + 1 := ucast (drop_bit 8 value),
                    offset + 2 := ucast (drop_bit 16 value),
                    offset + 3 := ucast (drop_bit 24 value),
                    offset + 4 := ucast (drop_bit 32 value),
                    offset + 5 := ucast (drop_bit 40 value),
                    offset + 6 := ucast (drop_bit 48 value),
                    offset + 7 := ucast (drop_bit 56 value)])"

definition io_write_u48 :: "bytes \<Rightarrow> nat \<Rightarrow> u64 \<Rightarrow> Endian \<Rightarrow> bytes" where
  "io_write_u48 data offset value e =
     (if offset + 6 > length data then data
      else case e of
        Big \<Rightarrow> data[offset := ucast (drop_bit 40 value AND 0xFF),
                    offset + 1 := ucast (drop_bit 32 value AND 0xFF),
                    offset + 2 := ucast (drop_bit 24 value AND 0xFF),
                    offset + 3 := ucast (drop_bit 16 value AND 0xFF),
                    offset + 4 := ucast (drop_bit 8 value AND 0xFF),
                    offset + 5 := ucast (value AND 0xFF)]
      | Little \<Rightarrow> data[offset := ucast (value AND 0xFF),
                    offset + 1 := ucast (drop_bit 8 value AND 0xFF),
                    offset + 2 := ucast (drop_bit 16 value AND 0xFF),
                    offset + 3 := ucast (drop_bit 24 value AND 0xFF),
                    offset + 4 := ucast (drop_bit 32 value AND 0xFF),
                    offset + 5 := ucast (drop_bit 40 value AND 0xFF)])"

section \<open>Half-precision and 48-bit floats\<close>

text \<open>The normalisation loop of a subnormal half: shift left until bit 10 is set.\<close>

definition normalize_f16 :: "u32 \<times> u32 \<Rightarrow> (u32 \<times> u32) option" where
  "normalize_f16 =
     while_option (\<lambda>(mant, exp). mant AND 0x0400 = 0) (\<lambda>(mant, exp). (push_bit 1 mant, exp - 1))"

definition f16_to_f32 :: "u16 \<Rightarrow> u32 option" where
  "f16_to_f32 h =
     (let sign = push_bit 16 (ucast h AND 0x8000);
          exp = ucast (drop_bit 10 h) AND 0x1F;
          mant = ucast (h AND 0x03FF)
      in if exp = 0 then
           if mant = 0 then Some sign
           else (case normalize_f16 (mant, exp) of
                   None \<Rightarrow> None
                 | Some (mant, exp) \<Rightarrow>
                     let exp = exp + 1;
                         mant = mant AND NOT 0x0400;
                         exp = exp + (127 - 15)
                     in Some (sign OR push_bit 23 exp OR push_bit 13 mant))
         else if exp = 31 then Some (sign OR 0x7F800000 OR push_bit 13 mant)
         else let exp = exp + (127 - 15)
              in Some (sign OR push_bit 23 exp OR push_bit 13 mant))"

definition f32_to_f16 :: "u32 \<Rightarrow> u16" where
  "f32_to_f16 f =
     (let sign = ucast (drop_bit 16 f AND 0x8000) :: u16;
          exp = sint (drop_bit 23 f AND 0xFF) - 127 + 15;
          mant = f AND 0x007FFFFF
      in if drop_bit 23 f AND 0xFF = 255 then
           sign OR 0x7C00 OR (if mant \<noteq> 0 then 0x0200 else 0)
         else if exp \<ge> 31 then sign OR 0x7C00
         else if exp \<le> 0 then
           if exp < - 10 then sign
           else let mant = mant OR 0x00800000;
                    shift = nat (1 - exp)
                in ucast (ucast sign OR drop_bit (13 + shift) mant)
         else sign OR push_bit 10 (word_of_int exp) OR ucast (drop_bit 13 mant))"

definition f48_to_f64 :: "u64 \<Rightarrow> u64" where
  "f48_to_f64 h48 = push_bit 16 h48"

definition f64_to_f48 :: "u64 \<Rightarrow> u64" where
  "f64_to_f48 d = drop_bit 16 d"

definition io_read_f48 :: "bytes \<Rightarrow> nat \<Rightarrow> Endian \<Rightarrow> u64" where
  "io_read_f48 data offset e = f48_to_f64 (io_read_u48 data offset e)"

definition io_write_f48 :: "bytes \<Rightarrow> nat \<Rightarrow> u64 \<Rightarrow> Endian \<Rightarrow> bytes" where
  "io_write_f48 data offset value e = io_write_u48 data offset (f64_to_f48 value) e"

definition io_read_f16 :: "bytes \<Rightarrow> nat \<Rightarrow> Endian \<Rightarrow> u32 option" where
  "io_read_f16 data offset e = f16_to_f32 (io_read_u16 data offset e)"

definition io_write_f16 :: "bytes \<Rightarrow> nat \<Rightarrow> u32 \<Rightarrow> Endian \<Rightarrow> bytes" where
  "io_write_f16 data offset value e = io_write_u16 data offset (f32_to_f16 value) e"

definition io_read_f32 :: "bytes \<Rightarrow> nat \<Rightarrow> Endian \<Rightarrow> u32" where
  "io_read_f32 data offset e = io_read_u32 data offset e"

definition io_read_f64 :: "bytes \<Rightarrow> nat \<Rightarrow> Endian \<Rightarrow> u64" where
  "io_read_f64 data offset e = io_read_u64 data offset e"

definition io_write_f32 :: "bytes \<Rightarrow> nat \<Rightarrow> u32 \<Rightarrow> Endian \<Rightarrow> bytes" where
  "io_write_f32 data offset value e = io_write_u32 data offset value e"

definition io_write_f64 :: "bytes \<Rightarrow> nat \<Rightarrow> u64 \<Rightarrow> Endian \<Rightarrow> bytes" where
  "io_write_f64 data offset value e = io_write_u64 data offset value e"

section \<open>Integers and their bytes\<close>

text \<open>The bytes of an integer in the order of an \<open>Endian\<close> value.\<close>

definition be_bytes :: "nat \<Rightarrow> 'a::len word \<Rightarrow> bytes" where
  "be_bytes n v = map (\<lambda>i. ucast (drop_bit (8 * (n - 1 - i)) v)) [0..<n]"

definition ordered_bytes :: "Endian \<Rightarrow> nat \<Rightarrow> 'a::len word \<Rightarrow> bytes" where
  "ordered_bytes e n v = (case e of Big \<Rightarrow> be_bytes n v | Little \<Rightarrow> rev (be_bytes n v))"

definition in_order :: "Endian \<Rightarrow> 'b list \<Rightarrow> 'b list" where
  "in_order e bs = (case e of Big \<Rightarrow> bs | Little \<Rightarrow> rev bs)"

lemma in_order_in_order [simp]: "in_order e (in_order e bs) = bs"
  by (cases e) (simp_all add: in_order_def)

lemma length_in_order [simp]: "length (in_order e bs) = length bs"
  by (cases e) (simp_all add: in_order_def)

lemma ordered_bytes_in_order: "ordered_bytes e n v = in_order e (be_bytes n v)"
  by (cases e) (simp_all add: ordered_bytes_def in_order_def)

lemma length_be_bytes [simp]: "length (be_bytes n v) = n"
  by (simp add: be_bytes_def)

lemma length_ordered_bytes [simp]: "length (ordered_bytes e n v) = n"
  by (simp add: ordered_bytes_in_order)

lemma bytes_bits_be_bytes:
  "8 * n \<le> LENGTH('a) \<Longrightarrow> bytes_bits (be_bytes n (v :: 'a::len word)) = word_bits (8 * n) v"
proof (induction n)
  case 0
  then show ?case by (simp add: be_bytes_def)
next
  case (Suc n)
  have "be_bytes (Suc n) v = ucast (drop_bit (8 * n) v) # be_bytes n v"
    by (rule nth_equalityI) (auto simp: be_bytes_def nth_Cons simp del: upt_Suc split: nat.splits)
  moreover have "word_bits (8 * Suc n) v = word_bits 8 (drop_bit (8 * n) v) @ word_bits (8 * n) v"
    using word_bits_split [of 8 "8 * n" v] by simp
  ultimately show ?case
    using Suc by (simp add: word_bits_ucast)
qed

lemma bit_u8_beyond [simp]: "8 \<le> n \<Longrightarrow> \<not> bit (b :: u8) n"
  by (auto dest: bit_imp_le_length)

lemma take_drop_map_nth:
  "off + n \<le> length xs \<Longrightarrow> take n (drop off xs) = map (\<lambda>i. xs ! (off + i)) [0..<n]"
  by (rule nth_equalityI) auto

lemma off_numerals:
  "Suc (Suc (Suc x)) = x + 3" "Suc (x + 3) = x + 4" "Suc (x + 4) = x + 5"
  "Suc (x + 5) = x + 6" "Suc (x + 6) = x + 7"
  by simp_all

text \<open>Assembling an integer from its bytes, most significant byte first.\<close>

definition assemble :: "bytes \<Rightarrow> 'a::len word" where
  "assemble bs = foldl (\<lambda>a b. push_bit 8 a OR ucast b) 0 bs"

lemma assemble_bits:
  "8 * length bs \<le> LENGTH('a) \<Longrightarrow>
   word_bits (8 * length bs) (assemble bs :: 'a::len word) = bytes_bits bs"
proof (induction bs rule: rev_induct)
  case Nil
  then show ?case by simp
next
  case (snoc b bs)
  let ?a = "assemble bs :: 'a word"
  have "word_bits (8 * length bs + 8) (push_bit 8 ?a OR ucast b)
      = word_bits (8 * length bs) (drop_bit 8 (push_bit 8 ?a OR ucast b))
        @ word_bits 8 (push_bit 8 ?a OR ucast b)"
    by (rule word_bits_split)
  moreover have "word_bits (8 * length bs) (drop_bit 8 (push_bit 8 ?a OR ucast b))
      = word_bits (8 * length bs) ?a"
    using snoc.prems by (intro nth_equalityI) (auto simp: nth_word_bits bit_simps)
  moreover have "word_bits 8 (push_bit 8 ?a OR ucast b) = word_bits 8 b"
    using snoc.prems by (intro nth_equalityI) (auto simp: nth_word_bits bit_simps)
  moreover have "assemble (bs @ [b]) = push_bit 8 ?a OR ucast b"
    by (simp add: assemble_def)
  ultimately show ?case using snoc by (simp add: add.commute)
qed

lemmas assemble_simps = assemble_def in_order_def push_bit_or take_drop_map_nth upt_rec
  off_numerals ac_simps

lemma io_read_u16_assemble:
  "off + 2 \<le> length d \<Longrightarrow> io_read_u16 d off e = assemble (in_order e (take 2 (drop off d)))"
  by (cases e) (simp_all add: io_read_u16_def assemble_simps)

lemma io_read_u32_assemble:
  "off + 4 \<le> length d \<Longrightarrow> io_read_u32 d off e = assemble (in_order e (take 4 (drop off d)))"
  by (cases e) (simp_all add: io_read_u32_def assemble_simps)

lemma io_read_u48_assemble:
  "off + 6 \<le> length d \<Longrightarrow> io_read_u48 d off e = assemble (in_order e (take 6 (drop off d)))"
  by (cases e) (simp_all add: io_read_u48_def assemble_simps)

lemma io_read_u64_assemble:
  "off + 8 \<le> length d \<Longrightarrow> io_read_u64 d off e = assemble (in_order e (take 8 (drop off d)))"
  by (cases e) (simp_all add: io_read_u64_def assemble_simps)

lemmas io_read_assemble =
  io_read_u16_assemble io_read_u32_assemble io_read_u48_assemble io_read_u64_assemble

text \<open>Overwriting consecutive bytes of a buffer.\<close>

definition overwrite :: "nat \<Rightarrow> 'b list \<Rightarrow> 'b list \<Rightarrow> 'b list" where
  "overwrite off vs xs = take off xs @ vs @ drop (off + length vs) xs"

lemma overwrite_Nil: "overwrite off [] xs = xs"
  by (simp add: overwrite_def)

lemma overwrite_Cons:
  "off < length xs \<Longrightarrow> overwrite off (v # vs) xs = overwrite (Suc off) vs (xs[off := v])"
  by (simp add: overwrite_def upd_conv_take_nth_drop take_Suc_conv_app_nth add.commute)

lemma length_overwrite [simp]:
  "off + length vs \<le> length xs \<Longrightarrow> length (overwrite off vs xs) = length xs"
  by (simp add: overwrite_def)

lemma take_drop_overwrite:
  "off + length vs \<le> length xs \<Longrightarrow> n = length vs \<Longrightarrow> take n (drop off (overwrite off vs xs)) = vs"
  by (simp add: overwrite_def)

lemma nth_overwrite_outside:
  "off + length vs \<le> length xs \<Longrightarrow> i < off \<or> off + length vs \<le> i \<Longrightarrow>
   overwrite off vs xs ! i = xs ! i"
  by (auto simp: overwrite_def nth_append)

lemmas overwrite_simps =
  overwrite_Nil overwrite_Cons ordered_bytes_def be_bytes_def upt_rec off_numerals

lemma io_write_u16_overwrite:
  "off + 2 \<le> length d \<Longrightarrow> io_write_u16 d off v e = overwrite off (ordered_bytes e 2 v) d"
  by (cases e) (simp_all add: io_write_u16_def overwrite_simps)

lemma io_write_u32_overwrite:
  "off + 4 \<le> length d \<Longrightarrow> io_write_u32 d off v e = overwrite off (ordered_bytes e 4 v) d"
  by (cases e) (simp_all add: io_write_u32_def overwrite_simps)

lemma io_write_u64_overwrite:
  "off + 8 \<le> length d \<Longrightarrow> io_write_u64 d off v e = overwrite off (ordered_bytes e 8 v) d"
  by (cases e) (simp_all add: io_write_u64_def overwrite_simps)

lemma ucast_and_FF: "ucast ((w :: u64) AND 0xFF) = (ucast w :: u8)"
proof -
  have m: "(0xFF :: u64) = mask 8" by (simp add: mask_eq_exp_minus_1)
  show ?thesis unfolding m by (rule bit_word_eqI) (simp add: bit_simps)
qed

lemma io_write_u48_overwrite:
  "off + 6 \<le> length d \<Longrightarrow> io_write_u48 d off v e = overwrite off (ordered_bytes e 6 v) d"
  by (cases e) (simp_all add: io_write_u48_def overwrite_simps ucast_and_FF)

lemmas io_write_overwrite =
  io_write_u16_overwrite io_write_u32_overwrite io_write_u48_overwrite io_write_u64_overwrite

text \<open>Bytes out, bytes in: the integer comes back.\<close>

lemma assemble_be_bytes:
  assumes "8 * n \<le> LENGTH('a)"
  shows "take_bit (8 * n) (assemble (be_bytes n v) :: 'a::len word) = take_bit (8 * n) v"
proof -
  have "word_bits (8 * n) (assemble (be_bytes n v) :: 'a word) = word_bits (8 * n) v"
    using assemble_bits [where bs = "be_bytes n v" and ?'a = 'a] assms
    by (simp add: bytes_bits_be_bytes)
  then show ?thesis by (metis of_nat_bits_val_word_bits)
qed

lemma assemble_ordered_bytes:
  "8 * n = LENGTH('a) \<Longrightarrow> assemble (in_order e (ordered_bytes e n v)) = (v :: 'a::len word)"
  using assemble_be_bytes [of n v] by (simp add: ordered_bytes_in_order)

lemma be_bytes_assemble:
  assumes "8 * length bs \<le> LENGTH('a)"
  shows "be_bytes (length bs) (assemble bs :: 'a::len word) = bs"
proof (rule bytes_bits_inj)
  show "bytes_bits (be_bytes (length bs) (assemble bs :: 'a word)) = bytes_bits bs"
    using assms by (simp add: bytes_bits_be_bytes assemble_bits)
qed

section \<open>Byte swapping reverses the bytes\<close>

lemma push_masked_byte:
  "push_bit a (v AND push_bit k (mask 8)) = push_bit (a + k) (ucast (ucast (drop_bit k v) :: u8))"
  for v :: "'a::len word"
  by (rule bit_word_eqI) (auto simp: bit_simps)

lemma drop_masked_byte:
  "a \<le> k \<Longrightarrow> drop_bit a (v AND push_bit k (mask 8)) =
     push_bit (k - a) (ucast (ucast (drop_bit k v) :: u8))"
  for v :: "'a::len word"
  by (rule bit_word_eqI) (auto simp: bit_simps ac_simps dest: bit_imp_le_length)

lemma byte_masks:
  "(0xFF :: 'a::len word) = push_bit 0 (mask 8)"
  "(0xFF00 :: 'a::len word) = push_bit 8 (mask 8)"
  "(0xFF0000 :: 'a::len word) = push_bit 16 (mask 8)"
  "(0xFF000000 :: 'a::len word) = push_bit 24 (mask 8)"
  "(0xFF00000000 :: 'a::len word) = push_bit 32 (mask 8)"
  "(0xFF0000000000 :: 'a::len word) = push_bit 40 (mask 8)"
  "(0xFF000000000000 :: 'a::len word) = push_bit 48 (mask 8)"
  "(0xFF00000000000000 :: 'a::len word) = push_bit 56 (mask 8)"
  by (simp_all add: mask_eq_exp_minus_1 push_bit_eq_mult)

lemma byte_swap32_assemble: "byte_swap32 v = assemble (rev (be_bytes 4 v))"
  unfolding byte_swap32_def byte_masks push_masked_byte
  by (simp add: drop_masked_byte assemble_def be_bytes_def push_bit_or upt_rec ac_simps
      del: drop_bit_and)

lemma byte_swap64_assemble: "byte_swap64 v = assemble (rev (be_bytes 8 v))"
  unfolding byte_swap64_def byte_masks push_masked_byte
  by (simp add: drop_masked_byte assemble_def be_bytes_def push_bit_or upt_rec ac_simps
      del: drop_bit_and)

lemma byte_swap16_assemble: "byte_swap16 v = assemble (rev (be_bytes 2 v))"
  by (rule bit_word_eqI)
    (auto simp: byte_swap16_def assemble_def be_bytes_def upt_rec bit_simps dest: bit_imp_le_length)


section \<open>Properties\<close>



text \<open>
  The two byte orders differ by a byte swap: loading little-endian is swapping what loading
  big-endian gives, at every width.
\<close>

lemma little_is_swapped_big:
  assumes "off + 8 \<le> length d"
  shows "io_read_u16 d off Little = byte_swap16 (io_read_u16 d off Big) \<and>
    io_read_u32 d off Little = byte_swap32 (io_read_u32 d off Big) \<and>
    io_read_u64 d off Little = byte_swap64 (io_read_u64 d off Big)"
proof -
  have "be_bytes 2 (assemble (take 2 (drop off d)) :: u16) = take 2 (drop off d)"
    and "be_bytes 4 (assemble (take 4 (drop off d)) :: u32) = take 4 (drop off d)"
    and "be_bytes 8 (assemble (take 8 (drop off d)) :: u64) = take 8 (drop off d)"
    using be_bytes_assemble [of "take 2 (drop off d)", where ?'a = 16]
      be_bytes_assemble [of "take 4 (drop off d)", where ?'a = 32]
      be_bytes_assemble [of "take 8 (drop off d)", where ?'a = 64] assms by simp_all
  then show ?thesis
    using assms by (simp add: io_read_assemble in_order_def byte_swap16_assemble byte_swap32_assemble
        byte_swap64_assemble)
qed

end
