(* ===== verification/Float_Codec.thy ===== *)
theory Float_Codec
  imports Endian_Codec
begin

text \<open>
  Facts about the float conversions of \<open>include/conduit/io/endian.hpp\<close>: the normalisation loop
  of \<open>f16_to_f32\<close> returns on every subnormal input, and converting a half-precision value to single
  precision and back gives the same value, NaN payloads apart.  The 48-bit format is a truncated
  double.
\<close>

unbundle bit_operations_syntax

section \<open>Bits of the constants\<close>

lemma bit_power_const: "w = 2 ^ k \<Longrightarrow> bit (w :: 'a::len word) n \<longleftrightarrow> n = k \<and> k < LENGTH('a)"
  by (auto simp: bit_exp_iff)

lemma bit_mask_const: "w = mask k \<Longrightarrow> bit (w :: 'a::len word) n \<longleftrightarrow> n < k \<and> n < LENGTH('a)"
  by (auto simp: bit_mask_iff)

lemma bit_field_const:
  "w = push_bit j (mask k) \<Longrightarrow> bit (w :: 'a::len word) n \<longleftrightarrow> j \<le> n \<and> n < j + k \<and> n < LENGTH('a)"
  by (auto simp: bit_simps)

lemma float_bits:
  "bit (0x8000 :: 'a::len word) n \<longleftrightarrow> n = 15 \<and> 15 < LENGTH('a)"
  "bit (0x0400 :: 'a::len word) n \<longleftrightarrow> n = 10 \<and> 10 < LENGTH('a)"
  "bit (0x00800000 :: 'a::len word) n \<longleftrightarrow> n = 23 \<and> 23 < LENGTH('a)"
  "bit (0x7FFFFF :: 'a::len word) n \<longleftrightarrow> n < 23 \<and> n < LENGTH('a)"
  "bit (0x03FF :: 'a::len word) n \<longleftrightarrow> n < 10 \<and> n < LENGTH('a)"
  "bit (0x1F :: 'a::len word) n \<longleftrightarrow> n < 5 \<and> n < LENGTH('a)"
  "bit (0xFF :: 'a::len word) n \<longleftrightarrow> n < 8 \<and> n < LENGTH('a)"
  by (rule bit_power_const bit_mask_const [THEN trans];
      simp add: mask_eq_exp_minus_1)+

lemma float_field_bits:
  "bit (0x7F800000 :: 'a::len word) n \<longleftrightarrow> 23 \<le> n \<and> n < 31 \<and> n < LENGTH('a)"
  "bit (0x7C00 :: 'a::len word) n \<longleftrightarrow> 10 \<le> n \<and> n < 15 \<and> n < LENGTH('a)"
  using bit_field_const [of "0x7F800000 :: 'a word" 23 8 n] bit_field_const [of "0x7C00 :: 'a word" 10 5 n]
  by (simp_all add: mask_eq_exp_minus_1 push_bit_eq_mult)

declare bit_numeral_word_iff [simp del]

lemmas word_bit_iffs =
  bit_and_iff bit_or_iff bit_push_bit_iff bit_drop_bit_eq bit_ucast_iff float_bits float_field_bits

text \<open>The three fields of a single-precision pattern.\<close>

lemma f32_fields:
  fixes s e m :: u32
  assumes s: "\<And>n. bit s n \<Longrightarrow> n = 31" and e: "\<And>n. bit e n \<Longrightarrow> n < 8" and m: "\<And>n. bit m n \<Longrightarrow> n < 23"
  shows "drop_bit 23 (s OR push_bit 23 e OR m) AND 0xFF = e"
    and "(s OR push_bit 23 e OR m) AND 0x007FFFFF = m"
    and "drop_bit 16 (s OR push_bit 23 e OR m) AND 0x8000 = drop_bit 16 s"
  by (rule bit_word_eqI; use assms in \<open>force simp: word_bit_iffs dest: bit_imp_le_length\<close>)+

definition f16_sign :: "u16 \<Rightarrow> u32" where
  "f16_sign h = push_bit 16 (ucast h AND 0x8000)"

lemma bit_f16_sign: "bit (f16_sign h) n \<longleftrightarrow> n = 31 \<and> bit h 15"
  unfolding f16_sign_def word_bit_iffs by (auto simp: word_bit_iffs)

lemma drop_f16_sign: "ucast (drop_bit 16 (f16_sign h)) = h AND 0x8000"
  by (rule bit_word_eqI) (auto simp: word_bit_iffs bit_f16_sign)

lemma f32_to_f16_packed:
  fixes e m :: u32
  assumes e: "\<And>n. bit e n \<Longrightarrow> n < 8" and m: "\<And>n. bit m n \<Longrightarrow> n < 23"
  shows "f32_to_f16 (f16_sign h OR push_bit 23 e OR m) =
     (let exp = sint e - 127 + 15 in
      if e = 255 then (h AND 0x8000) OR 0x7C00 OR (if m \<noteq> 0 then 0x0200 else 0)
      else if exp \<ge> 31 then (h AND 0x8000) OR 0x7C00
      else if exp \<le> 0 then
        if exp < - 10 then h AND 0x8000
        else ucast (ucast (h AND 0x8000) OR drop_bit (13 + nat (1 - exp)) (m OR 0x00800000))
      else (h AND 0x8000) OR push_bit 10 (word_of_int exp) OR ucast (drop_bit 13 m))"
  using f32_fields [of "f16_sign h" e m, OF _ e m]
  by (simp add: f32_to_f16_def Let_def bit_f16_sign drop_f16_sign)


text \<open>The normalisation loop returns, with the leading one moved to bit 10.\<close>

lemma normalize_f16_step:
  "normalize_f16 (m, e) =
     (if m AND 0x0400 = 0 then normalize_f16 (push_bit 1 m, e - 1) else Some (m, e))"
  unfolding normalize_f16_def by (subst while_option_unfold) simp

lemma and_0400_eq_0_iff: "(m :: u32) AND 0x0400 = 0 \<longleftrightarrow> \<not> bit m 10"
  using bit_word_eqI [of "m AND 0x0400" 0] by (auto simp: word_bit_iffs dest: arg_cong [where f = "\<lambda>w. bit w 10"])

lemma normalize_f16_returns:
  "j \<le> 10 \<Longrightarrow> bit m (10 - j) \<Longrightarrow> (\<And>i. 10 - j < i \<Longrightarrow> \<not> bit (m :: u32) i) \<Longrightarrow>
   normalize_f16 (m, e) = Some (push_bit j m, e - of_nat j)"
proof (induction j arbitrary: m e)
  case 0
  then show ?case by (subst normalize_f16_step) (simp add: and_0400_eq_0_iff)
next
  case (Suc j)
  have "\<not> bit m 10" using Suc.prems by simp
  then have "normalize_f16 (m, e) = normalize_f16 (push_bit 1 m, e - 1)"
    by (subst normalize_f16_step) (simp add: and_0400_eq_0_iff)
  also have "\<dots> = Some (push_bit j (push_bit 1 m), e - 1 - of_nat j)"
  proof (rule Suc.IH)
    show "j \<le> 10" using Suc.prems by simp
    show "bit (push_bit 1 m) (10 - j)"
      using Suc.prems unfolding bit_push_bit_iff by auto
    show "\<not> bit (push_bit 1 m) i" if "10 - j < i" for i
      using Suc.prems(3) [of "i - 1"] Suc.prems(1) that unfolding bit_push_bit_iff by auto
  qed
  finally show ?case by (simp add: algebra_simps)
qed


definition f16_exp :: "u16 \<Rightarrow> u32" where
  "f16_exp h = ucast (drop_bit 10 h) AND 0x1F"

definition f16_mant :: "u16 \<Rightarrow> u32" where
  "f16_mant h = ucast (h AND 0x03FF)"

definition f16_is_nan :: "u16 \<Rightarrow> bool" where
  "f16_is_nan h \<longleftrightarrow> f16_exp h = 31 \<and> f16_mant h \<noteq> 0"

lemma bit_f16_exp: "bit (f16_exp h) n \<longleftrightarrow> n < 5 \<and> bit h (10 + n)"
  unfolding f16_exp_def by (auto simp: word_bit_iffs)

lemma bit_f16_mant: "bit (f16_mant h) n \<longleftrightarrow> n < 10 \<and> bit h n"
  unfolding f16_mant_def by (auto simp: word_bit_iffs)

lemma drop_push_f16_mant: "drop_bit 13 (push_bit 13 (f16_mant h)) = f16_mant h"
  by (rule bit_word_eqI) (auto simp: word_bit_iffs bit_f16_mant)

lemma f16_to_f32_fields:
  "f16_to_f32 h =
     (if f16_exp h = 0 then
        if f16_mant h = 0 then Some (f16_sign h OR push_bit 23 0 OR 0)
        else map_option (\<lambda>(m, e). f16_sign h OR push_bit 23 (e + 113) OR push_bit 13 (m AND NOT 0x0400))
               (normalize_f16 (f16_mant h, 0))
      else if f16_exp h = 31 then Some (f16_sign h OR push_bit 23 255 OR push_bit 13 (f16_mant h))
      else Some (f16_sign h OR push_bit 23 (f16_exp h + 112) OR push_bit 13 (f16_mant h)))"
  unfolding f16_to_f32_def Let_def f16_sign_def [symmetric] f16_exp_def [symmetric]
    f16_mant_def [symmetric]
  by (cases "f16_exp h = 0"; simp split: option.splits add: ac_simps)

lemma f16_reassemble:
  "(h AND 0x8000) OR push_bit 10 (ucast (f16_exp h)) OR ucast (f16_mant h) = h"
proof (rule bit_word_eqI)
  fix n assume "n < LENGTH(16)"
  then consider "n = 15" | "10 \<le> n" "n < 15" | "n < 10" by force
  then show "bit ((h AND 0x8000) OR push_bit 10 (ucast (f16_exp h)) OR ucast (f16_mant h)) n = bit h n"
    by cases (auto simp: word_bit_iffs bit_f16_exp bit_f16_mant)
qed


lemma highest_bit:
  assumes "w \<noteq> (0 :: 'a::len word)"
  obtains p where "bit w p" and "\<And>i. p < i \<Longrightarrow> \<not> bit w i"
proof -
  let ?S = "{i. bit w i}"
  have fin: "finite ?S" by (rule finite_subset [of _ "{..<LENGTH('a)}"]) (auto dest: bit_imp_le_length)
  have "?S \<noteq> {}" using assms by (auto simp: bit_eq_iff)
  then have "bit w (Max ?S)" using Max_in [OF fin] by simp
  moreover have "\<not> bit w i" if "Max ?S < i" for i using Max_ge [OF fin, of i] that by (metis leD mem_Collect_eq)
  ultimately show thesis by (rule that)
qed

text \<open>The subnormal case: shifting left by \<open>j\<close> and right again by \<open>j\<close>.\<close>

lemma f16_subnormal_normalized:
  assumes "f16_mant h \<noteq> 0"
  obtains j where "1 \<le> j" "j \<le> 10"
    "normalize_f16 (f16_mant h, 0) = Some (push_bit j (f16_mant h), - of_nat j)"
    "bit (f16_mant h) (10 - j)" "\<And>i. 10 - j < i \<Longrightarrow> \<not> bit (f16_mant h) i"
proof -
  obtain p where p: "bit (f16_mant h) p" "\<And>i. p < i \<Longrightarrow> \<not> bit (f16_mant h) i"
    using highest_bit [OF assms] by blast
  have "p < 10" using p(1) by (simp add: bit_f16_mant)
  then have "normalize_f16 (f16_mant h, 0) = Some (push_bit (10 - p) (f16_mant h), 0 - of_nat (10 - p))"
    using p by (intro normalize_f16_returns) auto
  with p \<open>p < 10\<close> show thesis by (intro that [of "10 - p"]) auto
qed

lemma f16_to_f32_returns: "\<exists>f. f16_to_f32 h = Some f"
  by (cases "f16_mant h = 0") (auto simp: f16_to_f32_fields elim!: f16_subnormal_normalized)

lemma f16_subnormal_mantissa:
  assumes "bit m (10 - j)" "\<And>i. 10 - j < i \<Longrightarrow> \<not> bit m i" "1 \<le> j" "j \<le> 10"
  shows "drop_bit (13 + j) (push_bit 13 (push_bit j m AND NOT 0x0400) OR 0x00800000) = (m :: u32)"
proof (rule bit_word_eqI)
  fix n assume "n < LENGTH(32)"
  consider "n < 10 - j" | "n = 10 - j" | "10 - j < n" by linarith
  then show "bit (drop_bit (13 + j) (push_bit 13 (push_bit j m AND NOT 0x0400) OR 0x00800000)) n = bit m n"
    using assms unfolding word_bit_iffs bit_not_iff by cases (auto simp: word_bit_iffs)
qed


lemma f32_to_f16_subnormal:
  assumes "f16_to_f32 h = Some f" and "f16_exp h = 0" and "f16_mant h \<noteq> 0"
  shows "f32_to_f16 f = h"
proof -
  obtain j where j: "1 \<le> j" "j \<le> 10"
      "normalize_f16 (f16_mant h, 0) = Some (push_bit j (f16_mant h), - of_nat j)"
      "bit (f16_mant h) (10 - j)" "\<And>i. 10 - j < i \<Longrightarrow> \<not> bit (f16_mant h) i"
    using f16_subnormal_normalized [OF assms(3)] by metis
  define e :: u32 where "e = - of_nat j + 113"
  define m where "m = push_bit 13 (push_bit j (f16_mant h) AND NOT 0x0400)"
  have f: "f = f16_sign h OR push_bit 23 e OR m"
    using assms j(3) by (simp add: f16_to_f32_fields e_def m_def del: push_bit_and)
  have "e = of_nat (113 - j)" using j(2) by (simp add: e_def of_nat_diff)
  then have ue: "unat e = 113 - j" by (simp add: unat_of_nat_small)
  have se: "sint e = 113 - int j" using j(2) by (simp add: sint_small ue)
  have e255: "e \<noteq> 255" using ue by auto
  have "\<And>n. bit e n \<Longrightarrow> n < 8" by (rule unat_less_imp_bit) (use ue in auto)
  moreover have "n < 23" if "bit m n" for n
  proof -
    from that have n: "13 \<le> n" "j \<le> n - 13" "bit (f16_mant h) (n - 13 - j)" "n - 13 \<noteq> 10"
      unfolding m_def bit_push_bit_iff bit_and_iff bit_not_iff by (auto simp: float_bits)
    then have "\<not> 10 - j < n - 13 - j" using j(5) by blast
    with n j(2) show ?thesis by linarith
  qed
  ultimately have "f32_to_f16 f = ucast (ucast (h AND 0x8000) OR drop_bit (13 + j) (m OR 0x00800000))"
    unfolding f using j(1,2) e255 by (subst f32_to_f16_packed) (simp_all add: se Let_def)
  also have "drop_bit (13 + j) (m OR 0x00800000) = f16_mant h"
    unfolding m_def using j by (intro f16_subnormal_mantissa) auto
  also have "ucast (ucast (h AND 0x8000) OR f16_mant h) = (h AND 0x8000) OR ucast (f16_mant h)"
    by (rule bit_word_eqI) (auto simp: word_bit_iffs)
  finally show ?thesis
    using assms(2) f16_reassemble [of h] by simp
qed

lemma f32_to_f16_normal:
  assumes "f16_to_f32 h = Some f" and "f16_exp h \<noteq> 0" and "f16_exp h \<noteq> 31"
  shows "f32_to_f16 f = h"
proof -
  define e where "e = f16_exp h + 112"
  have lt: "unat (f16_exp h) < 32"
    using bit_imp_unat_less [of "f16_exp h" 5] by (simp add: bit_f16_exp)
  then have ne: "unat (f16_exp h) \<noteq> 0" "unat (f16_exp h) < 31"
    using assms word_unat_eq_iff [of "f16_exp h" 0] word_unat_eq_iff [of "f16_exp h" 31] by auto
  then have "uint (f16_exp h) \<noteq> 0" "uint (f16_exp h) < 31"
    by (simp_all add: uint_nat del: of_nat_unat)
  note ne = ne this
  have ue: "unat e = unat (f16_exp h) + 112"
    using lt by (simp add: e_def unat_word_ariths)
  have se: "sint e = int (unat (f16_exp h)) + 112" using lt by (simp add: sint_small ue)
  have f: "f = f16_sign h OR push_bit 23 e OR push_bit 13 (f16_mant h)"
    using assms by (simp add: f16_to_f32_fields e_def)
  have e255: "e \<noteq> 255" using ue lt by auto
  have "\<And>n. bit e n \<Longrightarrow> n < 8" by (rule unat_less_imp_bit) (use ue lt in auto)
  moreover have "\<And>n. bit (push_bit 13 (f16_mant h)) n \<Longrightarrow> n < 23"
    by (auto simp: bit_push_bit_iff bit_f16_mant)
  ultimately have "f32_to_f16 f = (h AND 0x8000) OR push_bit 10 (word_of_int (int (unat (f16_exp h))))
      OR ucast (drop_bit 13 (push_bit 13 (f16_mant h)))"
    unfolding f using ne e255 by (subst f32_to_f16_packed) (simp_all add: se Let_def)
  also have "drop_bit 13 (push_bit 13 (f16_mant h)) = f16_mant h"
    by (rule drop_push_f16_mant)
  also have "(word_of_int (int (unat (f16_exp h))) :: u16) = ucast (f16_exp h)"
    by (simp flip: uint_nat)
  finally show ?thesis using f16_reassemble [of h] by simp
qed

lemma f32_to_f16_zero_inf:
  assumes "f16_to_f32 h = Some f" and "f16_exp h = 0 \<or> f16_exp h = 31" and "f16_mant h = 0"
  shows "f32_to_f16 f = h"
proof (cases "f16_exp h = 0")
  case True
  with assms have f: "f = f16_sign h OR push_bit 23 0 OR 0"
    by (simp add: f16_to_f32_fields)
  have "f32_to_f16 f = h AND 0x8000"
    unfolding f by (subst f32_to_f16_packed) auto
  with True assms(3) f16_reassemble [of h] show ?thesis by simp
next
  case False
  with assms have e: "f16_exp h = 31" and f: "f = f16_sign h OR push_bit 23 255 OR 0"
    by (simp_all add: f16_to_f32_fields)
  have "f32_to_f16 f = (h AND 0x8000) OR 0x7C00"
    unfolding f by (subst f32_to_f16_packed) (auto simp: float_bits)
  with e assms(3) f16_reassemble [of h] show ?thesis by simp
qed

lemma f32_to_f16_of_f16:
  "f16_to_f32 h = Some f \<Longrightarrow> \<not> f16_is_nan h \<Longrightarrow> f32_to_f16 f = h"
  using f32_to_f16_subnormal f32_to_f16_normal f32_to_f16_zero_inf
  unfolding f16_is_nan_def by blast

text \<open>A NaN stays a NaN with the same sign; its payload becomes the single bit \<open>0x0200\<close>.\<close>

lemma f32_to_f16_of_nan:
  assumes "f16_to_f32 h = Some f" and "f16_is_nan h"
  shows "f32_to_f16 f = (h AND 0x8000) OR 0x7C00 OR 0x0200"
proof -
  have ne: "push_bit 13 (f16_mant h) \<noteq> 0"
    using assms(2) drop_push_f16_mant [of h] by (auto simp: f16_is_nan_def)
  have f: "f = f16_sign h OR push_bit 23 255 OR push_bit 13 (f16_mant h)"
    using assms by (simp add: f16_to_f32_fields f16_is_nan_def)
  show ?thesis
    unfolding f using ne
    by (subst f32_to_f16_packed) (auto simp: float_bits bit_push_bit_iff bit_f16_mant Let_def)
qed

section \<open>48-bit floats\<close>

lemma f64_to_f48_of_f48: "f64_to_f48 (f48_to_f64 h) = take_bit 48 h"
  unfolding f64_to_f48_def f48_to_f64_def by (rule bit_word_eqI) (auto simp: bit_simps)

lemma f48_to_f64_of_f64: "f48_to_f64 (f64_to_f48 d) = d AND NOT (mask 16)"
  unfolding f64_to_f48_def f48_to_f64_def by (rule bit_word_eqI) (auto simp: bit_simps)

declare bit_numeral_word_iff [simp]

section \<open>Properties\<close>

text \<open>
  C25: decoding a half-precision pattern always ends, and encoding the result gives the pattern back:
  zeros, subnormals, normal numbers and infinities exactly, a NaN as a quiet NaN of the same sign.
\<close>

theorem f16_round_trip:
  "\<exists>f. f16_to_f32 h = Some f \<and>
     f32_to_f16 f = (if f16_is_nan h then (h AND 0x8000) OR 0x7C00 OR 0x0200 else h)"
  using f16_to_f32_returns [of h] f32_to_f16_of_f16 f32_to_f16_of_nan by auto

text \<open>
  C26: the 48-bit format keeps the upper 48 bits of a double: decoding and encoding is the identity
  on 48-bit patterns, encoding and decoding clears the low 16 bits and nothing else.
\<close>

theorem f48_round_trip:
  "f64_to_f48 (f48_to_f64 h) = take_bit 48 h \<and> f48_to_f64 (f64_to_f48 d) = d AND NOT (mask 16)"
  by (simp only: f64_to_f48_of_f48 f48_to_f64_of_f64)

end
