(* ===== verification/Bit_Reader.thy ===== *)
theory Bit_Reader
  imports Conduit_Error Endian_Codec Float_Codec
begin

text \<open>
  The bit-level parser \<open>conduit::io::BitReader\<close>:
  \<open>include/conduit/io/bit_reader.hpp\<close> and \<open>src/io/bit_reader.cpp\<close>.

  A reader is the record \<open>BitReader\<close>; every member function takes the reader and returns the
  value or error together with the reader after the call, since a failing call may already have
  aligned the position.  Functions that index the buffer, take a subspan or run the half-precision
  loop return an \<open>option\<close>, where \<open>None\<close> stands for an execution the C++ language does not define
  (an access outside the span) or a loop that does not end.  Buffer sizes and positions are naturals:
  sums with a caller's count, which can leave the range of \<open>size_t\<close>, are taken modulo \<open>2 ^ 64\<close>.
\<close>

unbundle bit_operations_syntax

section \<open>The reader and its position\<close>

record BitReader =
  br_data :: bytes
  br_byte_pos :: nat
  br_bit_pos :: nat

definition mk_reader :: "bytes \<Rightarrow> BitReader" where
  "mk_reader data = \<lparr>br_data = data, br_byte_pos = 0, br_bit_pos = 0\<rparr>"

definition remaining_bytes :: "BitReader \<Rightarrow> nat" where
  "remaining_bytes r =
     (if br_byte_pos r \<ge> length (br_data r) then 0
      else length (br_data r) - br_byte_pos r - (if br_bit_pos r > 0 then 1 else 0))"

definition remaining_bits :: "BitReader \<Rightarrow> nat" where
  "remaining_bits r =
     (if br_byte_pos r \<ge> length (br_data r) then 0
      else (length (br_data r) - br_byte_pos r) * 8 - br_bit_pos r)"

definition bit_position :: "BitReader \<Rightarrow> nat" where
  "bit_position r = br_byte_pos r * 8 + br_bit_pos r"

definition at_end :: "BitReader \<Rightarrow> bool" where
  "at_end r \<longleftrightarrow> br_byte_pos r \<ge> length (br_data r)"

definition reader_is_byte_aligned :: "BitReader \<Rightarrow> bool" where
  "reader_is_byte_aligned r \<longleftrightarrow> br_bit_pos r = 0"

definition reader_reset :: "BitReader \<Rightarrow> BitReader" where
  "reader_reset r = r\<lparr>br_byte_pos := 0, br_bit_pos := 0\<rparr>"

definition advance :: "nat \<Rightarrow> BitReader \<Rightarrow> BitReader" where
  "advance bits r =
     (let bit_pos = br_bit_pos r + bits
      in r\<lparr>br_byte_pos := br_byte_pos r + bit_pos div 8, br_bit_pos := bit_pos mod 8\<rparr>)"

definition reader_align_to_byte :: "BitReader \<Rightarrow> BitReader" where
  "reader_align_to_byte r =
     (if br_bit_pos r > 0 then r\<lparr>br_byte_pos := br_byte_pos r + 1, br_bit_pos := 0\<rparr> else r)"

definition reader_align_to :: "nat \<Rightarrow> BitReader \<Rightarrow> BitReader" where
  "reader_align_to byte_boundary r =
     (if byte_boundary = 0 then r
      else
        let r = reader_align_to_byte r;
            r = (if byte_boundary > 1 \<and> br_byte_pos r mod byte_boundary \<noteq> 0
                 then r\<lparr>br_byte_pos :=
                          br_byte_pos r + (byte_boundary - br_byte_pos r mod byte_boundary)\<rparr>
                 else r)
        in if br_byte_pos r > length (br_data r) then r\<lparr>br_byte_pos := length (br_data r)\<rparr> else r)"

definition skip_bits :: "nat \<Rightarrow> BitReader \<Rightarrow> VoidResult \<times> BitReader" where
  "skip_bits count r =
     (if count > remaining_bits r
      then (Inl (mk_error BufferUnderrun
              (''skip_bits: need '' @ to_string count @ '' bits, only ''
               @ to_string (remaining_bits r) @ '' remain'')), r)
      else (Inr (), advance count r))"

section \<open>Bit-level reading\<close>

text \<open>
  The loop of \<open>read_bits\<close>: at most one byte's worth of bits per iteration.  An iteration reads
  \<open>data_[byte_pos_]\<close>; the class keeps \<open>bit_pos_\<close> between 0 and 7.
\<close>

function read_bits_loop :: "nat \<Rightarrow> u64 \<Rightarrow> BitReader \<Rightarrow> (u64 \<times> BitReader) option" where
  "read_bits_loop remaining result r =
     (if remaining = 0 then Some (result, r)
      else if \<not> (br_byte_pos r < length (br_data r) \<and> br_bit_pos r < 8) then None
      else
        let bits_in_byte = 8 - br_bit_pos r;
            bits_to_read = min remaining bits_in_byte;
            mask = (if bits_to_read \<ge> 8 then 0xFF else ucast (push_bit bits_to_read 1 - 1 :: u32)) :: u8;
            shift = bits_in_byte - bits_to_read;
            bits = ucast (drop_bit shift (ucast (br_data r ! br_byte_pos r) :: u32) AND ucast mask) :: u8
        in read_bits_loop (remaining - bits_to_read) (push_bit bits_to_read result OR ucast bits)
             (advance bits_to_read r))"
  by pat_completeness auto
termination
  by (relation "measure (\<lambda>(remaining, result, r). remaining)") auto

declare read_bits_loop.simps [simp del]

definition read_bits :: "nat \<Rightarrow> BitReader \<Rightarrow> (u64 Result \<times> BitReader) option" where
  "read_bits count r =
     (if count = 0 then Some (Inr 0, r)
      else if count > 64 then
        Some (Inl (mk_error InvalidArgument
                (''read_bits: requested '' @ to_string count @ '' bits, max is 64'')), r)
      else if remaining_bits r < count then
        Some (Inl (mk_error BufferUnderrun
                (''read_bits: need '' @ to_string count @ '' bits, only ''
                 @ to_string (remaining_bits r) @ '' remain'')), r)
      else map_option (\<lambda>(v, r). (Inr v, r)) (read_bits_loop count 0 r))"

text \<open>
  Continuing after a successful read, as \<open>CONDUIT_TRY_ASSIGN\<close> does.  An \<open>int64_t\<close> result is
  the 64-bit pattern, read with \<open>sint\<close>.
\<close>

definition try_read ::
  "('a Result \<times> BitReader) option \<Rightarrow> ('a \<Rightarrow> 'b Result) \<Rightarrow> ('b Result \<times> BitReader) option" where
  "try_read m k =
     (case m of
        None \<Rightarrow> None
      | Some (Inl e, r) \<Rightarrow> Some (Inl e, r)
      | Some (Inr v, r) \<Rightarrow> Some (k v, r))"

definition read_signed_bits :: "nat \<Rightarrow> BitReader \<Rightarrow> (u64 Result \<times> BitReader) option" where
  "read_signed_bits count r =
     (if count = 0 then Some (Inr 0, r)
      else try_read (read_bits count r) (\<lambda>val.
        if count \<ge> 64 then Inr val
        else
          let sign_bit = push_bit (count - 1) 1
          in if val AND sign_bit \<noteq> 0
             then let extension_mask = NOT (push_bit count 1 - 1) in Inr (val OR extension_mask)
             else Inr val))"

section \<open>Aviation encodings\<close>

text \<open>The digit loops: \<open>i\<close> counts up, \<open>n\<close> is the number of nibbles still to come.\<close>

fun read_bcd_loop :: "string \<Rightarrow> u64 \<Rightarrow> nat \<Rightarrow> nat \<Rightarrow> u64 \<Rightarrow> u64 \<Rightarrow> u64 Result" where
  "read_bcd_loop who raw i 0 result multiplier = Inr result"
| "read_bcd_loop who raw i (Suc n) result multiplier =
     (let digit = ucast (drop_bit (i * 4) raw AND 0xF) :: u8
      in if digit > 9 then
           Inl (mk_error InvalidArgument
             (who @ '': invalid BCD digit '' @ to_string (unat digit) @ '' at nibble '' @ to_string i))
         else read_bcd_loop who raw (Suc i) n (result + ucast digit * multiplier) (multiplier * 10))"

definition read_bcd :: "nat \<Rightarrow> BitReader \<Rightarrow> (u64 Result \<times> BitReader) option" where
  "read_bcd bits r =
     (if bits = 0 then Some (Inr 0, r)
      else if bits mod 4 \<noteq> 0 then
        Some (Inl (mk_error InvalidArgument ''read_bcd: bits must be a multiple of 4''), r)
      else if bits div 4 > 16 then
        Some (Inl (mk_error InvalidArgument ''read_bcd: max 64 bits (16 BCD digits) supported''), r)
      else try_read (read_bits bits r) (\<lambda>raw. read_bcd_loop ''read_bcd'' raw 0 (bits div 4) 0 1))"

definition read_bcd_signed :: "nat \<Rightarrow> BitReader \<Rightarrow> (u64 Result \<times> BitReader) option" where
  "read_bcd_signed bits r =
     (if bits < 5 then
        Some (Inl (mk_error InvalidArgument ''read_bcd_signed: bits must be >= 5''), r)
      else if (bits - 1) mod 4 \<noteq> 0 then
        Some (Inl (mk_error InvalidArgument
                ''read_bcd_signed: (bits - 1) must be a multiple of 4''), r)
      else if (bits - 1) div 4 > 15 then
        Some (Inl (mk_error InvalidArgument
                ''read_bcd_signed: max 61 bits (15 BCD digits + sign) supported''), r)
      else try_read (read_bits bits r) (\<lambda>raw.
        let negative = drop_bit (bits - 1) raw AND 1 \<noteq> 0;
            bcd_part = raw AND (push_bit (bits - 1) 1 - 1)
        in case read_bcd_loop ''read_bcd_signed'' bcd_part 0 ((bits - 1) div 4) 0 1 of
             Inl e \<Rightarrow> Inl e
           | Inr result \<Rightarrow> Inr (if negative then - result else result)))"

definition read_sign_magnitude :: "nat \<Rightarrow> BitReader \<Rightarrow> (u64 Result \<times> BitReader) option" where
  "read_sign_magnitude bits r =
     (if bits < 2 then
        Some (Inl (mk_error InvalidArgument ''read_sign_magnitude: bits must be >= 2''), r)
      else try_read (read_bits bits r) (\<lambda>raw.
        let negative = drop_bit (bits - 1) raw AND 1 \<noteq> 0;
            magnitude = raw AND (push_bit (bits - 1) 1 - 1)
        in Inr (if negative then - magnitude else magnitude)))"

section \<open>Byte-level reading\<close>

definition underrun :: "string \<Rightarrow> string \<Rightarrow> BitReader \<Rightarrow> error" where
  "underrun who need r =
     mk_error BufferUnderrun
       (who @ '': need '' @ need @ '', have '' @ to_string (remaining_bytes r) @ '' remaining'')"

definition read_u8 :: "BitReader \<Rightarrow> u8 Result \<times> BitReader" where
  "read_u8 r =
     (let r = reader_align_to_byte r
      in if br_byte_pos r \<ge> length (br_data r) then (Inl (underrun ''read_u8'' ''1 byte'' r), r)
         else (Inr (br_data r ! br_byte_pos r), r\<lparr>br_byte_pos := br_byte_pos r + 1\<rparr>))"

definition read_u16 :: "Endian \<Rightarrow> BitReader \<Rightarrow> u16 Result \<times> BitReader" where
  "read_u16 e r =
     (let r = reader_align_to_byte r
      in if br_byte_pos r + 2 > length (br_data r)
         then (Inl (underrun ''read_u16'' ''2 bytes'' r), r)
         else (Inr (io_read_u16 (br_data r) (br_byte_pos r) e), r\<lparr>br_byte_pos := br_byte_pos r + 2\<rparr>))"

definition read_u32 :: "Endian \<Rightarrow> BitReader \<Rightarrow> u32 Result \<times> BitReader" where
  "read_u32 e r =
     (let r = reader_align_to_byte r
      in if br_byte_pos r + 4 > length (br_data r)
         then (Inl (underrun ''read_u32'' ''4 bytes'' r), r)
         else (Inr (io_read_u32 (br_data r) (br_byte_pos r) e), r\<lparr>br_byte_pos := br_byte_pos r + 4\<rparr>))"

definition read_u64 :: "Endian \<Rightarrow> BitReader \<Rightarrow> u64 Result \<times> BitReader" where
  "read_u64 e r =
     (let r = reader_align_to_byte r
      in if br_byte_pos r + 8 > length (br_data r)
         then (Inl (underrun ''read_u64'' ''8 bytes'' r), r)
         else (Inr (io_read_u64 (br_data r) (br_byte_pos r) e), r\<lparr>br_byte_pos := br_byte_pos r + 8\<rparr>))"

definition read_f16 :: "Endian \<Rightarrow> BitReader \<Rightarrow> (u32 Result \<times> BitReader) option" where
  "read_f16 e r =
     (let r = reader_align_to_byte r
      in if br_byte_pos r + 2 > length (br_data r)
         then Some (Inl (underrun ''read_f16'' ''2 bytes'' r), r)
         else (case io_read_f16 (br_data r) (br_byte_pos r) e of
                 None \<Rightarrow> None
               | Some v \<Rightarrow> Some (Inr v, r\<lparr>br_byte_pos := br_byte_pos r + 2\<rparr>)))"

definition read_f32 :: "Endian \<Rightarrow> BitReader \<Rightarrow> u32 Result \<times> BitReader" where
  "read_f32 e r =
     (let r = reader_align_to_byte r
      in if br_byte_pos r + 4 > length (br_data r)
         then (Inl (underrun ''read_f32'' ''4 bytes'' r), r)
         else (Inr (io_read_f32 (br_data r) (br_byte_pos r) e), r\<lparr>br_byte_pos := br_byte_pos r + 4\<rparr>))"

definition read_f48 :: "Endian \<Rightarrow> BitReader \<Rightarrow> u64 Result \<times> BitReader" where
  "read_f48 e r =
     (let r = reader_align_to_byte r
      in if br_byte_pos r + 6 > length (br_data r)
         then (Inl (underrun ''read_f48'' ''6 bytes'' r), r)
         else (Inr (io_read_f48 (br_data r) (br_byte_pos r) e), r\<lparr>br_byte_pos := br_byte_pos r + 6\<rparr>))"

definition read_f64 :: "Endian \<Rightarrow> BitReader \<Rightarrow> u64 Result \<times> BitReader" where
  "read_f64 e r =
     (let r = reader_align_to_byte r
      in if br_byte_pos r + 8 > length (br_data r)
         then (Inl (underrun ''read_f64'' ''8 bytes'' r), r)
         else (Inr (io_read_f64 (br_data r) (br_byte_pos r) e), r\<lparr>br_byte_pos := br_byte_pos r + 8\<rparr>))"

section \<open>Bulk reading\<close>

text \<open>\<open>span::subspan(offset, count)\<close>, defined only inside the span.\<close>

definition subspan :: "'a list \<Rightarrow> nat \<Rightarrow> nat \<Rightarrow> 'a list option" where
  "subspan xs offset count =
     (if offset + count \<le> length xs then Some (take count (drop offset xs)) else None)"

definition read_bytes :: "nat \<Rightarrow> BitReader \<Rightarrow> (bytes Result \<times> BitReader) option" where
  "read_bytes count r =
     (let r = reader_align_to_byte r
      in if size_add (br_byte_pos r) count > length (br_data r)
         then Some (Inl (underrun ''read_bytes'' (to_string count @ '' bytes'') r), r)
         else (case subspan (br_data r) (br_byte_pos r) count of
                 None \<Rightarrow> None
               | Some bs \<Rightarrow> Some (Inr bs, r\<lparr>br_byte_pos := size_add (br_byte_pos r) count\<rparr>)))"

definition bytes_to_string :: "bytes \<Rightarrow> string" where
  "bytes_to_string bs = map (\<lambda>b. char_of (unat b)) bs"

definition read_string :: "nat \<Rightarrow> BitReader \<Rightarrow> (string Result \<times> BitReader) option" where
  "read_string byte_length r = try_read (read_bytes byte_length r) (\<lambda>bs. Inr (bytes_to_string bs))"

definition sub_reader :: "nat \<Rightarrow> BitReader \<Rightarrow> (BitReader Result \<times> BitReader) option" where
  "sub_reader byte_count r =
     (let r = reader_align_to_byte r
      in if size_add (br_byte_pos r) byte_count > length (br_data r)
         then Some (Inl (underrun ''sub_reader'' (to_string byte_count @ '' bytes'') r), r)
         else (case subspan (br_data r) (br_byte_pos r) byte_count of
                 None \<Rightarrow> None
               | Some bs \<Rightarrow>
                   Some (Inr (mk_reader bs), r\<lparr>br_byte_pos := size_add (br_byte_pos r) byte_count\<rparr>)))"

section \<open>Well-formed readers and the bits they have left\<close>

definition reader_ok :: "BitReader \<Rightarrow> bool" where
  "reader_ok r \<longleftrightarrow>
     addressable (br_data r) \<and> br_bit_pos r < 8 \<and> bit_position r \<le> 8 * length (br_data r)"

definition reader_bits :: "BitReader \<Rightarrow> bool list" where
  "reader_bits r = drop (bit_position r) (bytes_bits (br_data r))"

definition seek :: "nat \<Rightarrow> BitReader \<Rightarrow> BitReader" where
  "seek p r = r\<lparr>br_byte_pos := p div 8, br_bit_pos := p mod 8\<rparr>"

lemma seek_data [reader_simps]: "br_data (seek p r) = br_data r"
  by (simp add: seek_def)

lemma bit_position_seek [reader_simps]: "bit_position (seek p r) = p"
  by (simp add: seek_def bit_position_def)

lemma seek_seek [reader_simps]: "seek p (seek q r) = seek p r"
  by (simp add: seek_def)

lemma seek_bit_position: "reader_ok r \<Longrightarrow> seek (bit_position r) r = r"
  by (simp add: seek_def bit_position_def reader_ok_def)

lemma advance_seek: "advance n r = seek (bit_position r + n) r"
  by (simp add: advance_def seek_def bit_position_def Let_def) (simp add: add.assoc)

lemma reader_ok_seek [reader_simps]:
  "reader_ok r \<Longrightarrow> p \<le> 8 * length (br_data r) \<Longrightarrow> reader_ok (seek p r)"
  unfolding reader_ok_def by (auto simp: reader_simps) (simp add: seek_def)

lemma reader_ok_mk_reader: "addressable d \<Longrightarrow> reader_ok (mk_reader d)"
  by (simp add: reader_ok_def mk_reader_def bit_position_def)

lemma reader_bits_mk_reader [simp]: "reader_bits (mk_reader d) = bytes_bits d"
  by (simp add: reader_bits_def mk_reader_def bit_position_def)

lemma reader_bits_seek:
  "reader_bits (seek (bit_position r + n) r) = drop n (reader_bits r)"
  by (simp add: reader_bits_def reader_simps add.commute)

lemma remaining_bits_eq: "reader_ok r \<Longrightarrow> remaining_bits r = length (reader_bits r)"
  by (auto simp: remaining_bits_def reader_bits_def reader_ok_def bit_position_def)

lemma reader_bits_Nil_iff: "reader_ok r \<Longrightarrow> reader_bits r = [] \<longleftrightarrow> at_end r"
  by (auto simp: reader_bits_def reader_ok_def at_end_def bit_position_def)

section \<open>Correctness of \<open>read_bits\<close>\<close>

text \<open>One iteration extracts a slice of the current byte.\<close>

lemma mask_u8: "n \<le> 8 \<Longrightarrow> (if n \<ge> 8 then 0xFF else ucast (push_bit n 1 - 1 :: u32)) = (mask n :: u8)"
proof -
  assume "n \<le> 8"
  have "(push_bit n 1 - 1 :: u32) = mask n" by (simp add: mask_eq_exp_minus_1 push_bit_eq_mult)
  moreover have "ucast (mask n :: u32) = (mask n :: u8)"
    using \<open>n \<le> 8\<close> by (intro bit_word_eqI) (auto simp: bit_simps)
  moreover have "(0xFF :: u8) = mask 8" by (simp add: mask_eq_exp_minus_1)
  ultimately show ?thesis using \<open>n \<le> 8\<close> by auto
qed

lemma chunk_value:
  "ucast (ucast (drop_bit s (ucast b :: u32) AND ucast (mask n :: u8)) :: u8)
     = (of_nat (bits_val (word_bits n (drop_bit s (b :: u8)))) :: u64)"
proof -
  have "(ucast (drop_bit s (ucast b :: u32) AND ucast (mask n :: u8)) :: u8) = take_bit n (drop_bit s b)"
    by (rule bit_word_eqI) (auto simp: bit_simps dest: bit_imp_le_length)
  moreover have "(of_nat (bits_val (word_bits n (drop_bit s b))) :: u64) = ucast (take_bit n (drop_bit s b))"
    by (simp add: bits_val_word_bits flip: unsigned_take_bit_eq)
  ultimately show ?thesis by simp
qed

lemma append_bits_word:
  "push_bit (length ys) (of_nat (bits_val xs)) OR of_nat (bits_val ys)
     = (of_nat (bits_val (xs @ ys)) :: 'a::len word)"
proof -
  have "bits_val xs * 2 ^ length ys + bits_val ys = push_bit (length ys) (bits_val xs) OR bits_val ys"
  proof -
    have "push_bit (length ys) (bits_val xs) AND take_bit (length ys) (bits_val ys) = 0"
      by (rule bit_eqI) (auto simp: bit_simps)
    then have "push_bit (length ys) (bits_val xs) AND bits_val ys = 0"
      by (simp add: take_bit_nat_eq_self bits_val_less)
    then show ?thesis by (simp add: disjunctive_add_eq_or flip: push_bit_eq_mult)
  qed
  then show ?thesis by (simp add: bits_val_append of_nat_or_eq push_bit_of_nat del: of_nat_add of_nat_mult)
qed


text \<open>The loop appends the bits it consumes to those already read.\<close>

lemma read_bits_loop_correct:
  "reader_ok r \<Longrightarrow> n \<le> length (reader_bits r) \<Longrightarrow>
   read_bits_loop n (of_nat (bits_val done)) r =
     Some (of_nat (bits_val (done @ take n (reader_bits r))), seek (bit_position r + n) r)"
proof (induction n arbitrary: r "done" rule: less_induct)
  case (less n)
  show ?case
  proof (cases "n = 0")
    case True
    then show ?thesis
      using less.prems by (simp add: read_bits_loop.simps seek_bit_position)
  next
    case False
    define k where "k = min n (8 - br_bit_pos r)"
    have pos: "br_byte_pos r < length (br_data r)" "br_bit_pos r < 8"
      using less.prems False by (auto simp: reader_ok_def reader_bits_def bit_position_def)
    have k: "0 < k" "k \<le> n" "br_bit_pos r + k \<le> 8" using False pos by (auto simp: k_def)
    let ?r = "seek (bit_position r + k) r"
    have slice: "take k (reader_bits r) =
        word_bits k (drop_bit (8 - br_bit_pos r - k) (br_data r ! br_byte_pos r))"
      using bytes_bits_slice [OF pos(1) k(3)]
      by (simp add: reader_bits_def bit_position_def mult.commute)
    have len: "length (take k (reader_bits r)) = k" using k less.prems by simp
    have "read_bits_loop n (of_nat (bits_val done)) r =
        read_bits_loop (n - k) (of_nat (bits_val (done @ take k (reader_bits r)))) ?r"
      using False pos k append_bits_word [of "take k (reader_bits r)" "done", where ?'a = 64]
      unfolding read_bits_loop.simps [of n] Let_def k_def [symmetric]
      by (simp add: advance_seek len mask_u8 chunk_value slice)
    also have "\<dots> = Some (of_nat (bits_val ((done @ take k (reader_bits r)) @ take (n - k) (reader_bits ?r))),
        seek (bit_position ?r + (n - k)) ?r)"
    proof (rule less.IH)
      show "n - k < n" using k False by simp
      show "reader_ok ?r"
        using less.prems k by (intro reader_simps) (auto simp: reader_bits_def)
      show "n - k \<le> length (reader_bits ?r)"
        using less.prems(2) by (simp add: reader_bits_seek)
    qed
    finally show ?thesis
      using k by (simp add: reader_bits_seek reader_simps flip: take_add)
  qed
qed

lemma read_bits_ok:
  assumes "reader_ok r" and "n \<le> 64" and "n \<le> length (reader_bits r)"
  shows "read_bits n r =
    Some (Inr (of_nat (bits_val (take n (reader_bits r)))), seek (bit_position r + n) r)"
proof (cases "n = 0")
  case True
  then show ?thesis using assms by (simp add: read_bits_def seek_bit_position)
next
  case False
  with assms read_bits_loop_correct [of r n "[]"] show ?thesis
    by (simp add: read_bits_def remaining_bits_eq)
qed

lemma read_bits_underrun:
  assumes "reader_ok r" and "n \<le> 64" and "length (reader_bits r) < n"
  shows "\<exists>e. read_bits n r = Some (Inl e, r) \<and> err_code e = BufferUnderrun"
  using assms by (simp add: read_bits_def remaining_bits_eq)

lemma read_bits_too_wide:
  "64 < n \<Longrightarrow> \<exists>e. read_bits n r = Some (Inl e, r) \<and> err_code e = InvalidArgument"
  by (simp add: read_bits_def)

lemma read_bits_cases:
  assumes "reader_ok r"
  obtains (ok) "n \<le> 64" "n \<le> length (reader_bits r)"
      "read_bits n r = Some (Inr (of_nat (bits_val (take n (reader_bits r)))), seek (bit_position r + n) r)"
    | (error) e where "64 < n \<or> length (reader_bits r) < n" "read_bits n r = Some (Inl e, r)"
  using read_bits_ok [OF assms, of n] read_bits_underrun [OF assms, of n] read_bits_too_wide [of n r]
  by (metis not_le)

section \<open>Safety of every operation\<close>

text \<open>What every operation keeps: the buffer, well-formedness, and never moving backwards.\<close>

definition reads_on :: "BitReader \<Rightarrow> BitReader \<Rightarrow> bool" where
  "reads_on r r' \<longleftrightarrow> reader_ok r' \<and> br_data r' = br_data r \<and> bit_position r \<le> bit_position r'"

lemma reads_on_refl: "reader_ok r \<Longrightarrow> reads_on r r"
  by (simp add: reads_on_def)

lemma reads_on_trans: "reads_on r r' \<Longrightarrow> reads_on r' r'' \<Longrightarrow> reads_on r r''"
  by (auto simp: reads_on_def)

lemma reads_on_seek:
  "reader_ok r \<Longrightarrow> bit_position r \<le> p \<Longrightarrow> p \<le> 8 * length (br_data r) \<Longrightarrow> reads_on r (seek p r)"
  by (simp add: reads_on_def reader_simps)

lemma bits_left: "reader_ok r \<Longrightarrow> bit_position r + length (reader_bits r) = 8 * length (br_data r)"
  by (simp add: reader_bits_def reader_ok_def)

lemma reader_align_to_byte_ok:
  assumes "reader_ok r"
  shows "reads_on r (reader_align_to_byte r)" and "br_bit_pos (reader_align_to_byte r) = 0"
  using assms
  by (auto simp: reads_on_def reader_align_to_byte_def reader_ok_def bit_position_def) presburger

lemma reader_aligned_byte_pos:
  "reader_ok r \<Longrightarrow> br_byte_pos (reader_align_to_byte r) \<le> length (br_data r)"
  using reader_align_to_byte_ok [of r] by (auto simp: reads_on_def reader_ok_def bit_position_def)

lemma reads_on_bytes:
  assumes "reader_ok r" and "br_byte_pos (reader_align_to_byte r) + n \<le> length (br_data r)"
  shows "reads_on r ((reader_align_to_byte r)\<lparr>br_byte_pos := br_byte_pos (reader_align_to_byte r) + n\<rparr>)"
  using reader_align_to_byte_ok [OF assms(1)] assms(2)
  by (auto simp: reads_on_def reader_ok_def bit_position_def)

text \<open>
  The contract shared by the reading operations, as the generated decoders use them: on a
  well-formed reader an operation has a defined result and keeps the reader on its buffer.
\<close>

locale reader_op =
  fixes op :: "BitReader \<Rightarrow> ('a Result \<times> BitReader) option"
  assumes runs: "reader_ok r \<Longrightarrow> \<exists>res r'. op r = Some (res, r') \<and> reads_on r r'"
begin

lemma stays: "reader_ok r \<Longrightarrow> op r = Some (res, r') \<Longrightarrow> reads_on r r'"
  using runs by fastforce

lemma never_undefined: "reader_ok r \<Longrightarrow> op r \<noteq> None"
  using runs by fastforce

end

text \<open>Reading a counted array: the operation \<open>n\<close> times, stopping at the first error.\<close>

fun repeat_op ::
  "(BitReader \<Rightarrow> ('a Result \<times> BitReader) option) \<Rightarrow> nat \<Rightarrow> BitReader \<Rightarrow> ('a list Result \<times> BitReader) option"
where
  "repeat_op op 0 r = Some (Inr [], r)"
| "repeat_op op (Suc n) r =
     (case op r of
        None \<Rightarrow> None
      | Some (Inl e, r) \<Rightarrow> Some (Inl e, r)
      | Some (Inr v, r) \<Rightarrow>
          (case repeat_op op n r of
             None \<Rightarrow> None
           | Some (Inl e, r) \<Rightarrow> Some (Inl e, r)
           | Some (Inr vs, r) \<Rightarrow> Some (Inr (v # vs), r)))"

context reader_op
begin

lemma repeat_runs:
  "reader_ok r \<Longrightarrow> \<exists>res r'. repeat_op op n r = Some (res, r') \<and> reads_on r r'"
proof (induction n arbitrary: r)
  case 0
  then show ?case by (simp add: reads_on_refl)
next
  case (Suc n)
  obtain res r' where op: "op r = Some (res, r')" "reads_on r r'"
    using runs [OF Suc.prems] by blast
  show ?case
  proof (cases res)
    case (Inl e)
    with op show ?thesis by auto
  next
    case (Inr v)
    have "reader_ok r'" using op by (simp add: reads_on_def)
    from Suc.IH [OF this] obtain res' r''
      where "repeat_op op n r' = Some (res', r'')" "reads_on r' r''" by blast
    with op Inr show ?thesis
      by (cases res') (auto intro: reads_on_trans)
  qed
qed

end

lemma reader_op_repeat: "reader_op op \<Longrightarrow> reader_op (repeat_op op n)"
  by (rule reader_op.intro) (rule reader_op.repeat_runs)

text \<open>Post-processing the value of a read keeps the contract.\<close>

lemma reader_op_try_read:
  assumes "reader_op op"
  shows "reader_op (\<lambda>r. try_read (op r) k)"
proof
  fix r assume "reader_ok r"
  then obtain res r' where "op r = Some (res, r')" "reads_on r r'"
    using reader_op.runs [OF assms] by blast
  then show "\<exists>res r'. try_read (op r) k = Some (res, r') \<and> reads_on r r'"
    by (cases res) (auto simp: try_read_def)
qed

lemma reader_op_if: "reader_op f \<Longrightarrow> reader_op g \<Longrightarrow> reader_op (\<lambda>r. if b then f r else g r)"
  by (cases b) simp_all

lemma reader_op_const: "reader_op (\<lambda>r. Some (res, r))"
  by unfold_locales (simp add: reads_on_refl)

lemmas reader_op_intros = reader_op_try_read reader_op_if reader_op_const

interpretation bits: reader_op "read_bits n" for n
proof
  fix r assume ok: "reader_ok r"
  then show "\<exists>res r'. read_bits n r = Some (res, r') \<and> reads_on r r'"
  proof (cases rule: read_bits_cases [where n = n])
    case ok
    with bits_left [of r] \<open>reader_ok r\<close> show ?thesis by (auto intro!: reads_on_seek)
  next
    case (error e)
    with \<open>reader_ok r\<close> show ?thesis by (auto intro: reads_on_refl)
  qed
qed

interpretation signed_bits: reader_op "read_signed_bits n" for n
  unfolding read_signed_bits_def by (intro reader_op_intros bits.reader_op_axioms)

interpretation bcd: reader_op "read_bcd n" for n
  unfolding read_bcd_def by (intro reader_op_intros bits.reader_op_axioms)

interpretation bcd_signed: reader_op "read_bcd_signed n" for n
  unfolding read_bcd_signed_def by (intro reader_op_intros bits.reader_op_axioms)

interpretation sign_magnitude: reader_op "read_sign_magnitude n" for n
  unfolding read_sign_magnitude_def by (intro reader_op_intros bits.reader_op_axioms)


lemmas byte_read_defs = read_u8_def read_u16_def read_u32_def read_u64_def
  read_f16_def read_f32_def read_f48_def read_f64_def

lemma aligned_data [simp]: "br_data (reader_align_to_byte r) = br_data r"
  by (simp add: reader_align_to_byte_def)

interpretation u8: reader_op "\<lambda>r. Some (read_u8 r)"
  by unfold_locales
    (use reader_align_to_byte_ok(1) reads_on_bytes [of _ 1] in \<open>auto simp: byte_read_defs Let_def\<close>)

interpretation u16: reader_op "\<lambda>r. Some (read_u16 e r)" for e
  by unfold_locales
    (use reader_align_to_byte_ok(1) reads_on_bytes [of _ 2] in \<open>auto simp: byte_read_defs Let_def\<close>)

interpretation u32: reader_op "\<lambda>r. Some (read_u32 e r)" for e
  by unfold_locales
    (use reader_align_to_byte_ok(1) reads_on_bytes [of _ 4] in \<open>auto simp: byte_read_defs Let_def\<close>)

interpretation u64: reader_op "\<lambda>r. Some (read_u64 e r)" for e
  by unfold_locales
    (use reader_align_to_byte_ok(1) reads_on_bytes [of _ 8] in \<open>auto simp: byte_read_defs Let_def\<close>)

interpretation f16: reader_op "read_f16 e" for e
proof
  fix r assume "reader_ok r"
  moreover obtain v where "io_read_f16 (br_data r) (br_byte_pos (reader_align_to_byte r)) e = Some v"
    using f16_to_f32_returns by (auto simp: io_read_f16_def)
  ultimately show "\<exists>res r'. read_f16 e r = Some (res, r') \<and> reads_on r r'"
    using reader_align_to_byte_ok(1) [of r] reads_on_bytes [of r 2]
    by (auto simp: byte_read_defs Let_def)
qed

interpretation f32: reader_op "\<lambda>r. Some (read_f32 e r)" for e
  by unfold_locales
    (use reader_align_to_byte_ok(1) reads_on_bytes [of _ 4] in \<open>auto simp: byte_read_defs Let_def\<close>)

interpretation f48: reader_op "\<lambda>r. Some (read_f48 e r)" for e
  by unfold_locales
    (use reader_align_to_byte_ok(1) reads_on_bytes [of _ 6] in \<open>auto simp: byte_read_defs Let_def\<close>)

interpretation f64: reader_op "\<lambda>r. Some (read_f64 e r)" for e
  by unfold_locales
    (use reader_align_to_byte_ok(1) reads_on_bytes [of _ 8] in \<open>auto simp: byte_read_defs Let_def\<close>)

text \<open>
  Counts: the bounds check of the bulk reads adds the count to the position in \<open>size_t\<close>, so it
  is reliable for counts that do not wrap the sum.  A count from a 32-bit length field never does.
\<close>

lemma aligned_sum_small:
  assumes "reader_ok r" and "n < 2 ^ 63"
  shows "size_add (br_byte_pos (reader_align_to_byte r)) n = br_byte_pos (reader_align_to_byte r) + n"
  using assms reader_aligned_byte_pos [OF assms(1)]
  by (intro size_add_small) (auto simp: size_mod_def reader_ok_def addressable_def)

lemma read_bytes_runs:
  assumes "reader_ok r" and "n < 2 ^ 63"
  shows "\<exists>res r'. read_bytes n r = Some (res, r') \<and> reads_on r r'"
  using assms reader_align_to_byte_ok(1) [OF assms(1)] reads_on_bytes [OF assms(1), of n]
  by (auto simp: read_bytes_def Let_def aligned_sum_small subspan_def)

lemma sub_reader_runs:
  assumes "reader_ok r" and "n < 2 ^ 63"
  shows "\<exists>res r'. sub_reader n r = Some (res, r') \<and> reads_on r r'"
  using assms reader_align_to_byte_ok(1) [OF assms(1)] reads_on_bytes [OF assms(1), of n]
  by (auto simp: sub_reader_def Let_def aligned_sum_small subspan_def)

lemma unat_u32_less: "unat (n :: u32) < 2 ^ 63"
  using unsigned_less [of n, where ?'a = nat] by simp

interpretation bulk: reader_op "read_bytes (unat (n :: u32))" for n
  by unfold_locales (rule read_bytes_runs [OF _ unat_u32_less])

interpretation strings: reader_op "read_string (unat (n :: u32))" for n
  unfolding read_string_def by (intro reader_op_intros bulk.reader_op_axioms)

interpretation sub: reader_op "sub_reader (unat (n :: u32))" for n
  by unfold_locales (rule sub_reader_runs [OF _ unat_u32_less])

interpretation skip: reader_op "\<lambda>r. Some (skip_bits n r)" for n
proof
  fix r assume "reader_ok r"
  with bits_left [of r] show "\<exists>res r'. Some (skip_bits n r) = Some (res, r') \<and> reads_on r r'"
    by (auto simp: skip_bits_def advance_seek remaining_bits_eq intro!: reads_on_seek reads_on_refl)
qed

lemma reader_align_to_ok:
  assumes "reader_ok r"
  shows "reads_on r (reader_align_to b r)"
proof -
  have r': "reader_ok (reader_align_to_byte r)" "bit_position r \<le> bit_position (reader_align_to_byte r)"
      "br_bit_pos (reader_align_to_byte r) = 0"
    using reader_align_to_byte_ok [OF assms] by (auto simp: reads_on_def)
  moreover have "br_byte_pos r * 8 + br_bit_pos r \<le> (p + b - p mod b) * 8"
    if "br_byte_pos r * 8 + br_bit_pos r \<le> p * 8" and "b > Suc 0" for p
  proof -
    have "p mod b < b" using that by simp
    then have "p \<le> p + b - p mod b" by linarith
    then show ?thesis using that(1) by linarith
  qed
  ultimately show ?thesis
    using assms by (auto simp: reader_align_to_def Let_def reads_on_def reader_ok_def bit_position_def)
qed

section \<open>Properties\<close>

text \<open>
  C19: \<open>read_bits\<close> on every branch.  Given up to 64 bits and enough input it returns the next bits
  as a number, most significant first, and moves behind them, across any byte boundaries; otherwise it
  reports the right error and leaves the reader where it was.
\<close>

theorem read_bits_correct:
  assumes "reader_ok r"
  shows "if n > 64 then \<exists>e. read_bits n r = Some (Inl e, r) \<and> err_code e = InvalidArgument
    else if n > length (reader_bits r) then \<exists>e. read_bits n r = Some (Inl e, r) \<and> err_code e = BufferUnderrun
    else read_bits n r =
      Some (Inr (of_nat (bits_val (take n (reader_bits r)))), seek (bit_position r + n) r)"
  using read_bits_ok [OF assms, of n] read_bits_underrun [OF assms, of n] read_bits_too_wide [of n r]
  by auto

theorem read_bits_correct_witness:
  "read_bits 12 (mk_reader [0xAB, 0xCD]) = Some (Inr 0xABC, seek 12 (mk_reader [0xAB, 0xCD]))"
proof -
  have ok: "reader_ok (mk_reader [0xAB, 0xCD])"
    by (intro reader_ok_mk_reader) (simp add: addressable_def)
  moreover have "take 12 (reader_bits (mk_reader [0xAB, 0xCD])) = word_bits 12 (0xABC :: u64)"
    "length (reader_bits (mk_reader [0xAB, 0xCD])) = 16" "bit_position (mk_reader [0xAB, 0xCD]) = 0"
    by code_simp+
  ultimately show ?thesis
    using read_bits_correct [OF ok, of 12] by (simp add: of_nat_bits_val_word_bits)
qed



end
