(* ===== verification/Bit_Writer.thy ===== *)
theory Bit_Writer
  imports Conduit_Error Endian_Codec Float_Codec
begin

text \<open>
  The bit-level encoder \<open>conduit::io::BitWriter\<close>:
  \<open>include/conduit/io/bit_writer.hpp\<close> and \<open>src/io/bit_writer.cpp\<close>.

  A writer is the record \<open>BitWriter\<close>: the byte vector, the bit position and the sticky error.
  Operations return the writer after the call.  An operation that indexes the vector or shifts by a
  caller's amount returns an \<open>option\<close>, where \<open>None\<close> is an execution the C++ language does not
  define (an index outside the vector, a shift by 64 or more).  The capacity of the vector has no
  observable effect and is left out; a bit position is a natural below \<open>2 ^ 64\<close>.

  The second half shows that a writer is a growing bit string: every operation appends the bits it
  names and nothing else, whichever of the aligned and unaligned paths it takes.
\<close>

unbundle bit_operations_syntax

section \<open>The writer\<close>

record BitWriter =
  bw_data :: bytes
  bw_bit_pos :: nat
  bw_error :: "error option"

definition mk_writer :: BitWriter where
  "mk_writer = \<lparr>bw_data = [], bw_bit_pos = 0, bw_error = None\<rparr>"

definition size_bytes :: "BitWriter \<Rightarrow> nat" where
  "size_bytes w = (bw_bit_pos w + 7) div 8"

definition size_bits :: "BitWriter \<Rightarrow> nat" where
  "size_bits w = bw_bit_pos w"

definition writer_is_byte_aligned :: "BitWriter \<Rightarrow> bool" where
  "writer_is_byte_aligned w \<longleftrightarrow> bw_bit_pos w mod 8 = 0"

definition writer_has_error :: "BitWriter \<Rightarrow> bool" where
  "writer_has_error w \<longleftrightarrow> bw_error w \<noteq> None"

definition writer_clear_error :: "BitWriter \<Rightarrow> BitWriter" where
  "writer_clear_error w = w\<lparr>bw_error := None\<rparr>"

definition current_byte_index :: "BitWriter \<Rightarrow> nat" where
  "current_byte_index w = bw_bit_pos w div 8"

definition set_error :: "ErrorCode \<Rightarrow> string \<Rightarrow> BitWriter \<Rightarrow> BitWriter" where
  "set_error code msg w =
     (case bw_error w of None \<Rightarrow> w\<lparr>bw_error := Some (mk_error code msg)\<rparr> | Some _ \<Rightarrow> w)"

text \<open>Only the overflow guard of \<open>ensure_capacity\<close> has an effect on the writer's contents.\<close>

definition ensure_capacity :: "nat \<Rightarrow> BitWriter \<Rightarrow> BitWriter" where
  "ensure_capacity additional_bits w =
     (if additional_bits > size_sub (size_sub (size_mod - 1) (bw_bit_pos w)) 7
      then set_error InvalidArgument ''ensure_capacity: bit count overflow'' w
      else w)"

text \<open>\<open>data_.push_back(b)\<close> and \<open>data_[i] |= b\<close>.\<close>

definition push_back :: "u8 \<Rightarrow> BitWriter \<Rightarrow> BitWriter" where
  "push_back b w = w\<lparr>bw_data := bw_data w @ [b]\<rparr>"

definition or_current_byte :: "u8 \<Rightarrow> BitWriter \<Rightarrow> BitWriter option" where
  "or_current_byte b w =
     (let i = current_byte_index w
      in if i < length (bw_data w) then Some (w\<lparr>bw_data := (bw_data w)[i := bw_data w ! i OR b]\<rparr>)
         else None)"

definition add_bits :: "nat \<Rightarrow> BitWriter \<Rightarrow> BitWriter" where
  "add_bits n w = w\<lparr>bw_bit_pos := bw_bit_pos w + n\<rparr>"

section \<open>Bit-level writing\<close>

definition write_bit :: "bool \<Rightarrow> BitWriter \<Rightarrow> BitWriter option" where
  "write_bit b w =
     (let w = ensure_capacity 1 w;
          w = (if bw_bit_pos w mod 8 = 0 then push_back 0 w else w)
      in map_option (add_bits 1)
           (if b then or_current_byte (ucast (push_bit (7 - bw_bit_pos w mod 8) 1 :: u32)) w
            else Some w))"

text \<open>The two inner loops: whole bytes from the most significant end, then single bits.\<close>

fun write_whole_bytes :: "u64 \<Rightarrow> nat \<Rightarrow> nat \<Rightarrow> BitWriter \<Rightarrow> BitWriter" where
  "write_whole_bytes value rest 0 w = w"
| "write_whole_bytes value rest (Suc k) w =
     write_whole_bytes value rest k
       (add_bits 8 (push_back (ucast (drop_bit (k * 8 + rest) value)) w))"

fun write_single_bits :: "u64 \<Rightarrow> nat \<Rightarrow> BitWriter \<Rightarrow> BitWriter option" where
  "write_single_bits value 0 w = Some w"
| "write_single_bits value (Suc i) w =
     Option.bind (write_bit (drop_bit i value AND 1 \<noteq> 0) w) (write_single_bits value i)"

definition write_bits :: "u64 \<Rightarrow> nat \<Rightarrow> BitWriter \<Rightarrow> BitWriter option" where
  "write_bits value count w =
     (if bw_error w \<noteq> None then Some w
      else if count > 64 then
        Some (set_error EncodingFailed
                (''write_bits: requested '' @ to_string count @ '' bits, max is 64'') w)
      else if count = 0 then Some w
      else
        let w = ensure_capacity count w
        in if bw_bit_pos w mod 8 = 0 then
             write_single_bits value (count mod 8) (write_whole_bytes value (count mod 8) (count div 8) w)
           else
             let bits_to_align = 8 - bw_bit_pos w mod 8
             in if count \<le> bits_to_align then
                  map_option (add_bits count)
                    (or_current_byte
                      (ucast (push_bit (bits_to_align - count) (value AND (push_bit count 1 - 1)))) w)
                else
                  let top = ucast (drop_bit (count - bits_to_align) value AND (push_bit bits_to_align 1 - 1))
                  in case or_current_byte top w of
                       None \<Rightarrow> None
                     | Some w \<Rightarrow>
                         let w = add_bits bits_to_align w;
                             count = count - bits_to_align;
                             remaining = count mod 8;
                             w = write_whole_bytes value remaining (count div 8) w
                         in if remaining > 0 then
                              map_option (add_bits remaining)
                                (or_current_byte
                                  (ucast (push_bit (8 - remaining) (value AND (push_bit remaining 1 - 1))))
                                  (push_back 0 w))
                            else Some w)"

text \<open>An \<open>int64_t\<close> argument is its 64-bit pattern.\<close>

definition write_signed_bits :: "u64 \<Rightarrow> nat \<Rightarrow> BitWriter \<Rightarrow> BitWriter option" where
  "write_signed_bits value count w =
     (if bw_error w \<noteq> None then Some w else write_bits value count w)"

section \<open>Aviation encodings\<close>

text \<open>The digit loop: the raw nibbles and what is left of the value after \<open>n\<close> digits.\<close>

fun bcd_digits :: "nat \<Rightarrow> nat \<Rightarrow> u64 \<Rightarrow> u64 \<Rightarrow> u64 \<times> u64" where
  "bcd_digits i 0 raw v = (raw, v)"
| "bcd_digits i (Suc n) raw v =
     (let digit = ucast (v mod 10) :: u8
      in bcd_digits (Suc i) n (raw OR push_bit (i * 4) (ucast digit)) (v div 10))"

definition write_bcd :: "u64 \<Rightarrow> nat \<Rightarrow> BitWriter \<Rightarrow> BitWriter option" where
  "write_bcd value bits w =
     (if bw_error w \<noteq> None then Some w
      else if bits mod 4 \<noteq> 0 then
        Some (set_error EncodingFailed ''write_bcd: bits not multiple of 4'' w)
      else if bits = 0 then Some w
      else if bits div 4 > 16 then
        Some (set_error EncodingFailed ''write_bcd: max 64 bits (16 BCD digits) supported'' w)
      else
        let nibbles = bits div 4;
            (raw, v) = bcd_digits 0 nibbles 0 value
        in if v \<noteq> 0 then
             Some (set_error EncodeConstraintViolation
               (''write_bcd: value '' @ to_string (unat value) @ '' too large for '' @ to_string bits
                @ '' bits ('' @ to_string nibbles @ '' digits)'') w)
           else write_bits raw bits w)"

definition write_bcd_signed :: "u64 \<Rightarrow> nat \<Rightarrow> BitWriter \<Rightarrow> BitWriter option" where
  "write_bcd_signed value bits w =
     (if bw_error w \<noteq> None then Some w
      else if bits < 5 then Some (set_error EncodingFailed ''write_bcd_signed: bits < 5'' w)
      else if (bits - 1) mod 4 \<noteq> 0 then
        Some (set_error EncodingFailed ''write_bcd_signed: (bits-1) not multiple of 4'' w)
      else if (bits - 1) div 4 > 15 then
        Some (set_error EncodingFailed
                ''write_bcd_signed: max 61 bits (15 BCD digits + sign) supported'' w)
      else
        let negative = sint value < 0;
            abs_val = (if negative then NOT value + 1 else value);
            nibbles = (bits - 1) div 4;
            (raw, abs_val) = bcd_digits 0 nibbles 0 abs_val
        in if abs_val \<noteq> 0 then
             Some (set_error EncodeConstraintViolation
               (''write_bcd_signed: value '' @ to_string_int (sint value) @ '' too large for ''
                @ to_string bits @ '' bits ('' @ to_string nibbles @ '' digits)'') w)
           else write_bits (if negative then raw OR push_bit (bits - 1) 1 else raw) bits w)"

definition write_sign_magnitude :: "u64 \<Rightarrow> nat \<Rightarrow> BitWriter \<Rightarrow> BitWriter option" where
  "write_sign_magnitude value bits w =
     (if bw_error w \<noteq> None then Some w
      else if bits < 2 then Some (set_error EncodingFailed ''write_sign_magnitude: bits < 2'' w)
      else if bits - 1 \<ge> 64 then None
      else
        let negative = sint value < 0;
            magnitude = (if negative then NOT value + 1 else value);
            mag_mask = push_bit (bits - 1) 1 - 1
        in if magnitude > mag_mask then
             Some (set_error EncodeConstraintViolation
               (''write_sign_magnitude: magnitude '' @ to_string (unat magnitude) @ '' too large for ''
                @ to_string bits @ '' bits (max '' @ to_string (unat mag_mask) @ '')'') w)
           else
             let raw = magnitude AND mag_mask
             in write_bits (if negative then raw OR push_bit (bits - 1) 1 else raw) bits w)"

section \<open>Byte-level writing\<close>

definition writer_align_to_byte :: "BitWriter \<Rightarrow> BitWriter" where
  "writer_align_to_byte w =
     (let remainder = bw_bit_pos w mod 8
      in if remainder = 0 then w else add_bits (8 - remainder) w)"

definition write_u8 :: "u8 \<Rightarrow> BitWriter \<Rightarrow> BitWriter" where
  "write_u8 value w =
     (if bw_error w \<noteq> None then w else add_bits 8 (push_back value (writer_align_to_byte w)))"

text \<open>Successive \<open>push_back\<close> calls.\<close>

definition push_all :: "bytes \<Rightarrow> BitWriter \<Rightarrow> BitWriter" where
  "push_all bs w = fold push_back bs w"

definition write_u16 :: "u16 \<Rightarrow> Endian \<Rightarrow> BitWriter \<Rightarrow> BitWriter" where
  "write_u16 value e w =
     (if bw_error w \<noteq> None then w
      else add_bits 16 (push_all
        (case e of
           Big \<Rightarrow> [ucast (drop_bit 8 value), ucast value]
         | Little \<Rightarrow> [ucast value, ucast (drop_bit 8 value)]) (writer_align_to_byte w)))"

definition write_u32 :: "u32 \<Rightarrow> Endian \<Rightarrow> BitWriter \<Rightarrow> BitWriter" where
  "write_u32 value e w =
     (if bw_error w \<noteq> None then w
      else add_bits 32 (push_all
        (case e of
           Big \<Rightarrow> [ucast (drop_bit 24 value), ucast (drop_bit 16 value),
                   ucast (drop_bit 8 value), ucast value]
         | Little \<Rightarrow> [ucast value, ucast (drop_bit 8 value),
                      ucast (drop_bit 16 value), ucast (drop_bit 24 value)])
        (writer_align_to_byte w)))"

definition write_u64 :: "u64 \<Rightarrow> Endian \<Rightarrow> BitWriter \<Rightarrow> BitWriter" where
  "write_u64 value e w =
     (if bw_error w \<noteq> None then w
      else add_bits 64 (push_all
        (case e of
           Big \<Rightarrow> [ucast (drop_bit 56 value), ucast (drop_bit 48 value),
                   ucast (drop_bit 40 value), ucast (drop_bit 32 value),
                   ucast (drop_bit 24 value), ucast (drop_bit 16 value),
                   ucast (drop_bit 8 value), ucast value]
         | Little \<Rightarrow> [ucast value, ucast (drop_bit 8 value),
                      ucast (drop_bit 16 value), ucast (drop_bit 24 value),
                      ucast (drop_bit 32 value), ucast (drop_bit 40 value),
                      ucast (drop_bit 48 value), ucast (drop_bit 56 value)])
        (writer_align_to_byte w)))"

definition write_f16 :: "u32 \<Rightarrow> Endian \<Rightarrow> BitWriter \<Rightarrow> BitWriter" where
  "write_f16 value e w = (if bw_error w \<noteq> None then w else write_u16 (f32_to_f16 value) e w)"

definition write_f32 :: "u32 \<Rightarrow> Endian \<Rightarrow> BitWriter \<Rightarrow> BitWriter" where
  "write_f32 value e w = (if bw_error w \<noteq> None then w else write_u32 value e w)"

text \<open>\<open>io::write_f48\<close> works on the last six bytes of the enlarged vector.\<close>

definition write_f48 :: "u64 \<Rightarrow> Endian \<Rightarrow> BitWriter \<Rightarrow> BitWriter" where
  "write_f48 value e w =
     (if bw_error w \<noteq> None then w
      else
        let w = writer_align_to_byte w;
            data = bw_data w @ replicate 6 0;
            tail = length data - 6
        in add_bits 48 (w\<lparr>bw_data := take tail data @ io_write_f48 (drop tail data) 0 value e\<rparr>))"

definition write_f64 :: "u64 \<Rightarrow> Endian \<Rightarrow> BitWriter \<Rightarrow> BitWriter" where
  "write_f64 value e w = (if bw_error w \<noteq> None then w else write_u64 value e w)"

section \<open>Bulk writing, alignment and patching\<close>

definition write_bytes :: "bytes \<Rightarrow> BitWriter \<Rightarrow> BitWriter" where
  "write_bytes data w =
     (if bw_error w \<noteq> None then w
      else
        let w = writer_align_to_byte w
        in add_bits (length data * 8) (w\<lparr>bw_data := bw_data w @ data\<rparr>))"

definition string_to_bytes :: "string \<Rightarrow> bytes" where
  "string_to_bytes s = map (\<lambda>c. of_nat (of_char c)) s"

definition write_string :: "string \<Rightarrow> nat \<Rightarrow> char \<Rightarrow> BitWriter \<Rightarrow> bool \<times> BitWriter" where
  "write_string str padded_length padding w =
     (if bw_error w \<noteq> None then (False, w)
      else
        let w = writer_align_to_byte w;
            truncated = length str > padded_length;
            copy_len = min (length str) padded_length;
            data = bw_data w @ take copy_len (string_to_bytes str)
                     @ replicate (padded_length - copy_len) (of_nat (of_char padding))
        in (\<not> truncated, add_bits (padded_length * 8) (w\<lparr>bw_data := data\<rparr>)))"

definition writer_align_to :: "nat \<Rightarrow> BitWriter \<Rightarrow> BitWriter" where
  "writer_align_to byte_boundary w =
     (if byte_boundary = 0 then w
      else
        let w = writer_align_to_byte w;
            remainder = size_bytes w mod byte_boundary
        in if remainder \<noteq> 0 then (write_u8 0 ^^ (byte_boundary - remainder)) w else w)"

text \<open>The multi-byte patches check \<open>byte_offset + n > data_.size()\<close> in \<open>size_t\<close>.\<close>

definition patch_out_of_range :: "string \<Rightarrow> nat \<Rightarrow> string \<Rightarrow> BitWriter \<Rightarrow> BitWriter" where
  "patch_out_of_range who byte_offset rest w =
     set_error BufferOverrun (who @ '': byte_offset '' @ to_string byte_offset @ '' out of range '' @ rest) w"

definition patch_u8 :: "nat \<Rightarrow> u8 \<Rightarrow> BitWriter \<Rightarrow> bool \<times> BitWriter" where
  "patch_u8 byte_offset value w =
     (if bw_error w \<noteq> None then (False, w)
      else if byte_offset \<ge> length (bw_data w) then
        (False, patch_out_of_range ''patch_u8'' byte_offset
                  (''[0, '' @ to_string (length (bw_data w)) @ '')'') w)
      else (True, w\<lparr>bw_data := (bw_data w)[byte_offset := value]\<rparr>))"

text \<open>Storing consecutive bytes from an offset, undefined outside the vector.\<close>

definition store_at :: "nat \<Rightarrow> bytes \<Rightarrow> BitWriter \<Rightarrow> BitWriter option" where
  "store_at i bs w =
     (if i + length bs \<le> length (bw_data w) then Some (w\<lparr>bw_data := overwrite i bs (bw_data w)\<rparr>)
      else None)"

definition patch_u16 :: "nat \<Rightarrow> u16 \<Rightarrow> Endian \<Rightarrow> BitWriter \<Rightarrow> (bool \<times> BitWriter) option" where
  "patch_u16 byte_offset value e w =
     (if bw_error w \<noteq> None then Some (False, w)
      else if size_add byte_offset 2 > length (bw_data w) then
        Some (False, patch_out_of_range ''patch_u16'' byte_offset
                       (''(need 2 bytes, buffer size '' @ to_string (length (bw_data w)) @ '')'') w)
      else map_option (Pair True)
        (store_at byte_offset
          (case e of
             Big \<Rightarrow> [ucast (drop_bit 8 value), ucast value]
           | Little \<Rightarrow> [ucast value, ucast (drop_bit 8 value)]) w))"

definition patch_u32 :: "nat \<Rightarrow> u32 \<Rightarrow> Endian \<Rightarrow> BitWriter \<Rightarrow> (bool \<times> BitWriter) option" where
  "patch_u32 byte_offset value e w =
     (if bw_error w \<noteq> None then Some (False, w)
      else if size_add byte_offset 4 > length (bw_data w) then
        Some (False, patch_out_of_range ''patch_u32'' byte_offset
                       (''(need 4 bytes, buffer size '' @ to_string (length (bw_data w)) @ '')'') w)
      else map_option (Pair True)
        (store_at byte_offset
          (case e of
             Big \<Rightarrow> [ucast (drop_bit 24 value), ucast (drop_bit 16 value),
                     ucast (drop_bit 8 value), ucast value]
           | Little \<Rightarrow> [ucast value, ucast (drop_bit 8 value),
                        ucast (drop_bit 16 value), ucast (drop_bit 24 value)]) w))"

section \<open>Output\<close>

definition finish :: "BitWriter \<Rightarrow> bytes Result \<times> BitWriter" where
  "finish w =
     (case bw_error w of
        Some e \<Rightarrow> (Inl e, \<lparr>bw_data = [], bw_bit_pos = 0, bw_error = None\<rparr>)
      | None \<Rightarrow> (Inr (bw_data (writer_align_to_byte w)), w\<lparr>bw_data := [], bw_bit_pos := 0\<rparr>))"

definition writer_clear :: "BitWriter \<Rightarrow> BitWriter" where
  "writer_clear w = \<lparr>bw_data = [], bw_bit_pos = 0, bw_error = None\<rparr>"

section \<open>A writer as a bit string\<close>

text \<open>
  \<open>stored bs w\<close>: the vector holds the bits \<open>bs\<close> from its start, the position is behind them, and
  whatever else the vector has is zero.  A writer between two calls has, in addition, no more bytes
  than its bits need.
\<close>

definition stored :: "bool list \<Rightarrow> BitWriter \<Rightarrow> bool" where
  "stored bs w \<longleftrightarrow>
     bw_bit_pos w = length bs \<and> length bs \<le> 8 * length (bw_data w) \<and>
     (\<forall>j < 8 * length (bw_data w). bytes_bits (bw_data w) ! j = (j < length bs \<and> bs ! j))"

definition writer_bits :: "BitWriter \<Rightarrow> bool list" where
  "writer_bits w = take (bw_bit_pos w) (bytes_bits (bw_data w))"

definition writer_ok :: "BitWriter \<Rightarrow> bool" where
  "writer_ok w \<longleftrightarrow> stored (writer_bits w) w \<and> length (bw_data w) = size_bytes w"

text \<open>The position can still grow by \<open>n\<close> bits without leaving \<open>size_t\<close>.\<close>

definition fits :: "nat \<Rightarrow> BitWriter \<Rightarrow> bool" where
  "fits n w \<longleftrightarrow> bw_bit_pos w + n + 7 < size_mod"

lemma ensure_capacity_fits: "fits n w \<Longrightarrow> ensure_capacity n w = w"
  by (simp add: fits_def ensure_capacity_def size_sub_le)

lemma writer_bits_stored: "stored bs w \<Longrightarrow> writer_bits w = bs"
  unfolding writer_bits_def stored_def by (rule nth_equalityI) auto

lemma stored_unique: "stored bs w \<Longrightarrow> stored cs w \<Longrightarrow> bs = cs"
  by (metis writer_bits_stored)

lemma stored_length: "stored bs w \<Longrightarrow> bw_bit_pos w = length bs"
  by (simp add: stored_def)

lemma writer_okI: "stored bs w \<Longrightarrow> length (bw_data w) = (length bs + 7) div 8 \<Longrightarrow> writer_ok w"
  by (simp add: writer_ok_def writer_bits_stored size_bytes_def stored_length)

lemma writer_ok_stored: "writer_ok w \<Longrightarrow> stored (writer_bits w) w"
  by (simp add: writer_ok_def)

lemma writer_ok_length:
  "writer_ok w \<Longrightarrow> length (bw_data w) = (bw_bit_pos w + 7) div 8"
  by (simp add: writer_ok_def size_bytes_def)

lemma length_writer_bits: "writer_ok w \<Longrightarrow> length (writer_bits w) = bw_bit_pos w"
  using stored_length [OF writer_ok_stored] by simp

lemma stored_update [writer_simps]: "stored bs (w\<lparr>bw_error := e\<rparr>) = stored bs w"
  by (simp add: stored_def)

lemma writer_sel [writer_simps, simp]:
  "bw_data (push_back b w) = bw_data w @ [b]" "bw_bit_pos (push_back b w) = bw_bit_pos w"
  "bw_error (push_back b w) = bw_error w"
  "bw_data (add_bits n w) = bw_data w" "bw_bit_pos (add_bits n w) = bw_bit_pos w + n"
  "bw_error (add_bits n w) = bw_error w"
  by (simp_all add: push_back_def add_bits_def)

lemma add_bits_add_bits [simp]: "add_bits m (add_bits n w) = add_bits (n + m) w"
  by (simp add: add_bits_def add.assoc)

lemma stored_push_zero: "stored bs w \<Longrightarrow> stored bs (push_back 0 w)"
  by (auto simp: stored_def nth_append nth_word_bits)

lemma stored_push_bytes:
  assumes "stored bs w" and "length bs = 8 * length (bw_data w)"
  shows "stored (bs @ bytes_bits cs) (add_bits (8 * length cs) (w\<lparr>bw_data := bw_data w @ cs\<rparr>))"
proof -
  have "bytes_bits (bw_data w) = bs"
    using assms by (intro nth_equalityI) (auto simp: stored_def)
  with assms show ?thesis by (auto simp: stored_def)
qed

lemma stored_align: "stored bs w \<Longrightarrow> length bs + n \<le> 8 * length (bw_data w) \<Longrightarrow>
  stored (bs @ replicate n False) (add_bits n w)"
  by (auto simp: stored_def nth_append)

text \<open>Combining the low \<open>n\<close> bits of \<open>c\<close> into the current byte, right after the bits stored.\<close>

lemma or_current_byte_stored:
  assumes st: "stored bs w" and room: "length bs mod 8 + n \<le> 8"
    and len: "length bs div 8 < length (bw_data w)"
    and s: "s = 8 - length bs mod 8 - n" and c: "8 \<le> LENGTH('a)"
  shows "\<exists>w'. or_current_byte (ucast (push_bit s ((c :: 'a::len word) AND mask n))) w = Some w'
    \<and> stored (bs @ word_bits n c) (add_bits n w')
    \<and> length (bw_data w') = length (bw_data w) \<and> bw_error w' = bw_error w"
proof -
  define i p where "i = length bs div 8" and "p = length bs"
  define m where "m = (ucast (push_bit s (c AND mask n)) :: u8)"
  let ?d = "(bw_data w)[i := bw_data w ! i OR m]"
  have m: "bit m k \<longleftrightarrow> k < 8 \<and> s \<le> k \<and> k - s < n \<and> bit c (k - s)" for k
    using c by (auto simp: m_def bit_simps)
  have sn: "s + n + p mod 8 = 8" using s room by (simp add: p_def)
  have old: "bit (bw_data w ! (j div 8)) (7 - j mod 8) = (j < p \<and> bs ! j)"
    if "j < 8 * length (bw_data w)" for j
    using st that by (auto simp: stored_def nth_bytes_bits p_def)
  have "bit (?d ! (j div 8)) (7 - j mod 8) = (j < p + n \<and> (bs @ word_bits n c) ! j)"
    if j: "j < 8 * length (bw_data w)" for j
  proof (cases "j div 8 = i")
    case False
    have "p = 8 * i + p mod 8" "j = 8 * (j div 8) + j mod 8" "j mod 8 < 8" by (simp_all add: i_def p_def)
    then have "j < p \<or> p + n \<le> j" using sn False by linarith
    with False old [OF j] show ?thesis by (auto simp: nth_append p_def)
  next
    case True
    have pj: "p = 8 * i + p mod 8" "j = 8 * i + j mod 8"
      by (simp add: i_def p_def) (simp flip: True)
    have split: "bit (?d ! (j div 8)) (7 - j mod 8) = ((j < p \<and> bs ! j) \<or> bit m (7 - j mod 8))"
      using True old [OF j] len by (simp add: bit_or_iff i_def)
    show ?thesis
    proof (cases "j < p")
      case True
      then have "\<not> 7 - j mod 8 - s < n" using pj sn by linarith
      then have "\<not> bit m (7 - j mod 8)" by (simp add: m)
      with True split show ?thesis by (simp add: nth_append p_def)
    next
      case False
      then have "7 - j mod 8 - s = n - 1 - (j - p)" if "j < p + n" using that pj sn by linarith
      moreover have "s \<le> 7 - j mod 8 \<and> 7 - j mod 8 - s < n \<longleftrightarrow> j < p + n"
        using False pj sn by linarith
      ultimately show ?thesis using False split by (auto simp: m nth_append nth_word_bits p_def)
    qed
  qed
  moreover have "p + n \<le> 8 * length (bw_data w)" 
  proof -
    have "p = 8 * i + p mod 8" by (simp add: i_def p_def)
    moreover have "i < length (bw_data w)" using len by (simp add: i_def)
    ultimately show ?thesis using sn by linarith
  qed
  ultimately show ?thesis
    using st len unfolding m_def [symmetric]
    by (simp add: or_current_byte_def current_byte_index_def stored_def nth_bytes_bits i_def p_def Let_def)
qed

section \<open>Every operation appends\<close>

definition appends :: "bool list \<Rightarrow> BitWriter \<Rightarrow> BitWriter \<Rightarrow> bool" where
  "appends bs w w' \<longleftrightarrow>
     writer_ok w' \<and> writer_bits w' = writer_bits w @ bs \<and> bw_error w' = bw_error w"

lemma appends_refl: "writer_ok w \<Longrightarrow> appends [] w w"
  by (simp add: appends_def)

lemma appends_trans: "appends xs w w' \<Longrightarrow> appends ys w' w'' \<Longrightarrow> appends (xs @ ys) w w''"
  by (simp add: appends_def)

lemma appendsI:
  "stored (writer_bits w @ bs) w' \<Longrightarrow> length (bw_data w') = (bw_bit_pos w' + 7) div 8 \<Longrightarrow>
   bw_error w' = bw_error w \<Longrightarrow> appends bs w w'"
  by (metis appends_def stored_length writer_bits_stored writer_okI)

lemma appends_ok: "appends bs w w' \<Longrightarrow> writer_ok w'"
  by (simp add: appends_def)

lemma appends_bit_pos:
  "writer_ok w \<Longrightarrow> appends bs w w' \<Longrightarrow> bw_bit_pos w' = bw_bit_pos w + length bs"
  by (metis appends_def length_append length_writer_bits)

text \<open>Whole bytes at an aligned position.\<close>

lemma appends_bytes:
  assumes "writer_ok w" and "bw_bit_pos w mod 8 = 0"
  shows "appends (bytes_bits cs) w (add_bits (8 * length cs) (w\<lparr>bw_data := bw_data w @ cs\<rparr>))"
proof (rule appendsI)
  have len: "bw_bit_pos w = 8 * length (bw_data w)"
    using writer_ok_length [OF assms(1)] assms(2) by (auto simp: mod_0_imp_dvd)
  then show "stored (writer_bits w @ bytes_bits cs)
      (add_bits (8 * length cs) (w\<lparr>bw_data := bw_data w @ cs\<rparr>))"
    using assms by (intro stored_push_bytes writer_ok_stored) (simp_all add: length_writer_bits)
  show "length (bw_data (add_bits (8 * length cs) (w\<lparr>bw_data := bw_data w @ cs\<rparr>))) =
      (bw_bit_pos (add_bits (8 * length cs) (w\<lparr>bw_data := bw_data w @ cs\<rparr>)) + 7) div 8"
    using len by simp
qed simp

lemma appends_byte:
  "writer_ok w \<Longrightarrow> bw_bit_pos w mod 8 = 0 \<Longrightarrow> appends (word_bits 8 b) w (add_bits 8 (push_back b w))"
  using appends_bytes [of w "[b]"] by (simp add: push_back_def)

lemma write_whole_bytes_appends:
  "writer_ok w \<Longrightarrow> bw_bit_pos w mod 8 = 0 \<Longrightarrow>
   appends (word_bits (8 * k) (drop_bit rest v)) w (write_whole_bytes v rest k w)"
proof (induction k arbitrary: w)
  case 0
  then show ?case by (simp add: appends_refl)
next
  case (Suc k)
  let ?b = "ucast (drop_bit (k * 8 + rest) v) :: u8"
  have "appends (word_bits 8 ?b) w (add_bits 8 (push_back ?b w))"
    by (rule appends_byte) (fact Suc.prems)+
  moreover have "word_bits 8 ?b = word_bits 8 (drop_bit (8 * k) (drop_bit rest v))"
    by (simp add: word_bits_ucast drop_bit_drop_bit ac_simps)
  ultimately show ?case
    using Suc appends_ok appends_bit_pos [OF Suc.prems(1)]
    by (auto simp: word_bits_split [of 8 "8 * k"] intro!: appends_trans)
qed

text \<open>Part of the current byte, or of a fresh one.\<close>

lemma ceil_bytes:
  fixes p :: nat
  assumes "0 < p mod 8 + n" and "p mod 8 + n \<le> 8"
  shows "(p + n + 7) div 8 = Suc (p div 8)"
proof -
  define q r where "q = p div 8" and "r = p mod 8"
  have "p = 8 * q + r" by (simp add: q_def r_def)
  moreover have "0 < r + n" "r + n \<le> 8" using assms by (simp_all add: r_def)
  ultimately show ?thesis unfolding q_def [symmetric] by (intro div_nat_eqI) auto
qed

lemma ceil_bytes_aligned: "p mod 8 = 0 \<Longrightarrow> (p + 7) div 8 = p div 8" for p :: nat
  by (auto simp: mod_0_imp_dvd elim!: dvdE)

lemma round_up:
  fixes b s :: nat
  assumes "b \<noteq> 0"
  shows "s + (b - s mod b) = b * Suc (s div b)"
proof -
  have "s mod b \<le> s" "s mod b < b" using assms by simp_all
  then have "s + (b - s mod b) = (s - s mod b) + b" by linarith
  also have "s - s mod b = b * (s div b)" by (rule minus_mod_eq_mult_div)
  finally show ?thesis by simp
qed

lemma next_boundary: "(p + (8 - p mod 8)) mod 8 = 0" for p :: nat
proof -
  have "p + (8 - p mod 8) = 8 * Suc (p div 8)" by (rule round_up) simp
  then show ?thesis by (metis mod_mult_self1_is_0)
qed

lemma appends_partial:
  assumes "writer_ok w" and "bw_bit_pos w mod 8 \<noteq> 0" and "bw_bit_pos w mod 8 + n \<le> 8"
    and "s = 8 - bw_bit_pos w mod 8 - n" and "8 \<le> LENGTH('a)"
  shows "\<exists>w'. or_current_byte (ucast (push_bit s ((c :: 'a::len word) AND mask n))) w = Some w'
    \<and> appends (word_bits n c) w (add_bits n w')"
proof -
  note len = writer_ok_length [OF assms(1)] length_writer_bits [OF assms(1)]
  have "bw_bit_pos w div 8 < length (bw_data w)" and
    n: "(bw_bit_pos w + n + 7) div 8 = (bw_bit_pos w + 7) div 8"
    using assms(2, 3) len(1) ceil_bytes [of "bw_bit_pos w" n] ceil_bytes [of "bw_bit_pos w" 0]
    by simp_all
  with or_current_byte_stored [OF writer_ok_stored [OF assms(1)], of n s c] assms(3-) len
  obtain w' where w': "or_current_byte (ucast (push_bit s (c AND mask n))) w = Some w'"
    "stored (writer_bits w @ word_bits n c) (add_bits n w')"
    "length (bw_data w') = length (bw_data w)" "bw_error w' = bw_error w"
    by auto
  then have "appends (word_bits n c) w (add_bits n w')"
    using n len stored_length [OF w'(2)] by (intro appendsI) auto
  with w' show ?thesis by auto
qed

lemma appends_fresh:
  assumes "writer_ok w" and "bw_bit_pos w mod 8 = 0" and "0 < n" and "n \<le> 8" and "8 \<le> LENGTH('a)"
  shows "\<exists>w'. or_current_byte (ucast (push_bit (8 - n) ((c :: 'a::len word) AND mask n))) (push_back 0 w)
      = Some w' \<and> appends (word_bits n c) w (add_bits n w')"
proof -
  note len = writer_ok_length [OF assms(1)] length_writer_bits [OF assms(1)]
  have "bw_bit_pos w div 8 < Suc (length (bw_data w))" and
    n: "(bw_bit_pos w + n + 7) div 8 = Suc ((bw_bit_pos w + 7) div 8)"
    using assms(2-4) len(1) ceil_bytes [of "bw_bit_pos w" n] ceil_bytes_aligned [of "bw_bit_pos w"]
    by simp_all
  with or_current_byte_stored [OF stored_push_zero [OF writer_ok_stored [OF assms(1)]], of n "8 - n" c]
    assms(2-) len
  obtain w' where w': "or_current_byte (ucast (push_bit (8 - n) (c AND mask n))) (push_back 0 w) = Some w'"
    "stored (writer_bits w @ word_bits n c) (add_bits n w')"
    "length (bw_data w') = Suc (length (bw_data w))" "bw_error w' = bw_error w"
    by auto
  then have "appends (word_bits n c) w (add_bits n w')"
    using n len stored_length [OF w'(2)] by (intro appendsI) auto
  with w' show ?thesis by auto
qed

lemma mask_u64: "push_bit n 1 - 1 = (mask n :: u64)" "2 ^ n - 1 = (mask n :: u64)"
  by (simp_all add: mask_eq_exp_minus_1)

lemma and_one_bit: "drop_bit i (v :: u64) AND 1 \<noteq> 0 \<longleftrightarrow> bit v i"
  by (simp add: and_one_eq bit_iff_odd_drop_bit odd_iff_mod_2_eq_one)

lemma write_bit_appends:
  assumes ok: "writer_ok w" and "fits 1 w"
  shows "\<exists>w'. write_bit b w = Some w' \<and> appends [b] w w'"
proof (cases "bw_bit_pos w mod 8 = 0")
  case True
  have one: "word_bits 1 (1 :: u32) = [True]" "(1 :: u32) AND mask 1 = 1" by (simp_all add: word_bits_def)
  show ?thesis
  proof (cases b)
    case True
    with appends_fresh [OF ok \<open>bw_bit_pos w mod 8 = 0\<close>, of 1 "1 :: u32"] one assms
      \<open>bw_bit_pos w mod 8 = 0\<close> show ?thesis
      by (auto simp: write_bit_def Let_def ensure_capacity_fits)
  next
    case False
    have "writer_bits w @ [False] = writer_bits w @ replicate 1 False" by simp
    then have "appends [False] w (add_bits 1 (push_back 0 w))"
      using stored_align [OF stored_push_zero [OF writer_ok_stored [OF ok]], of 1] True
        writer_ok_length [OF ok] length_writer_bits [OF ok] ceil_bytes [of "bw_bit_pos w" 1]
        ceil_bytes_aligned [of "bw_bit_pos w"] mult_div_mod_eq [of 8 "bw_bit_pos w"]
      by (intro appendsI) simp_all
    with True False assms show ?thesis
      by (auto simp: write_bit_def Let_def ensure_capacity_fits)
  qed
next
  case False
  have one: "word_bits 1 (1 :: u32) = [True]" "(1 :: u32) AND mask 1 = 1" by (simp_all add: word_bits_def)
  have lt: "bw_bit_pos w mod 8 < 8" by simp
  show ?thesis
  proof (cases b)
    case True
    with appends_partial [OF ok False, of 1 "7 - bw_bit_pos w mod 8" "1 :: u32"] one lt False assms show ?thesis
      by (auto simp: write_bit_def Let_def ensure_capacity_fits)
  next
    case False
    with appends_partial [OF ok \<open>bw_bit_pos w mod 8 \<noteq> 0\<close>, of 1 "7 - bw_bit_pos w mod 8" "0 :: u32"] lt assms
      \<open>bw_bit_pos w mod 8 \<noteq> 0\<close>
    show ?thesis
      by (auto simp: write_bit_def Let_def ensure_capacity_fits or_current_byte_def word_bits_def
          split: if_splits)
  qed
qed

lemma fits_appends:
  "writer_ok w \<Longrightarrow> appends bs w w' \<Longrightarrow> fits (length bs + n) w \<Longrightarrow> fits n w'"
  by (simp add: fits_def appends_bit_pos add.assoc)

lemma write_single_bits_appends:
  "writer_ok w \<Longrightarrow> fits n w \<Longrightarrow>
   \<exists>w'. write_single_bits v n w = Some w' \<and> appends (word_bits n v) w w'"
proof (induction n arbitrary: w)
  case 0
  then show ?case by (simp add: appends_refl)
next
  case (Suc n)
  have "fits 1 w" using Suc.prems(2) by (simp add: fits_def)
  from write_bit_appends [OF Suc.prems(1) this, of "bit v n"]
  obtain w' where w': "write_bit (bit v n) w = Some w'" "appends [bit v n] w w'" by blast
  then have "writer_ok w'" "fits n w'"
    using Suc.prems fits_appends [OF _ w'(2), of n] by (auto simp: appends_def)
  from Suc.IH [OF this] w' show ?case
    using appends_trans [OF w'(2)] by (auto simp: and_one_bit word_bits_Suc)
qed

text \<open>The aligned path, the partial byte, and the three parts of the unaligned path.\<close>

lemma write_bits_aligned:
  assumes "writer_ok w" and "bw_bit_pos w mod 8 = 0" and "fits n w"
  shows "\<exists>w'. write_single_bits v (n mod 8) (write_whole_bytes v (n mod 8) (n div 8) w) = Some w'
    \<and> appends (word_bits n v) w w'"
proof -
  let ?w = "write_whole_bytes v (n mod 8) (n div 8) w"
  have w: "appends (word_bits (8 * (n div 8)) (drop_bit (n mod 8) v)) w ?w"
    by (rule write_whole_bytes_appends) fact+
  have "fits (n mod 8) ?w"
    using fits_appends [OF assms(1) w, of "n mod 8"] assms(3) by simp
  from write_single_bits_appends [OF appends_ok [OF w] this, of v] appends_trans [OF w]
  show ?thesis
    using word_bits_split [of "8 * (n div 8)" "n mod 8" v] by force
qed

lemma write_bits_tail:
  assumes "writer_ok w" and "bw_bit_pos w mod 8 = 0"
  shows "\<exists>w'. (if n mod 8 > 0
      then map_option (add_bits (n mod 8))
        (or_current_byte (ucast (push_bit (8 - n mod 8) (v AND mask (n mod 8))))
          (push_back 0 (write_whole_bytes v (n mod 8) (n div 8) w)))
      else Some (write_whole_bytes v (n mod 8) (n div 8) w)) = Some w'
    \<and> appends (word_bits n (v :: u64)) w w'"
proof -
  let ?w = "write_whole_bytes v (n mod 8) (n div 8) w"
  have w: "appends (word_bits (8 * (n div 8)) (drop_bit (n mod 8) v)) w ?w"
    by (rule write_whole_bytes_appends) fact+
  then have "bw_bit_pos ?w mod 8 = 0" using appends_bit_pos [OF assms(1) w] assms(2) by simp
  with appends_fresh [OF appends_ok [OF w], of "n mod 8" v] w appends_trans [OF w]
    word_bits_split [of "8 * (n div 8)" "n mod 8" v]
  show ?thesis by (cases "n mod 8 > 0") (force simp: less_imp_le)+
qed

lemma write_bits_appends:
  assumes ok: "writer_ok w" and "bw_error w = None" and "n \<le> 64" and fits: "fits n w"
  shows "\<exists>w'. write_bits v n w = Some w' \<and> appends (word_bits n v) w w'"
proof -
  let ?a = "8 - bw_bit_pos w mod 8"
  consider (zero) "n = 0" | (aligned) "n \<noteq> 0" "bw_bit_pos w mod 8 = 0"
    | (part) "n \<noteq> 0" "bw_bit_pos w mod 8 \<noteq> 0" "n \<le> ?a"
    | (long) "n \<noteq> 0" "bw_bit_pos w mod 8 \<noteq> 0" "?a < n" by linarith
  then show ?thesis
  proof cases
    case zero
    then show ?thesis using assms by (simp add: write_bits_def appends_refl)
  next
    case aligned
    then show ?thesis
      using assms write_bits_aligned [OF ok _ fits, of v] by (simp add: write_bits_def ensure_capacity_fits)
  next
    case part
    then have "bw_bit_pos w mod 8 + n \<le> 8" by linarith
    with part show ?thesis
      using assms appends_partial [OF ok part(2), of n "?a - n" v]
      by (auto simp: write_bits_def ensure_capacity_fits Let_def mask_u64)
  next
    case long
    define a m where "a = ?a" and "m = n - a"
    note am = a_def [symmetric] m_def [symmetric]
    have lt: "bw_bit_pos w mod 8 + a = 8" by (simp add: a_def)
    obtain w1 where w1: "or_current_byte (ucast (drop_bit m v AND mask a)) w = Some w1"
        "appends (word_bits a (drop_bit m v)) w (add_bits a w1)"
      using appends_partial [OF ok long(2), of a 0 "drop_bit m v"] lt by auto
    have "bw_bit_pos (add_bits a w1) mod 8 = 0"
      using appends_bit_pos [OF ok w1(2)] next_boundary [of "bw_bit_pos w"]
      by (simp only: length_word_bits a_def)
    from write_bits_tail [OF appends_ok [OF w1(2)] this, of m v]
    obtain w' where w': "write_bits v n w = Some w'" "appends (word_bits m v) (add_bits a w1) w'"
      using long assms w1(1) unfolding write_bits_def Let_def ensure_capacity_fits [OF fits] am mask_u64(1)
      by auto
    show ?thesis
      using w' appends_trans [OF w1(2) w'(2)] word_bits_split [of a m v] long(3) by (simp add: m_def a_def)
  qed
qed

text \<open>Alignment pads with zero bits, and the byte-level operations append whole bytes behind it.\<close>

definition padding :: "BitWriter \<Rightarrow> nat" where
  "padding w = (8 - bw_bit_pos w mod 8) mod 8"

lemma align_appends:
  assumes "writer_ok w"
  shows "appends (replicate (padding w) False) w (writer_align_to_byte w)"
    and "bw_bit_pos (writer_align_to_byte w) mod 8 = 0"
    and "bw_error (writer_align_to_byte w) = bw_error w"
proof -
  have *: "appends (replicate (8 - bw_bit_pos w mod 8) False) w (add_bits (8 - bw_bit_pos w mod 8) w)"
    if "bw_bit_pos w mod 8 \<noteq> 0"
  proof (rule appendsI)
    have c: "(bw_bit_pos w + (8 - bw_bit_pos w mod 8) + 7) div 8 = (bw_bit_pos w + 7) div 8"
      using ceil_bytes [of "bw_bit_pos w" "8 - bw_bit_pos w mod 8"] ceil_bytes [of "bw_bit_pos w" 0] that
      by simp
    then show "length (bw_data (add_bits (8 - bw_bit_pos w mod 8) w)) =
        (bw_bit_pos (add_bits (8 - bw_bit_pos w mod 8) w) + 7) div 8"
      using writer_ok_length [OF assms] by simp
    show "stored (writer_bits w @ replicate (8 - bw_bit_pos w mod 8) False)
        (add_bits (8 - bw_bit_pos w mod 8) w)"
    proof (rule stored_align [OF writer_ok_stored [OF assms]])
      have "length (bw_data w) = Suc (bw_bit_pos w div 8)"
        using writer_ok_length [OF assms] ceil_bytes [of "bw_bit_pos w" 0] that by simp
      then show "length (writer_bits w) + (8 - bw_bit_pos w mod 8) \<le> 8 * length (bw_data w)"
        using round_up [of 8 "bw_bit_pos w"] length_writer_bits [OF assms] by simp
    qed
  qed simp
  then show "appends (replicate (padding w) False) w (writer_align_to_byte w)"
    using assms by (auto simp: writer_align_to_byte_def padding_def Let_def appends_refl)
  show "bw_bit_pos (writer_align_to_byte w) mod 8 = 0"
    using next_boundary [of "bw_bit_pos w"] by (auto simp: writer_align_to_byte_def Let_def)
  show "bw_error (writer_align_to_byte w) = bw_error w"
    by (simp add: writer_align_to_byte_def Let_def)
qed

lemma push_all_eq: "push_all bs w = w\<lparr>bw_data := bw_data w @ bs\<rparr>"
  unfolding push_all_def by (induction bs arbitrary: w) (simp_all add: push_back_def)

lemma aligned_bytes_appends:
  assumes "writer_ok w"
  shows "appends (replicate (padding w) False @ bytes_bits bs) w
    (add_bits (8 * length bs) ((writer_align_to_byte w)\<lparr>bw_data := bw_data (writer_align_to_byte w) @ bs\<rparr>))"
  using align_appends [OF assms] by (intro appends_trans [OF _ appends_bytes]) (auto simp: appends_def)

lemmas ordered_bytes_simps = ordered_bytes_def be_bytes_def upt_rec

lemma write_u8_appends:
  "writer_ok w \<Longrightarrow> bw_error w = None \<Longrightarrow>
   appends (replicate (padding w) False @ word_bits 8 v) w (write_u8 v w)"
  using aligned_bytes_appends [of w "[v]"] by (simp add: write_u8_def push_back_def)

lemma write_u16_appends:
  "writer_ok w \<Longrightarrow> bw_error w = None \<Longrightarrow>
   appends (replicate (padding w) False @ bytes_bits (ordered_bytes e 2 v)) w (write_u16 v e w)"
  using aligned_bytes_appends [of w "ordered_bytes e 2 v"]
  by (cases e) (simp_all add: write_u16_def push_all_eq ordered_bytes_simps)

lemma write_u32_appends:
  "writer_ok w \<Longrightarrow> bw_error w = None \<Longrightarrow>
   appends (replicate (padding w) False @ bytes_bits (ordered_bytes e 4 v)) w (write_u32 v e w)"
  using aligned_bytes_appends [of w "ordered_bytes e 4 v"]
  by (cases e) (simp_all add: write_u32_def push_all_eq ordered_bytes_simps)

lemma write_u64_appends:
  "writer_ok w \<Longrightarrow> bw_error w = None \<Longrightarrow>
   appends (replicate (padding w) False @ bytes_bits (ordered_bytes e 8 v)) w (write_u64 v e w)"
  using aligned_bytes_appends [of w "ordered_bytes e 8 v"]
  by (cases e) (simp_all add: write_u64_def push_all_eq ordered_bytes_simps)

lemma write_f48_appends:
  "writer_ok w \<Longrightarrow> bw_error w = None \<Longrightarrow>
   appends (replicate (padding w) False @ bytes_bits (ordered_bytes e 6 (f64_to_f48 v))) w (write_f48 v e w)"
  using aligned_bytes_appends [of w "ordered_bytes e 6 (f64_to_f48 v)"]
  by (simp add: write_f48_def Let_def io_write_f48_def io_write_overwrite overwrite_def)

lemma write_bytes_appends:
  "writer_ok w \<Longrightarrow> bw_error w = None \<Longrightarrow>
   appends (replicate (padding w) False @ bytes_bits bs) w (write_bytes bs w)"
  using aligned_bytes_appends [of w bs] by (simp add: write_bytes_def Let_def mult.commute)

definition padded_string :: "string \<Rightarrow> nat \<Rightarrow> char \<Rightarrow> bytes" where
  "padded_string str n p =
     take n (string_to_bytes str) @ replicate (n - length str) (of_nat (of_char p))"

lemma length_padded_string [simp]: "length (padded_string str n p) = n"
  by (simp add: padded_string_def string_to_bytes_def)

lemma write_string_appends:
  "writer_ok w \<Longrightarrow> bw_error w = None \<Longrightarrow>
   fst (write_string str n p w) = (length str \<le> n) \<and>
   appends (replicate (padding w) False @ bytes_bits (padded_string str n p)) w
     (snd (write_string str n p w))"
  using aligned_bytes_appends [of w "padded_string str n p"]
  by (cases "length str \<le> n")
    (auto simp: write_string_def Let_def mult.commute padded_string_def string_to_bytes_def)

lemma write_u8_zero_appends:
  "writer_ok w \<Longrightarrow> bw_error w = None \<Longrightarrow> bw_bit_pos w mod 8 = 0 \<Longrightarrow>
   appends (bytes_bits (replicate k 0)) w ((write_u8 0 ^^ k) w)"
proof (induction k)
  case 0
  then show ?case by (simp add: appends_refl)
next
  case (Suc k)
  let ?w = "(write_u8 0 ^^ k) w"
  have w: "appends (bytes_bits (replicate k 0)) w ?w" using Suc by blast
  then have "bw_bit_pos ?w mod 8 = 0" using appends_bit_pos [OF Suc.prems(1) w] Suc.prems(3) by simp
  then have "appends (word_bits 8 (0 :: u8)) ?w (write_u8 0 ?w)"
    using write_u8_appends [of ?w 0] w Suc.prems(2) by (simp add: appends_def padding_def)
  from appends_trans [OF w this] show ?case by (simp flip: replicate_append_same)
qed

lemma bytes_bits_zeros: "bytes_bits (replicate k 0) = replicate (8 * k) False"
proof (induction k)
  case (Suc k)
  have "word_bits 8 (0 :: u8) = replicate 8 False" by (simp add: word_bits_def map_replicate_const)
  with Suc show ?case by (simp flip: replicate_add)
qed simp

lemma dvd_round_up:
  fixes b s :: nat
  assumes "b \<noteq> 0"
  shows "b dvd s + (b - s mod b) mod b"
proof (cases "s mod b = 0")
  case False
  then have "s + (b - s mod b) mod b = b * Suc (s div b)"
    using assms round_up [OF assms, of s] by simp
  then show ?thesis by simp
qed auto

lemma writer_align_to_appends:
  assumes "writer_ok w" and "bw_error w = None"
  shows "\<exists>k. appends (replicate k False) w (writer_align_to b w)
    \<and> (b \<noteq> 0 \<longrightarrow> (8 * b) dvd bw_bit_pos (writer_align_to b w) \<and> k < 8 + 8 * b)"
proof (cases "b = 0")
  case True
  have "appends (replicate 0 False) w (writer_align_to b w)"
    using assms True by (simp add: writer_align_to_def appends_refl)
  with True show ?thesis by blast
next
  case False
  let ?w = "writer_align_to_byte w"
  let ?k = "(b - size_bytes ?w mod b) mod b"
  note al = align_appends [OF assms(1)]
  have ok: "writer_ok ?w" using al(1) by (simp add: appends_def)
  have bytes: "bw_bit_pos ?w = 8 * size_bytes ?w"
    using al(2) ceil_bytes_aligned [OF al(2)] by (simp add: size_bytes_def)
  have eq: "writer_align_to b w = (write_u8 0 ^^ ?k) ?w"
    using False by (auto simp: writer_align_to_def Let_def)
  have k: "appends (replicate (8 * ?k) False) ?w (writer_align_to b w)"
    using write_u8_zero_appends [OF ok _ al(2), of ?k] al(3) assms(2)
    by (simp add: bytes_bits_zeros eq)
  have "appends (replicate (padding w + 8 * ?k) False) w (writer_align_to b w)"
    using appends_trans [OF al(1) k] by (simp add: replicate_add)
  moreover have "bw_bit_pos (writer_align_to b w) = 8 * (size_bytes ?w + ?k)"
    using appends_bit_pos [OF ok k] bytes by simp
  then have "8 * b dvd bw_bit_pos (writer_align_to b w)"
    using mult_dvd_mono [OF dvd_refl dvd_round_up [OF False]] by (simp only:)
  moreover have "padding w + 8 * ?k < 8 + 8 * b"
    using False by (intro add_less_mono) (simp_all add: padding_def)
  ultimately show ?thesis by blast
qed

section \<open>The contract of the writing operations\<close>

text \<open>
  What an encoder relies on: with an error pending an operation changes nothing, and on a
  well-formed writer it has a defined result and only appends, at most \<open>width\<close> bits.  An operation
  that rejects its arguments appends nothing and records the error.
\<close>

locale writer_op =
  fixes op :: "BitWriter \<Rightarrow> BitWriter option" and width :: nat
  assumes sticky: "bw_error w \<noteq> None \<Longrightarrow> op w = Some w"
    and runs: "writer_ok w \<Longrightarrow> bw_error w = None \<Longrightarrow> fits width w \<Longrightarrow>
      \<exists>w' bs. op w = Some w' \<and> writer_ok w' \<and> writer_bits w' = writer_bits w @ bs \<and> length bs \<le> width"
begin

lemma extends:
  assumes "writer_ok w" and "fits width w"
  shows "\<exists>w' bs. op w = Some w' \<and> writer_ok w' \<and> writer_bits w' = writer_bits w @ bs \<and> length bs \<le> width"
proof (cases "bw_error w = None")
  case False
  with assms sticky show ?thesis by (intro exI [of _ w] exI [of _ "[]"]) auto
qed (use assms runs in blast)

end

lemma writer_op_then:
  assumes "writer_op f m" and "writer_op g n"
  shows "writer_op (\<lambda>w. Option.bind (f w) g) (m + n)"
proof
  show "Option.bind (f w) g = Some w" if "bw_error w \<noteq> None" for w
    using that writer_op.sticky [OF assms(1)] writer_op.sticky [OF assms(2)] by simp
next
  fix w assume w: "writer_ok w" "bw_error w = None" "fits (m + n) w"
  then have "fits m w" by (simp add: fits_def)
  with w writer_op.runs [OF assms(1)] obtain w' bs
    where w': "f w = Some w'" "writer_ok w'" "writer_bits w' = writer_bits w @ bs" "length bs \<le> m"
    by blast
  then have "fits n w'"
    using w length_writer_bits [OF w(1)] length_writer_bits [OF w'(2)] by (simp add: fits_def)
  from writer_op.extends [OF assms(2) w'(2) this] obtain w'' cs
    where "g w' = Some w''" "writer_ok w''" "writer_bits w'' = writer_bits w' @ cs" "length cs \<le> n"
    by blast
  with w' show "\<exists>w' bs. Option.bind (f w) g = Some w' \<and> writer_ok w' \<and>
      writer_bits w' = writer_bits w @ bs \<and> length bs \<le> m + n"
    by (intro exI [of _ w''] exI [of _ "bs @ cs"]) auto
qed

lemma writer_opI:
  assumes "\<And>w. bw_error w \<noteq> None \<Longrightarrow> op w = Some w"
    and "\<And>w. writer_ok w \<Longrightarrow> bw_error w = None \<Longrightarrow> fits n w \<Longrightarrow>
      \<exists>w' bs. op w = Some w' \<and> appends bs w w' \<and> length bs \<le> n"
  shows "writer_op op n"
  using assms by unfold_locales (fastforce simp: appends_def)+

lemma set_error_ok [writer_simps]:
  "writer_bits (set_error c m w) = writer_bits w" "writer_ok (set_error c m w) = writer_ok w"
  by (simp_all add: set_error_def writer_bits_def writer_ok_def size_bytes_def stored_def
      split: option.splits)

lemma rejected:
  "writer_ok w \<Longrightarrow> \<exists>w' bs. Some (set_error c m w) = Some w' \<and> writer_ok w' \<and>
     writer_bits w' = writer_bits w @ bs \<and> length bs \<le> n"
  by (intro exI [of _ "set_error c m w"] exI [of _ "[]"]) (simp add: writer_simps)

interpretation w_bits: writer_op "write_bits v n" n for v n
proof
  show "write_bits v n w = Some w" if "bw_error w \<noteq> None" for w
    using that by (simp add: write_bits_def)
next
  fix w assume w: "writer_ok w" "bw_error w = None" "fits n w"
  show "\<exists>w' bs. write_bits v n w = Some w' \<and> writer_ok w' \<and> writer_bits w' = writer_bits w @ bs \<and> length bs \<le> n"
  proof (cases "n \<le> 64")
    case True
    with write_bits_appends [OF w(1,2) _ w(3), of v] show ?thesis by (fastforce simp: appends_def)
  next
    case False
    then have "write_bits v n w = Some (set_error EncodingFailed
        (''write_bits: requested '' @ to_string n @ '' bits, max is 64'') w)"
      using w(2) by (simp add: write_bits_def)
    then show ?thesis using rejected [OF w(1)] by simp
  qed
qed

interpretation w_signed_bits: writer_op "write_signed_bits v n" n for v n
  using w_bits.sticky w_bits.runs by unfold_locales (auto simp: write_signed_bits_def)

interpretation w_bcd: writer_op "write_bcd v n" n for v n
  using w_bits.runs rejected by unfold_locales (auto simp: write_bcd_def Let_def split: prod.splits)

interpretation w_bcd_signed: writer_op "write_bcd_signed v n" n for v n
  using w_bits.runs rejected
  by unfold_locales (auto simp: write_bcd_signed_def Let_def split: prod.splits)

lemma sign_magnitude_op: "n \<le> 64 \<Longrightarrow> writer_op (write_sign_magnitude v n) n"
  using w_bits.runs rejected by unfold_locales (auto simp: write_sign_magnitude_def Let_def)

lemma padding_le: "padding w \<le> 7"
  using mod_less_divisor [of 8 "8 - bw_bit_pos w mod 8"] unfolding padding_def by linarith

lemma byte_opI:
  assumes "\<And>w. bw_error w \<noteq> None \<Longrightarrow> op w = w"
    and "\<And>w. writer_ok w \<Longrightarrow> bw_error w = None \<Longrightarrow>
      appends (replicate (padding w) False @ bytes_bits bs) w (op w)"
  shows "writer_op (\<lambda>w. Some (op w)) (7 + 8 * length bs)"
  using assms padding_le by (intro writer_opI) fastforce+

interpretation w_u8: writer_op "\<lambda>w. Some (write_u8 v w)" 15 for v
  using byte_opI [of "write_u8 v" "[v]"] write_u8_appends by (simp add: write_u8_def)

interpretation w_u16: writer_op "\<lambda>w. Some (write_u16 v e w)" 23 for v e
  using byte_opI [of "write_u16 v e" "ordered_bytes e 2 v"] write_u16_appends by (simp add: write_u16_def)

interpretation w_u32: writer_op "\<lambda>w. Some (write_u32 v e w)" 39 for v e
  using byte_opI [of "write_u32 v e" "ordered_bytes e 4 v"] write_u32_appends by (simp add: write_u32_def)

interpretation w_u64: writer_op "\<lambda>w. Some (write_u64 v e w)" 71 for v e
  using byte_opI [of "write_u64 v e" "ordered_bytes e 8 v"] write_u64_appends by (simp add: write_u64_def)

lemma write_float_eq:
  "write_f16 f e = write_u16 (f32_to_f16 f) e" "write_f32 f e = write_u32 f e" "write_f64 d e = write_u64 d e"
  by (simp_all add: fun_eq_iff write_f16_def write_f32_def write_f64_def write_u16_def write_u32_def
      write_u64_def)

interpretation w_f48: writer_op "\<lambda>w. Some (write_f48 v e w)" 55 for v e
  using byte_opI [of "write_f48 v e" "ordered_bytes e 6 (f64_to_f48 v)"] write_f48_appends
  by (simp add: write_f48_def)

interpretation w_bytes: writer_op "\<lambda>w. Some (write_bytes bs w)" "7 + 8 * length bs" for bs
  using byte_opI [of "write_bytes bs" bs] write_bytes_appends by (simp add: write_bytes_def)

interpretation w_string: writer_op "\<lambda>w. Some (snd (write_string str n p w))" "7 + 8 * n" for str n p
  using byte_opI [of "\<lambda>w. snd (write_string str n p w)" "padded_string str n p"] write_string_appends
  by (simp add: write_string_def)

section \<open>Patching and finishing\<close>

lemma length_overwrite_data: "store_at i bs w = Some w' \<Longrightarrow> length (bw_data w') = length (bw_data w)"
  by (auto simp: store_at_def split: if_splits)

lemma bytes_bits_overwrite:
  "bytes_bits (overwrite i bs d) = overwrite (8 * i) (bytes_bits bs) (bytes_bits d)"
  unfolding overwrite_def length_bytes_bits distrib_left [symmetric] take_bytes_bits drop_bytes_bits
  by simp

text \<open>Patching inside an aligned writer replaces exactly the bits of the patched bytes.\<close>

lemma store_at_ok:
  assumes "writer_ok w" and "bw_bit_pos w mod 8 = 0" and "i + length bs \<le> length (bw_data w)"
  shows "\<exists>w'. store_at i bs w = Some w' \<and> writer_ok w' \<and>
    writer_bits w' = overwrite (8 * i) (bytes_bits bs) (writer_bits w) \<and> bw_error w' = bw_error w \<and>
    bw_bit_pos w' = bw_bit_pos w"
proof -
  let ?w = "w\<lparr>bw_data := overwrite i bs (bw_data w)\<rparr>"
  have pos: "bw_bit_pos w = 8 * length (bw_data w)"
    using writer_ok_length [OF assms(1)] assms(2) by (auto simp: mod_0_imp_dvd)
  have bits: "writer_bits w = bytes_bits (bw_data w)" by (simp add: writer_bits_def pos)
  then have st: "stored (overwrite (8 * i) (bytes_bits bs) (writer_bits w)) ?w"
    using assms(3) pos by (simp add: stored_def bytes_bits_overwrite)
  have "writer_ok ?w" by (rule writer_okI [OF st]) (use assms(3) bits in simp)
  with st assms(3) show ?thesis by (simp add: store_at_def writer_bits_stored)
qed

lemma patch_u16_ok:
  assumes "writer_ok w" and "bw_bit_pos w mod 8 = 0" and "bw_error w = None"
    and "i + 2 \<le> length (bw_data w)" and "addressable (bw_data w)"
  shows "\<exists>w'. patch_u16 i v e w = Some (True, w') \<and> writer_ok w' \<and>
    writer_bits w' = overwrite (8 * i) (bytes_bits (ordered_bytes e 2 v)) (writer_bits w) \<and>
    bw_error w' = None \<and> bw_bit_pos w' = bw_bit_pos w"
proof -
  have "size_add i 2 = i + 2" using assms by (simp add: addressable_def size_mod_def)
  with store_at_ok [OF assms(1,2), of i "ordered_bytes e 2 v"] assms show ?thesis
    by (cases e) (auto simp: patch_u16_def ordered_bytes_simps)
qed

lemma patch_u32_ok:
  assumes "writer_ok w" and "bw_bit_pos w mod 8 = 0" and "bw_error w = None"
    and "i + 4 \<le> length (bw_data w)" and "addressable (bw_data w)"
  shows "\<exists>w'. patch_u32 i v e w = Some (True, w') \<and> writer_ok w' \<and>
    writer_bits w' = overwrite (8 * i) (bytes_bits (ordered_bytes e 4 v)) (writer_bits w) \<and>
    bw_error w' = None \<and> bw_bit_pos w' = bw_bit_pos w"
proof -
  have "size_add i 4 = i + 4" using assms by (simp add: addressable_def size_mod_def)
  with store_at_ok [OF assms(1,2), of i "ordered_bytes e 4 v"] assms show ?thesis
    by (cases e) (auto simp: patch_u32_def ordered_bytes_simps)
qed

lemma finish_ok:
  assumes "writer_ok w" and "bw_error w = None"
  shows "\<exists>d. finish w = (Inr d, mk_writer) \<and> bytes_bits d = writer_bits w @ replicate (padding w) False"
proof -
  note al = align_appends [OF assms(1)]
  let ?w = "writer_align_to_byte w"
  have "writer_bits ?w = writer_bits w @ replicate (padding w) False" "writer_ok ?w"
    using al(1) by (simp_all add: appends_def)
  moreover have "bw_bit_pos ?w = 8 * length (bw_data ?w)"
    using writer_ok_length [OF \<open>writer_ok ?w\<close>] al(2) by (auto simp: mod_0_imp_dvd)
  ultimately have "bytes_bits (bw_data ?w) = writer_bits w @ replicate (padding w) False"
    by (simp add: writer_bits_def)
  then show ?thesis using assms by (simp add: finish_def mk_writer_def)
qed

lemma mk_writer_ok [simp]: "writer_ok mk_writer" "writer_bits mk_writer = []" "bw_error mk_writer = None"
  "bw_bit_pos mk_writer = 0"
  by (simp_all add: writer_ok_def stored_def writer_bits_def mk_writer_def size_bytes_def)

section \<open>Properties\<close>

text \<open>
  C18: \<open>write_bits\<close> appends exactly the low bits of its argument, most significant first, whatever
  the alignment: the aligned path, the path that stays within the current byte and the path that crosses
  bytes all have the result of writing the bits one by one.
\<close>

theorem write_bits_correct:
  assumes "writer_ok w" and "bw_error w = None" and "n \<le> 64" and "fits n w"
  shows "\<exists>w'. write_bits v n w = Some w' \<and> writer_ok w' \<and> bw_error w' = None \<and>
    writer_bits w' = writer_bits w @ word_bits n v"
  using write_bits_appends [OF assms, of v] assms(2) by (auto simp: appends_def)

theorem write_bits_correct_witness:
  "\<exists>w. write_bits 5 3 mk_writer = Some w \<and> writer_bits w = [True, False, True]"
proof -
  have "fits 3 mk_writer" by (simp add: fits_def size_mod_def)
  with write_bits_correct [of mk_writer 3 5] have "\<exists>w. write_bits 5 3 mk_writer = Some w \<and>
      writer_bits w = word_bits 3 (5 :: u64)" by auto
  moreover have "word_bits 3 (5 :: u64) = [True, False, True]" by code_simp
  ultimately show ?thesis by simp
qed

text \<open>
  Patching overwrites exactly the bits of the patched bytes and keeps the writer well formed:
  a length field written first and filled in at the end leaves the rest of the message as it was.
\<close>

lemma patch_frame:
  assumes "writer_ok w" and "bw_bit_pos w mod 8 = 0" and "bw_error w = None"
    and "i + 4 \<le> length (bw_data w)" and "addressable (bw_data w)"
  shows "(\<exists>w'. patch_u16 i a e w = Some (True, w') \<and> writer_ok w' \<and> bw_bit_pos w' = bw_bit_pos w \<and>
      writer_bits w' = overwrite (8 * i) (bytes_bits (ordered_bytes e 2 a)) (writer_bits w)) \<and>
    (\<exists>w'. patch_u32 i b e w = Some (True, w') \<and> writer_ok w' \<and> bw_bit_pos w' = bw_bit_pos w \<and>
      writer_bits w' = overwrite (8 * i) (bytes_bits (ordered_bytes e 4 b)) (writer_bits w))"
  using patch_u16_ok [OF assms(1-3) _ assms(5), of i a e] patch_u32_ok [OF assms, of b e] assms(4)
  by auto

text \<open>
  C34: the range check of the multi-byte patches wraps: at the last offsets of \<open>size_t\<close> the sum is
  small, the check passes and the store is outside the vector, which is undefined.
\<close>

theorem patch_check_wraps:
  assumes "bw_error w = None" and "addressable (bw_data w)"
  shows "patch_u16 (size_mod - 2) a e w = None \<and> patch_u32 (size_mod - 4) b e w = None"
proof -
  have "size_add (size_mod - 2) 2 = 0" "size_add (size_mod - 4) 4 = 0"
    by (simp_all add: size_add_def size_mod_def)
  moreover have "length (bw_data w) < size_mod - 4"
    using assms(2) by (simp add: addressable_def size_mod_def)
  ultimately show ?thesis
    using assms(1) by (cases e) (simp_all add: patch_u16_def patch_u32_def store_at_def)
qed

theorem patch_check_wraps_witness:
  "patch_u16 0xFFFFFFFFFFFFFFFE 1 Big mk_writer = None"
  using patch_check_wraps [of mk_writer 1 Big 0] by (simp add: mk_writer_def addressable_def size_mod_def)

text \<open>
  C35: \<open>write_sign_magnitude\<close> does not check its width before shifting: with more than 64 bits the
  mask is computed by a shift past the width of the type, which is undefined.
\<close>

theorem sign_magnitude_shift_undefined:
  assumes "bw_error w = None" and "64 < n"
  shows "write_sign_magnitude v n w = None"
proof -
  have "64 \<le> n - 1" using assms(2) by linarith
  then show ?thesis using assms by (simp add: write_sign_magnitude_def)
qed

theorem sign_magnitude_shift_undefined_witness: "write_sign_magnitude 1 65 mk_writer = None"
  using sign_magnitude_shift_undefined [of mk_writer 65 1] by simp

end
