(* ===== verification/Bit_IO.thy ===== *)
theory Bit_IO
  imports Bit_Reader Bit_Writer
begin

text \<open>
  The encoder and the decoder together.  A message is a sequence of fields; each field has a
  \<open>kind\<close> (its encoding, width and byte order, as a schema fixes them) and a 64-bit value.
  \<open>encode_field\<close> and \<open>decode_field\<close> call the operation of \<open>BitWriter\<close> and of \<open>BitReader\<close> that a
  generated codec calls for the kind.  The theory gives the bits each kind has on the wire, shows that
  both sides agree on them, and concludes that whatever sequence of representable fields is written,
  finished and read back is the sequence that was written.
\<close>

unbundle bit_operations_syntax

section \<open>Reading what is in front\<close>

lemma try_read_Some [simp]:
  "try_read (Some (Inr v, r)) k = Some (k v, r)" "try_read (Some (Inl e, r)) k = Some (Inl e, r)"
  by (simp_all add: try_read_def)

lemma take_bit_u64_64 [simp]: "take_bit 64 (v :: u64) = v"
  by (rule bit_word_eqI) (simp add: bit_simps)

lemma read_bits_front:
  assumes "reader_ok r" and "n \<le> 64" and "reader_bits r = word_bits n (v :: u64) @ rest"
  shows "read_bits n r = Some (Inr (take_bit n v), seek (bit_position r + n) r)"
  using read_bits_ok [OF assms(1,2)] assms(3) by (simp add: of_nat_bits_val_word_bits)

section \<open>Two's complement and sign-magnitude\<close>

lemma single_bit_test: "(v :: u64) AND push_bit m 1 \<noteq> 0 \<longleftrightarrow> bit v m"
  by (simp add: bit_iff_and_push_bit_not_eq_0)

lemma read_signed_bits_front:
  assumes "reader_ok r" and "0 < n" and "n \<le> 64" and "reader_bits r = word_bits n v @ rest"
  shows "read_signed_bits n r = Some (Inr (signed_take_bit (n - 1) v), seek (bit_position r + n) r)"
proof -
  obtain m where n: "n = Suc m" using assms(2) by (cases n) auto
  have "take_bit n v OR NOT (mask n) = signed_take_bit m v" if "bit v m"
    using that n by (intro bit_word_eqI) (auto simp: bit_simps min_def less_Suc_eq)
  moreover have "take_bit n v = signed_take_bit m v" if "\<not> bit v m"
    using that n by (intro bit_word_eqI) (auto simp: bit_simps min_def less_Suc_eq)
  moreover have "v = signed_take_bit m v" if "n = 64"
    using that n by (intro bit_word_eqI) (simp add: bit_signed_take_bit_iff min_absorb2)
  moreover have "bit (take_bit n v) m = bit v m"
    using n by (simp add: bit_simps)
  ultimately show ?thesis
    using read_bits_front [OF assms(1,3,4)] n assms(3)
    unfolding read_signed_bits_def Let_def mask_u64(1) n diff_Suc_1 single_bit_test by auto
qed

lemma bit_sint: "bit (sint (v :: u64)) k = bit v (min 63 k)"
proof (cases "k < 64")
  case True
  then have "min 63 k = k" by simp
  then show ?thesis using True by (simp add: bit_sint_iff)
next
  case False
  then have "min 63 k = 63" "\<not> bit v k" by (auto dest: bit_imp_le_length)
  then show ?thesis using False by (simp add: bit_sint_iff)
qed

lemma signed_take_bit_range:
  assumes "0 < n" and "n \<le> 64" and "- (2 ^ (n - 1)) \<le> sint v" and "sint v < 2 ^ (n - 1)"
  shows "signed_take_bit (n - 1) v = (v :: u64)"
proof (rule bit_word_eqI)
  fix k assume "k < LENGTH(64)"
  have "signed_take_bit (n - 1) (sint v) = sint v"
    using assms(3,4) by (simp add: signed_take_bit_int_eq_self_iff)
  then have "bit (sint v) (min (n - 1) k) = bit (sint v) k"
    by (metis bit_signed_take_bit_iff possible_bit_int)
  moreover have "min 63 (min (n - 1) k) = min (n - 1) k" "min 63 k = k"
    using \<open>k < LENGTH(64)\<close> by auto
  ultimately show "bit (signed_take_bit (n - 1) v) k = bit v k"
    using \<open>k < LENGTH(64)\<close> by (simp add: bit_sint bit_signed_take_bit_iff)
qed

definition magnitude :: "u64 \<Rightarrow> u64" where
  "magnitude v = (if sint v < 0 then NOT v + 1 else v)"

lemma not_plus_one: "NOT v + 1 = - (v :: u64)"
  by (simp add: minus_eq_not_plus_1)

lemma unat_magnitude: "unat (magnitude v) = nat \<bar>sint v\<bar>"
proof -
  have range: "- (2 ^ 63) \<le> sint v" "sint v < 2 ^ 63"
    using sint_ge [of v] sint_lt [of v] by simp_all
  have "uint (magnitude v) = \<bar>sint v\<bar>"
  proof (cases "sint v < 0")
    case True
    have "uint (word_of_int (- sint v) :: u64) = (- sint v) mod 2 ^ 64"
      by (simp only: uint_word_of_int) simp
    moreover have "word_of_int (- sint v) = - v" by simp
    ultimately have "uint (- v) = (- sint v) mod 2 ^ 64" by (simp only:)
    with True range show ?thesis by (simp add: magnitude_def not_plus_one)
  next
    case False
    have "uint (word_of_int (sint v) :: u64) = sint v mod 2 ^ 64" by (simp only: uint_word_of_int) simp
    moreover have "word_of_int (sint v) = v" by simp
    ultimately have "uint v = sint v mod 2 ^ 64" by (simp only:)
    with False range show ?thesis by (simp add: magnitude_def)
  qed
  then show ?thesis by (simp add: unat_eq_nat_uint)
qed

text \<open>The pattern both signed formats put on the wire: the sign above the magnitude.\<close>

definition signed_raw :: "nat \<Rightarrow> bool \<Rightarrow> u64 \<Rightarrow> u64" where
  "signed_raw n negative raw = (if negative then raw OR push_bit (n - 1) 1 else raw)"

lemma signed_raw_read:
  assumes "0 < n" and "n \<le> 64" and "unat raw < 2 ^ (n - 1)"
  shows "take_bit n (signed_raw n neg raw) = signed_raw n neg raw"
    and "drop_bit (n - 1) (signed_raw n neg raw) AND 1 \<noteq> 0 \<longleftrightarrow> neg"
    and "signed_raw n neg raw AND mask (n - 1) = raw"
proof -
  obtain m where n: "n = Suc m" using assms(1) by (cases n) auto
  have raw: "bit raw k \<Longrightarrow> k < m" for k using unat_less_imp_bit [of raw m k] assms(3) n by simp
  have nm: "n - 1 = m" using n by simp
  have mn: "m < n" "bit raw k \<Longrightarrow> k < n" for k using n raw by (auto simp: less_SucI)
  have bit: "bit (signed_raw n neg raw) k \<longleftrightarrow> bit raw k \<or> (neg \<and> k = m)" for k
    using n assms(2) by (auto simp: signed_raw_def bit_simps)
  show "take_bit n (signed_raw n neg raw) = signed_raw n neg raw"
    using mn by (intro bit_word_eqI) (auto simp: bit bit_take_bit_iff)
  show "drop_bit (n - 1) (signed_raw n neg raw) AND 1 \<noteq> 0 \<longleftrightarrow> neg"
    unfolding nm and_one_bit bit using raw by auto
  show "signed_raw n neg raw AND mask (n - 1) = raw"
    unfolding nm using raw by (intro bit_word_eqI) (auto simp: bit bit_and_iff bit_mask_iff)
qed

lemma signed_magnitude: "(if sint v < 0 then - magnitude v else magnitude v) = v"
  by (simp add: magnitude_def not_plus_one)

lemma read_sign_magnitude_front:
  assumes "reader_ok r" and "2 \<le> n" and "n \<le> 64" and "nat \<bar>sint v\<bar> < 2 ^ (n - 1)"
    and "reader_bits r = word_bits n (signed_raw n (sint v < 0) (magnitude v)) @ rest"
  shows "read_sign_magnitude n r = Some (Inr v, seek (bit_position r + n) r)"
proof -
  have "unat (magnitude v) < 2 ^ (n - 1)" using assms(4) by (simp add: unat_magnitude)
  note raw = signed_raw_read [OF _ assms(3) this, of "sint v < 0"]
  have "read_sign_magnitude n r =
      try_read (Some (Inr (signed_raw n (sint v < 0) (magnitude v)), seek (bit_position r + n) r)) (\<lambda>raw.
        Inr (if drop_bit (n - 1) raw AND 1 \<noteq> 0 then - (raw AND mask (n - 1)) else raw AND mask (n - 1)))"
    using read_bits_front [OF assms(1,3,5)] assms(2) raw(1)
    unfolding read_sign_magnitude_def Let_def mask_u64(1) by simp
  also have "\<dots> = Some (Inr v, seek (bit_position r + n) r)"
    using raw(2,3) assms(2) signed_magnitude [of v] by (simp only: try_read_Some)
  finally show ?thesis .
qed

lemma write_sign_magnitude_raw:
  assumes "bw_error w = None" and "2 \<le> n" and "n \<le> 64" and "nat \<bar>sint v\<bar> < 2 ^ (n - 1)"
  shows "write_sign_magnitude v n w = write_bits (signed_raw n (sint v < 0) (magnitude v)) n w"
proof -
  have lt: "unat (magnitude v) < 2 ^ (n - 1)" using assms(4) by (simp add: unat_magnitude)
  have "magnitude v AND mask (n - 1) = magnitude v"
    using unat_less_imp_bit [OF lt] by (intro bit_word_eqI) (auto simp: bit_simps)
  moreover from this have "\<not> mask (n - 1) < magnitude v" by (metis word_and_le1 not_le)
  ultimately show ?thesis
    using assms unfolding write_sign_magnitude_def Let_def mask_u64(1) magnitude_def [symmetric]
      signed_raw_def by auto
qed

section \<open>Binary-coded decimal\<close>

text \<open>The decimal digits of a number in nibbles, the lowest digit in the lowest nibble.\<close>

fun bcd_nat :: "nat \<Rightarrow> nat \<Rightarrow> nat" where
  "bcd_nat 0 v = 0"
| "bcd_nat (Suc n) v = v mod 10 + 16 * bcd_nat n (v div 10)"

lemma bcd_nat_less: "bcd_nat n v < 16 ^ n"
proof (induction n arbitrary: v)
  case (Suc n)
  have "v mod 10 < 10" by simp
  with Suc [of "v div 10"] show ?case by simp
qed simp

lemma bcd_nat_nibble: "i < n \<Longrightarrow> bcd_nat n v div 16 ^ i mod 16 = v div 10 ^ i mod 10"
proof (induction n arbitrary: v i)
  case (Suc n)
  have d: "v mod 10 < 16" by (rule less_trans [of _ 10]) simp_all
  show ?case
  proof (cases i)
    case 0
    with d show ?thesis by simp
  next
    case (Suc j)
    have "bcd_nat (Suc n) v div 16 ^ i = bcd_nat n (v div 10) div 16 ^ j"
      using d Suc by (simp add: div_mult2_eq)
    with Suc.IH [of j "v div 10"] Suc Suc.prems show ?thesis by (simp add: div_mult2_eq)
  qed
qed simp

lemma word10: "unat (v mod 10 :: u64) = unat v mod 10" "unat (v div 10 :: u64) = unat v div 10"
  by (simp_all add: unat_mod_distrib unat_div_distrib)

lemma ucast_byte_back: "unat x < 2 ^ 8 \<Longrightarrow> (ucast (ucast (x :: u64) :: u8) :: u64) = x"
  using unat_less_imp_bit [of x 8] by (intro bit_word_eqI) (auto simp: bit_simps)

lemma digit_ucast: "(ucast (ucast (v mod 10 :: u64) :: u8) :: u64) = of_nat (unat v mod 10)"
proof -
  have "unat (v mod 10) < 2 ^ 8" by (rule less_trans [of _ 10]) (simp_all add: word10)
  then have "(ucast (ucast (v mod 10) :: u8) :: u64) = v mod 10" by (rule ucast_byte_back)
  also have "\<dots> = of_nat (unat (v mod 10))" by simp
  finally show ?thesis by (simp only: word10)
qed

lemma or_digit:
  assumes "R < 16 ^ i"
  shows "of_nat R OR push_bit (i * 4) (of_nat d) = (of_nat (R + 16 ^ i * d) :: u64)"
proof -
  have pow: "(16 :: nat) ^ i = 2 ^ (i * 4)" by (simp add: power_mult mult.commute [of i])
  have "take_bit (i * 4) R = R" using assms by (simp add: take_bit_nat_eq_self_iff pow)
  moreover have "take_bit (i * 4) R AND push_bit (i * 4) d = 0"
    by (rule bit_eqI) (auto simp: bit_simps)
  ultimately have "R AND push_bit (i * 4) d = 0" by simp
  then have "R OR push_bit (i * 4) d = R + 16 ^ i * d"
    by (simp add: push_bit_eq_mult pow flip: disjunctive_add_eq_or)
  then show ?thesis by (metis of_nat_or_eq push_bit_of_nat)
qed

lemma bcd_digits_eq:
  "R < 16 ^ i \<Longrightarrow> bcd_digits i n (of_nat R) v =
     (of_nat (R + 16 ^ i * bcd_nat n (unat v)), of_nat (unat v div 10 ^ n))"
proof (induction n arbitrary: i R v)
  case 0
  then show ?case by simp
next
  case (Suc n)
  let ?R = "R + 16 ^ i * (unat v mod 10)"
  have "unat v mod 10 \<le> 15" by (rule le_trans [of _ 9]) simp_all
  then have "16 ^ i * (unat v mod 10) \<le> 16 ^ i * 15" by (rule mult_le_mono2)
  then have R: "?R < 16 ^ Suc i" using Suc.prems unfolding power_Suc by linarith
  have "bcd_digits i (Suc n) (of_nat R) v = bcd_digits (Suc i) n (of_nat ?R) (v div 10)"
    by (simp add: digit_ucast or_digit [OF Suc.prems] del: of_nat_add of_nat_mult)
  also have "\<dots> = (of_nat (?R + 16 ^ Suc i * bcd_nat n (unat v div 10)), of_nat (unat v div 10 div 10 ^ n))"
    using Suc.IH [OF R, of "v div 10"] by (simp only: word10)
  finally show ?case by (simp add: algebra_simps div_mult2_eq)
qed

lemma nibble_unat:
  "unat (ucast (drop_bit k (w :: u64) AND 0xF) :: u8) = unat w div 2 ^ k mod 16"
proof -
  have "drop_bit k w AND 0xF = take_bit 4 (drop_bit k w)"
    by (simp add: take_bit_eq_mask mask_eq_exp_minus_1)
  moreover have "unat (take_bit 4 (drop_bit k w)) = unat w div 2 ^ k mod 16"
    unfolding unsigned_take_bit_eq unsigned_drop_bit_eq
    using unsigned_less [of w, where ?'a = nat] by (simp add: take_bit_eq_mod drop_bit_eq_div)
  moreover have "unat w div 2 ^ k mod 16 < 256" by (rule less_trans [of _ 16]) simp_all
  ultimately show ?thesis by (simp add: unsigned_ucast_eq take_bit_nat_eq_self)
qed

lemma bcd_nat_fits: "n \<le> 16 \<Longrightarrow> bcd_nat n v < 2 ^ 64"
  using bcd_nat_less [of n v] power_increasing [of n 16 "16 :: nat"] by simp

text \<open>The decoding loop has read the number modulo a power of ten.\<close>

lemma read_bcd_loop_eq:
  assumes "N \<le> 16"
  shows "i + n \<le> N \<Longrightarrow>
    read_bcd_loop who (of_nat (bcd_nat N V)) i n (of_nat (V mod 10 ^ i)) (of_nat (10 ^ i)) =
      Inr (of_nat (V mod 10 ^ (i + n)))"
proof (induction n arbitrary: i)
  case 0
  then show ?case by simp
next
  case (Suc n)
  let ?raw = "of_nat (bcd_nat N V) :: u64" and ?d = "V div 10 ^ i mod 10"
  let ?digit = "ucast (drop_bit (i * 4) ?raw AND 0xF) :: u8"
  have "unat ?raw = bcd_nat N V" using bcd_nat_fits [OF assms] by (simp add: unat_of_nat_small)
  then have digit: "unat ?digit = ?d"
    using bcd_nat_nibble [of i N V] Suc.prems nibble_unat [of "i * 4" ?raw]
    by (simp add: power_mult mult.commute [of i])
  have d9: "?d < 10" by simp
  have le: "\<not> ?digit > 9" using digit d9 by (simp add: word_less_nat_alt not_less)
  have "(ucast ?digit :: u64) = of_nat ?d" using digit by (metis of_nat_unat)
  then have "of_nat (V mod 10 ^ i) + (ucast ?digit :: u64) * of_nat (10 ^ i) =
      of_nat (V mod 10 ^ i + 10 ^ i * ?d)" by (simp add: ac_simps)
  also have "V mod 10 ^ i + 10 ^ i * ?d = V mod 10 ^ Suc i"
    using mod_mult2_eq [of V "10 ^ i" 10] by (simp add: ac_simps)
  finally have res: "of_nat (V mod 10 ^ i) + (ucast ?digit :: u64) * of_nat (10 ^ i) =
      of_nat (V mod 10 ^ Suc i)" .
  have "(of_nat (10 ^ i) :: u64) * 10 = of_nat (10 ^ Suc i)" by simp
  with le res have "read_bcd_loop who ?raw i (Suc n) (of_nat (V mod 10 ^ i)) (of_nat (10 ^ i)) =
      read_bcd_loop who ?raw (Suc i) n (of_nat (V mod 10 ^ Suc i)) (of_nat (10 ^ Suc i))"
    by (simp only: read_bcd_loop.simps Let_def if_False)
  with Suc.IH [of "Suc i"] Suc.prems show ?case by simp
qed

lemma read_bcd_loop_all:
  "n \<le> 16 \<Longrightarrow> V < 10 ^ n \<Longrightarrow> read_bcd_loop who (of_nat (bcd_nat n V)) 0 n 0 1 = Inr (of_nat V)"
  using read_bcd_loop_eq [of n 0 n who V] by simp

lemma bcd_digits_all:
  "unat v < 10 ^ n \<Longrightarrow> bcd_digits 0 n 0 v = (of_nat (bcd_nat n (unat v)), 0)"
  using bcd_digits_eq [of 0 0 n v] by simp

lemma bcd_raw_bits: "n \<le> 16 \<Longrightarrow> unat (of_nat (bcd_nat n v) :: u64) < 2 ^ (4 * n)"
  using bcd_nat_fits [of n v] bcd_nat_less [of n v] by (simp add: unat_of_nat_small power_mult)

lemma take_bit_small: "unat (x :: u64) < 2 ^ n \<Longrightarrow> take_bit n x = x"
  using unat_less_imp_bit [of x n] by (intro bit_word_eqI) (auto simp: bit_simps)

lemma write_bits_none: "write_bits v 0 w = Some w"
  by (simp add: write_bits_def)

definition bcd_raw :: "nat \<Rightarrow> u64 \<Rightarrow> u64" where
  "bcd_raw n v = of_nat (bcd_nat n (unat v))"

lemma read_bcd_front:
  assumes "reader_ok r" and "n mod 4 = 0" and "n \<le> 64" and "unat v < 10 ^ (n div 4)"
    and "reader_bits r = word_bits n (bcd_raw (n div 4) v) @ rest"
  shows "read_bcd n r = Some (Inr v, seek (bit_position r + n) r)"
proof (cases "n = 0")
  case True
  then show ?thesis using assms(1,4) by (simp add: read_bcd_def seek_bit_position unat_eq_0)
next
  case False
  have n: "4 * (n div 4) = n" "n div 4 \<le> 16" using assms(2,3) by auto
  have "take_bit n (bcd_raw (n div 4) v) = bcd_raw (n div 4) v"
    using bcd_raw_bits [OF n(2)] n(1) by (intro take_bit_small) (simp add: bcd_raw_def)
  with read_bits_front [OF assms(1,3,5)] False assms(2,3) n(2) read_bcd_loop_all [OF n(2) assms(4)]
  show ?thesis by (simp add: read_bcd_def bcd_raw_def)
qed

lemma write_bcd_raw:
  assumes "bw_error w = None" and "n mod 4 = 0" and "n \<le> 64" and "unat v < 10 ^ (n div 4)"
  shows "write_bcd v n w = write_bits (bcd_raw (n div 4) v) n w"
  using assms by (cases "n = 0") (auto simp: write_bcd_def bcd_digits_all bcd_raw_def write_bits_none Let_def)

definition bcd_signed_raw :: "nat \<Rightarrow> u64 \<Rightarrow> u64" where
  "bcd_signed_raw n v = signed_raw n (sint v < 0) (bcd_raw ((n - 1) div 4) (magnitude v))"

lemma read_bcd_signed_front:
  assumes "reader_ok r" and "5 \<le> n" and "(n - 1) mod 4 = 0" and "n \<le> 61"
    and "nat \<bar>sint v\<bar> < 10 ^ ((n - 1) div 4)"
    and "reader_bits r = word_bits n (bcd_signed_raw n v) @ rest"
  shows "read_bcd_signed n r = Some (Inr v, seek (bit_position r + n) r)"
proof -
  define k where "k = (n - 1) div 4"
  have n: "4 * k = n - 1" "k \<le> 15" using assms(3,4) by (auto simp: k_def)
  have k16: "k \<le> 16" using n(2) by simp
  have lt: "unat (magnitude v) < 10 ^ k" using assms(5) by (simp add: unat_magnitude k_def)
  have "unat (bcd_raw k (magnitude v)) < 2 ^ (n - 1)"
    using bcd_raw_bits [OF k16] n(1) by (simp add: bcd_raw_def)
  note raw = signed_raw_read [OF _ _ this, of "sint v < 0"]
  have loop: "read_bcd_loop who (bcd_raw k (magnitude v)) 0 k 0 1 = Inr (magnitude v)" for who
    using read_bcd_loop_all [OF k16 lt] by (simp add: bcd_raw_def)
  have "read_bits n r = Some (Inr (signed_raw n (sint v < 0) (bcd_raw k (magnitude v))), seek (bit_position r + n) r)"
    using read_bits_front [OF assms(1) _ assms(6)] assms(2,4) raw(1)
    by (simp add: bcd_signed_raw_def k_def)
  with assms(2-4) n(2) show ?thesis
    unfolding read_bcd_signed_def Let_def mask_u64(1) k_def [symmetric]
    using raw(2,3) loop signed_magnitude [of v] by simp
qed

lemma write_bcd_signed_raw:
  assumes "bw_error w = None" and "5 \<le> n" and "(n - 1) mod 4 = 0" and "n \<le> 61"
    and "nat \<bar>sint v\<bar> < 10 ^ ((n - 1) div 4)"
  shows "write_bcd_signed v n w = write_bits (bcd_signed_raw n v) n w"
proof -
  have "unat (magnitude v) < 10 ^ ((n - 1) div 4)" using assms(5) by (simp add: unat_magnitude)
  moreover have "\<not> (n - 1) div 4 > 15" using assms(4) by simp
  ultimately show ?thesis
    using assms(1-3) unfolding write_bcd_signed_def Let_def magnitude_def [symmetric]
    by (simp add: bcd_digits_all bcd_signed_raw_def bcd_raw_def signed_raw_def)
qed

section \<open>Byte-aligned integers\<close>

definition pad_at :: "nat \<Rightarrow> nat" where
  "pad_at p = (8 - p mod 8) mod 8"

lemma padding_pad_at: "padding w = pad_at (bw_bit_pos w)"
  by (simp add: padding_def pad_at_def)

lemma align_seek: "reader_ok r \<Longrightarrow> reader_align_to_byte r = seek (bit_position r + pad_at (bit_position r)) r"
  by (auto simp: reader_align_to_byte_def seek_def bit_position_def pad_at_def reader_ok_def)

lemma aligned_front:
  assumes "reader_ok r" and "reader_bits r = replicate (pad_at (bit_position r)) False @ bytes_bits bs @ rest"
  defines "p \<equiv> br_byte_pos (reader_align_to_byte r)"
  shows "take (length bs) (drop p (br_data r)) = bs" and "p + length bs \<le> length (br_data r)"
    and "(reader_align_to_byte r)\<lparr>br_byte_pos := p + length bs\<rparr> =
      seek (bit_position r + (pad_at (bit_position r) + 8 * length bs)) r"
proof -
  let ?q = "bit_position r + pad_at (bit_position r)"
  have pos: "?q = 8 * p" and bit0: "br_bit_pos (reader_align_to_byte r) = 0"
    using reader_align_to_byte_ok(2) [OF assms(1)] align_seek [OF assms(1)]
      bit_position_seek [of ?q r] by (simp_all add: p_def bit_position_def)
  have "bytes_bits (drop p (br_data r)) = drop (8 * p) (bytes_bits (br_data r))"
    by (simp add: drop_bytes_bits)
  also have "\<dots> = drop (pad_at (bit_position r)) (reader_bits r)"
    unfolding pos [symmetric] reader_bits_def drop_drop by (simp add: add.commute)
  also have "\<dots> = bytes_bits bs @ rest" unfolding assms(2) by simp
  finally have bits: "bytes_bits (drop p (br_data r)) = bytes_bits bs @ rest" .
  then have "take (8 * length bs) (bytes_bits (drop p (br_data r))) = bytes_bits bs" by simp
  then show "take (length bs) (drop p (br_data r)) = bs"
    by (intro bytes_bits_inj) (simp add: take_bytes_bits)
  from arg_cong [OF bits, of length] have "8 * length bs \<le> 8 * (length (br_data r) - p)" by simp
  moreover have "p \<le> length (br_data r)" using reader_aligned_byte_pos [OF assms(1)] by (simp add: p_def)
  ultimately show "p + length bs \<le> length (br_data r)" by simp
  have "reader_align_to_byte r = seek (8 * p) r" using align_seek [OF assms(1)] pos by simp
  then show "(reader_align_to_byte r)\<lparr>br_byte_pos := p + length bs\<rparr> =
      seek (bit_position r + (pad_at (bit_position r) + 8 * length bs)) r"
    using pos by (simp add: seek_def flip: add.assoc)
qed

text \<open>The byte-aligned reads of bytes that lie in front, in either byte order.\<close>

definition after_bytes :: "nat \<Rightarrow> BitReader \<Rightarrow> BitReader" where
  "after_bytes n r = seek (bit_position r + (pad_at (bit_position r) + 8 * n)) r"

definition bytes_in_front :: "bytes \<Rightarrow> bool list \<Rightarrow> BitReader \<Rightarrow> bool" where
  "bytes_in_front bs rest r \<longleftrightarrow>
     reader_ok r \<and> reader_bits r = replicate (pad_at (bit_position r)) False @ bytes_bits bs @ rest"

lemma in_frontD:
  assumes "bytes_in_front bs rest r" and "length bs = n"
  defines "p \<equiv> br_byte_pos (reader_align_to_byte r)"
  shows "take n (drop p (br_data r)) = bs" and "p + n \<le> length (br_data r)"
    and "(reader_align_to_byte r)\<lparr>br_byte_pos := p + n\<rparr> = after_bytes n r"
  using aligned_front [of r bs rest] assms by (auto simp: bytes_in_front_def after_bytes_def)

lemma read_u8_front:
  assumes "bytes_in_front [b] rest r"
  shows "read_u8 r = (Inr b, after_bytes 1 r)"
proof -
  note f = in_frontD [OF assms, of 1, simplified]
  have "br_data r ! br_byte_pos (reader_align_to_byte r) = b"
    using f(1,2) by (metis Suc_le_eq hd_drop_conv_nth list.sel(1) take_Suc take_eq_Nil2 zero_neq_one list.distinct(1) One_nat_def list.inject hd_take zero_less_one)
  with f(2,3) show ?thesis by (simp add: read_u8_def Let_def)
qed

lemma read_u16_front:
  "bytes_in_front (ordered_bytes e 2 v) rest r \<Longrightarrow> read_u16 e r = (Inr v, after_bytes 2 r)"
  using in_frontD [of "ordered_bytes e 2 v" rest r 2]
  by (simp add: read_u16_def Let_def io_read_assemble assemble_ordered_bytes)

lemma read_u32_front:
  "bytes_in_front (ordered_bytes e 4 v) rest r \<Longrightarrow> read_u32 e r = (Inr v, after_bytes 4 r)"
  using in_frontD [of "ordered_bytes e 4 v" rest r 4]
  by (simp add: read_u32_def Let_def io_read_assemble assemble_ordered_bytes)

lemma read_u64_front:
  "bytes_in_front (ordered_bytes e 8 v) rest r \<Longrightarrow> read_u64 e r = (Inr v, after_bytes 8 r)"
  using in_frontD [of "ordered_bytes e 8 v" rest r 8]
  by (simp add: read_u64_def Let_def io_read_assemble assemble_ordered_bytes)

lemma f48_of_48_bits: "take_bit 48 x = take_bit 48 y \<Longrightarrow> f48_to_f64 x = f48_to_f64 y"
proof -
  assume eq: "take_bit 48 x = take_bit 48 y"
  have "bit x k = bit y k" if "k < 48" for k
    using arg_cong [OF eq, of "\<lambda>z. bit z k"] that by (simp add: bit_take_bit_iff)
  then show ?thesis by (intro bit_word_eqI) (auto simp: f48_to_f64_def bit_simps)
qed

lemma read_f48_front:
  assumes "bytes_in_front (ordered_bytes e 6 (f64_to_f48 v)) rest r" and "take_bit 16 v = 0"
  shows "read_f48 e r = (Inr v, after_bytes 6 r)"
proof -
  let ?p = "br_byte_pos (reader_align_to_byte r)"
  note f = in_frontD [OF assms(1), of 6, simplified]
  have "take_bit 48 (io_read_u48 (br_data r) ?p e) = take_bit 48 (f64_to_f48 v)"
    using f(1,2) assemble_be_bytes [of 6 "f64_to_f48 v"] by (simp add: io_read_assemble ordered_bytes_in_order)
  then have "io_read_f48 (br_data r) ?p e = f48_to_f64 (f64_to_f48 v)"
    unfolding io_read_f48_def by (rule f48_of_48_bits)
  also have "\<dots> = v"
  proof (rule bit_word_eqI)
    fix k
    have "\<not> bit v k" if "k < 16"
      using arg_cong [OF assms(2), of "\<lambda>z. bit z k"] that by (simp add: bit_take_bit_iff)
    then show "bit (f48_to_f64 (f64_to_f48 v)) k = bit v k" if "k < LENGTH(64)"
      using that by (auto simp: f48_to_f64_of_f64 bit_simps)
  qed
  finally show ?thesis using f(2,3) by (simp add: read_f48_def Let_def)
qed

lemma read_bytes_front:
  assumes "bytes_in_front bs rest r"
  shows "read_bytes (length bs) r = Some (Inr bs, after_bytes (length bs) r)"
proof -
  note f = in_frontD [OF assms refl]
  have ok: "reader_ok r" using assms by (simp add: bytes_in_front_def)
  then have "length bs < 2 ^ 63" using f(2) by (simp add: reader_ok_def addressable_def)
  with aligned_sum_small [OF ok] f show ?thesis by (simp add: read_bytes_def Let_def subspan_def)
qed

section \<open>Fields and messages\<close>

datatype kind =
    K_bits nat | K_signed nat | K_bcd nat | K_bcd_signed nat | K_sign_magnitude nat
  | K_u8 | K_u16 Endian | K_u32 Endian | K_u64 Endian | K_f48 Endian | K_bytes nat | K_align

datatype field =
    F_bits nat u64 | F_signed nat u64 | F_bcd nat u64 | F_bcd_signed nat u64 | F_sign_magnitude nat u64
  | F_u8 u8 | F_u16 Endian u16 | F_u32 Endian u32 | F_u64 Endian u64 | F_f48 Endian u64
  | F_bytes bytes | F_align

primrec kind_of :: "field \<Rightarrow> kind" where
  "kind_of (F_bits n v) = K_bits n"
| "kind_of (F_signed n v) = K_signed n"
| "kind_of (F_bcd n v) = K_bcd n"
| "kind_of (F_bcd_signed n v) = K_bcd_signed n"
| "kind_of (F_sign_magnitude n v) = K_sign_magnitude n"
| "kind_of (F_u8 v) = K_u8"
| "kind_of (F_u16 e v) = K_u16 e"
| "kind_of (F_u32 e v) = K_u32 e"
| "kind_of (F_u64 e v) = K_u64 e"
| "kind_of (F_f48 e v) = K_f48 e"
| "kind_of (F_bytes bs) = K_bytes (length bs)"
| "kind_of F_align = K_align"

primrec encode_field :: "field \<Rightarrow> BitWriter \<Rightarrow> BitWriter option" where
  "encode_field (F_bits n v) w = write_bits v n w"
| "encode_field (F_signed n v) w = write_signed_bits v n w"
| "encode_field (F_bcd n v) w = write_bcd v n w"
| "encode_field (F_bcd_signed n v) w = write_bcd_signed v n w"
| "encode_field (F_sign_magnitude n v) w = write_sign_magnitude v n w"
| "encode_field (F_u8 v) w = Some (write_u8 v w)"
| "encode_field (F_u16 e v) w = Some (write_u16 v e w)"
| "encode_field (F_u32 e v) w = Some (write_u32 v e w)"
| "encode_field (F_u64 e v) w = Some (write_u64 v e w)"
| "encode_field (F_f48 e v) w = Some (write_f48 v e w)"
| "encode_field (F_bytes bs) w = Some (write_bytes bs w)"
| "encode_field F_align w = Some (writer_align_to_byte w)"

primrec decode_field :: "kind \<Rightarrow> BitReader \<Rightarrow> (field Result \<times> BitReader) option" where
  "decode_field (K_bits n) r = try_read (read_bits n r) (\<lambda>v. Inr (F_bits n v))"
| "decode_field (K_signed n) r = try_read (read_signed_bits n r) (\<lambda>v. Inr (F_signed n v))"
| "decode_field (K_bcd n) r = try_read (read_bcd n r) (\<lambda>v. Inr (F_bcd n v))"
| "decode_field (K_bcd_signed n) r = try_read (read_bcd_signed n r) (\<lambda>v. Inr (F_bcd_signed n v))"
| "decode_field (K_sign_magnitude n) r = try_read (read_sign_magnitude n r) (\<lambda>v. Inr (F_sign_magnitude n v))"
| "decode_field K_u8 r = try_read (Some (read_u8 r)) (\<lambda>v. Inr (F_u8 v))"
| "decode_field (K_u16 e) r = try_read (Some (read_u16 e r)) (\<lambda>v. Inr (F_u16 e v))"
| "decode_field (K_u32 e) r = try_read (Some (read_u32 e r)) (\<lambda>v. Inr (F_u32 e v))"
| "decode_field (K_u64 e) r = try_read (Some (read_u64 e r)) (\<lambda>v. Inr (F_u64 e v))"
| "decode_field (K_f48 e) r = try_read (Some (read_f48 e r)) (\<lambda>v. Inr (F_f48 e v))"
| "decode_field (K_bytes n) r = try_read (read_bytes n r) (\<lambda>v. Inr (F_bytes v))"
| "decode_field K_align r = Some (Inr F_align, reader_align_to_byte r)"

text \<open>What a field of the kind can represent.\<close>

primrec representable :: "field \<Rightarrow> bool" where
  "representable (F_bits n v) \<longleftrightarrow> n \<le> 64 \<and> unat v < 2 ^ n"
| "representable (F_signed n v) \<longleftrightarrow> 0 < n \<and> n \<le> 64 \<and> - (2 ^ (n - 1)) \<le> sint v \<and> sint v < 2 ^ (n - 1)"
| "representable (F_bcd n v) \<longleftrightarrow> n mod 4 = 0 \<and> n \<le> 64 \<and> unat v < 10 ^ (n div 4)"
| "representable (F_bcd_signed n v) \<longleftrightarrow>
     5 \<le> n \<and> (n - 1) mod 4 = 0 \<and> n \<le> 61 \<and> nat \<bar>sint v\<bar> < 10 ^ ((n - 1) div 4)"
| "representable (F_sign_magnitude n v) \<longleftrightarrow> 2 \<le> n \<and> n \<le> 64 \<and> nat \<bar>sint v\<bar> < 2 ^ (n - 1)"
| "representable (F_u8 v) \<longleftrightarrow> True"
| "representable (F_u16 e v) \<longleftrightarrow> True"
| "representable (F_u32 e v) \<longleftrightarrow> True"
| "representable (F_u64 e v) \<longleftrightarrow> True"
| "representable (F_f48 e v) \<longleftrightarrow> take_bit 16 v = 0"
| "representable (F_bytes bs) \<longleftrightarrow> True"
| "representable F_align \<longleftrightarrow> True"

text \<open>The bits of a field on the wire, given the bit position it starts at.\<close>

primrec field_bits :: "field \<Rightarrow> nat \<Rightarrow> bool list" where
  "field_bits (F_bits n v) p = word_bits n v"
| "field_bits (F_signed n v) p = word_bits n v"
| "field_bits (F_bcd n v) p = word_bits n (bcd_raw (n div 4) v)"
| "field_bits (F_bcd_signed n v) p = word_bits n (bcd_signed_raw n v)"
| "field_bits (F_sign_magnitude n v) p = word_bits n (signed_raw n (sint v < 0) (magnitude v))"
| "field_bits (F_u8 v) p = replicate (pad_at p) False @ bytes_bits [v]"
| "field_bits (F_u16 e v) p = replicate (pad_at p) False @ bytes_bits (ordered_bytes e 2 v)"
| "field_bits (F_u32 e v) p = replicate (pad_at p) False @ bytes_bits (ordered_bytes e 4 v)"
| "field_bits (F_u64 e v) p = replicate (pad_at p) False @ bytes_bits (ordered_bytes e 8 v)"
| "field_bits (F_f48 e v) p = replicate (pad_at p) False @ bytes_bits (ordered_bytes e 6 (f64_to_f48 v))"
| "field_bits (F_bytes bs) p = replicate (pad_at p) False @ bytes_bits bs"
| "field_bits F_align p = replicate (pad_at p) False"

lemma encode_field_appends:
  assumes "representable f" and "writer_ok w" and "bw_error w = None"
    and "fits (length (field_bits f (bw_bit_pos w))) w"
  shows "\<exists>w'. encode_field f w = Some w' \<and> appends (field_bits f (bw_bit_pos w)) w w'"
proof (cases f)
  case (F_bits n v)
  with assms write_bits_appends [OF assms(2,3)] show ?thesis by simp
next
  case (F_signed n v)
  with assms write_bits_appends [OF assms(2,3)] show ?thesis by (simp add: write_signed_bits_def)
next
  case (F_bcd n v)
  with assms write_bits_appends [OF assms(2,3)] show ?thesis by (simp add: write_bcd_raw)
next
  case (F_bcd_signed n v)
  with assms write_bits_appends [OF assms(2,3)] show ?thesis by (simp add: write_bcd_signed_raw)
next
  case (F_sign_magnitude n v)
  with assms write_bits_appends [OF assms(2,3)] show ?thesis by (simp add: write_sign_magnitude_raw)
qed (use assms write_u8_appends write_u16_appends write_u32_appends write_u64_appends write_f48_appends
    write_bytes_appends align_appends(1) in \<open>auto simp: padding_pad_at\<close>)

lemma decode_field_front:
  assumes "representable f" and "reader_ok r" and "reader_bits r = field_bits f (bit_position r) @ rest"
  shows "decode_field (kind_of f) r =
    Some (Inr f, seek (bit_position r + length (field_bits f (bit_position r))) r)"
proof (cases f)
  case (F_bits n v)
  with assms read_bits_front [OF assms(2)] show ?thesis by (simp add: take_bit_small)
next
  case (F_signed n v)
  with assms read_signed_bits_front [OF assms(2)] signed_take_bit_range show ?thesis by simp
next
  case (F_bcd n v)
  with assms read_bcd_front [OF assms(2), of n v rest] show ?thesis by simp
next
  case (F_bcd_signed n v)
  with assms read_bcd_signed_front [OF assms(2), of n v rest] show ?thesis by simp
next
  case (F_sign_magnitude n v)
  with assms read_sign_magnitude_front [OF assms(2), of n v rest] show ?thesis by simp
next
  case (F_u8 v)
  with assms read_u8_front [of v rest r] show ?thesis by (simp add: bytes_in_front_def after_bytes_def)
next
  case (F_u16 e v)
  with assms read_u16_front [of e v rest r] show ?thesis by (simp add: bytes_in_front_def after_bytes_def)
next
  case (F_u32 e v)
  with assms read_u32_front [of e v rest r] show ?thesis by (simp add: bytes_in_front_def after_bytes_def)
next
  case (F_u64 e v)
  with assms read_u64_front [of e v rest r] show ?thesis by (simp add: bytes_in_front_def after_bytes_def)
next
  case (F_f48 e v)
  with assms read_f48_front [of e v rest r] show ?thesis by (simp add: bytes_in_front_def after_bytes_def)
next
  case (F_bytes bs)
  with assms read_bytes_front [of bs rest r] show ?thesis by (simp add: bytes_in_front_def after_bytes_def)
next
  case F_align
  with assms align_seek [OF assms(2)] show ?thesis by simp
qed

text \<open>
  The interface between a codec's two directions: encoding appends the bits of a value at the
  writer's position, decoding a value's bits at the reader's position gives the value back.
  Messages are built from it once and for all.
\<close>

fun message_bits :: "('f \<Rightarrow> nat \<Rightarrow> bool list) \<Rightarrow> 'f list \<Rightarrow> nat \<Rightarrow> bool list" where
  "message_bits bits [] p = []"
| "message_bits bits (f # fs) p = bits f p @ message_bits bits fs (p + length (bits f p))"

fun encode_all :: "('f \<Rightarrow> BitWriter \<Rightarrow> BitWriter option) \<Rightarrow> 'f list \<Rightarrow> BitWriter \<Rightarrow> BitWriter option" where
  "encode_all enc [] w = Some w"
| "encode_all enc (f # fs) w = Option.bind (enc f w) (encode_all enc fs)"

fun decode_all ::
  "('k \<Rightarrow> BitReader \<Rightarrow> ('f Result \<times> BitReader) option) \<Rightarrow> 'k list \<Rightarrow> BitReader \<Rightarrow>
   ('f list Result \<times> BitReader) option" where
  "decode_all dec [] r = Some (Inr [], r)"
| "decode_all dec (k # ks) r =
     (case dec k r of
        None \<Rightarrow> None
      | Some (Inl e, r) \<Rightarrow> Some (Inl e, r)
      | Some (Inr f, r) \<Rightarrow>
          (case decode_all dec ks r of
             None \<Rightarrow> None
           | Some (Inl e, r) \<Rightarrow> Some (Inl e, r)
           | Some (Inr fs, r) \<Rightarrow> Some (Inr (f # fs), r)))"

locale wire_format =
  fixes enc :: "'f \<Rightarrow> BitWriter \<Rightarrow> BitWriter option"
    and dec :: "'k \<Rightarrow> BitReader \<Rightarrow> ('f Result \<times> BitReader) option"
    and kind :: "'f \<Rightarrow> 'k" and rep :: "'f \<Rightarrow> bool" and bits :: "'f \<Rightarrow> nat \<Rightarrow> bool list"
  assumes enc_appends: "rep f \<Longrightarrow> writer_ok w \<Longrightarrow> bw_error w = None \<Longrightarrow>
      fits (length (bits f (bw_bit_pos w))) w \<Longrightarrow>
      \<exists>w'. enc f w = Some w' \<and> appends (bits f (bw_bit_pos w)) w w'"
    and dec_front: "rep f \<Longrightarrow> reader_ok r \<Longrightarrow> reader_bits r = bits f (bit_position r) @ rest \<Longrightarrow>
      dec (kind f) r = Some (Inr f, seek (bit_position r + length (bits f (bit_position r))) r)"
begin

lemma encode_all_appends:
  "list_all rep fs \<Longrightarrow> writer_ok w \<Longrightarrow> bw_error w = None \<Longrightarrow>
   fits (length (message_bits bits fs (bw_bit_pos w))) w \<Longrightarrow>
   \<exists>w'. encode_all enc fs w = Some w' \<and> appends (message_bits bits fs (bw_bit_pos w)) w w'"
proof (induction fs arbitrary: w)
  case Nil
  then show ?case by (simp add: appends_refl)
next
  case (Cons f fs)
  have "fits (length (bits f (bw_bit_pos w))) w" using Cons.prems(4) by (simp add: fits_def)
  with enc_appends [of f w] Cons.prems obtain w'
    where w': "enc f w = Some w'" "appends (bits f (bw_bit_pos w)) w w'" by auto
  have pos: "bw_bit_pos w' = bw_bit_pos w + length (bits f (bw_bit_pos w))"
    by (rule appends_bit_pos) (fact Cons.prems w')+
  have "fits (length (message_bits bits fs (bw_bit_pos w'))) w'"
    using Cons.prems(4) pos by (simp add: fits_def add.assoc)
  with Cons.IH [of w'] Cons.prems w' obtain w''
    where "encode_all enc fs w' = Some w''" "appends (message_bits bits fs (bw_bit_pos w')) w' w''"
    by (auto simp: appends_def)
  with w' pos appends_trans [OF w'(2)] show ?case by auto
qed

lemma decode_all_front:
  "list_all rep fs \<Longrightarrow> reader_ok r \<Longrightarrow> reader_bits r = message_bits bits fs (bit_position r) @ rest \<Longrightarrow>
   decode_all dec (map kind fs) r =
     Some (Inr fs, seek (bit_position r + length (message_bits bits fs (bit_position r))) r)"
proof (induction fs arbitrary: r)
  case Nil
  then show ?case by (simp add: seek_bit_position)
next
  case (Cons f fs)
  let ?n = "length (bits f (bit_position r))"
  let ?r = "seek (bit_position r + ?n) r"
  have "dec (kind f) r = Some (Inr f, ?r)" using Cons.prems by (intro dec_front) auto
  moreover have "reader_ok ?r"
    using Cons.prems bits_left [of r] by (intro reader_ok_seek) auto
  moreover have "reader_bits ?r = message_bits bits fs (bit_position ?r) @ rest"
    using Cons.prems by (simp add: reader_bits_seek bit_position_seek)
  ultimately show ?case
    using Cons.IH [of ?r] Cons.prems by (simp add: reader_simps add.assoc)
qed

theorem round_trip:
  assumes "list_all rep fs" and "length (message_bits bits fs 0) < 2 ^ 62"
  shows "\<exists>w d. encode_all enc fs mk_writer = Some w \<and> finish w = (Inr d, mk_writer)
    \<and> (\<exists>r. decode_all dec (map kind fs) (mk_reader d) = Some (Inr fs, r) \<and> remaining_bits r < 8)"
proof -
  let ?m = "message_bits bits fs 0"
  have "fits (length ?m) mk_writer" using assms(2) by (simp add: fits_def size_mod_def)
  with encode_all_appends [OF assms(1), of mk_writer] obtain w
    where w: "encode_all enc fs mk_writer = Some w" "appends ?m mk_writer w" by auto
  then obtain d where d: "finish w = (Inr d, mk_writer)" "bytes_bits d = ?m @ replicate (padding w) False"
    using finish_ok [of w] by (auto simp: appends_def)
  have "8 * length d = length ?m + padding w" using arg_cong [OF d(2), of length] by simp
  then have "addressable d" using assms(2) padding_le [of w] by (simp add: addressable_def)
  then have ok: "reader_ok (mk_reader d)" by (rule reader_ok_mk_reader)
  moreover have p0: "bit_position (mk_reader d) = 0" by (simp add: mk_reader_def bit_position_def)
  ultimately have dec: "decode_all dec (map kind fs) (mk_reader d) = Some (Inr fs, seek (length ?m) (mk_reader d))"
    using decode_all_front [OF assms(1) ok, of "replicate (padding w) False"] d(2) by simp
  have "reader_ok (seek (length ?m) (mk_reader d))"
    using ok \<open>8 * length d = length ?m + padding w\<close> by (intro reader_ok_seek) (simp_all add: mk_reader_def)
  then have "remaining_bits (seek (length ?m) (mk_reader d)) = padding w"
    using reader_bits_seek [of "mk_reader d" "length ?m"] p0 d(2) by (simp add: remaining_bits_eq)
  with w(1) d(1) dec padding_le [of w] show ?thesis by force
qed

end

interpretation fields: wire_format encode_field decode_field kind_of representable field_bits
  by unfold_locales (fact encode_field_appends, fact decode_field_front)

section \<open>Decoding arbitrary input\<close>

text \<open>The counts of bulk fields come from length fields of at most 32 bits.\<close>

primrec kind_bounded :: "kind \<Rightarrow> bool" where
  "kind_bounded (K_bits n) \<longleftrightarrow> True"
| "kind_bounded (K_signed n) \<longleftrightarrow> True"
| "kind_bounded (K_bcd n) \<longleftrightarrow> True"
| "kind_bounded (K_bcd_signed n) \<longleftrightarrow> True"
| "kind_bounded (K_sign_magnitude n) \<longleftrightarrow> True"
| "kind_bounded K_u8 \<longleftrightarrow> True"
| "kind_bounded (K_u16 e) \<longleftrightarrow> True"
| "kind_bounded (K_u32 e) \<longleftrightarrow> True"
| "kind_bounded (K_u64 e) \<longleftrightarrow> True"
| "kind_bounded (K_f48 e) \<longleftrightarrow> True"
| "kind_bounded (K_bytes n) \<longleftrightarrow> n < 2 ^ 32"
| "kind_bounded K_align \<longleftrightarrow> True"

lemma read_bytes_op: "n < 2 ^ 32 \<Longrightarrow> reader_op (read_bytes n)"
  by (rule reader_op.intro) (auto intro: read_bytes_runs)

lemma align_op: "reader_op (\<lambda>r. Some (Inr f, reader_align_to_byte r))"
  by (rule reader_op.intro) (simp add: reader_align_to_byte_ok)

lemma reader_op_cong: "(\<And>r. op r = op' r) \<Longrightarrow> reader_op op' \<Longrightarrow> reader_op op"
  by (simp add: reader_op_def)

lemmas decode_field_cong = decode_field.simps [THEN reader_op_cong]

lemmas field_ops = bits.reader_op_axioms signed_bits.reader_op_axioms bcd.reader_op_axioms
  bcd_signed.reader_op_axioms sign_magnitude.reader_op_axioms u8.reader_op_axioms u16.reader_op_axioms
  u32.reader_op_axioms u64.reader_op_axioms f48.reader_op_axioms align_op read_bytes_op

lemma decode_field_op: "kind_bounded k \<Longrightarrow> reader_op (decode_field k)"
  by (cases k) (simp_all only: kind_bounded.simps, (rule decode_field_cong, rule reader_op_try_read field_ops,
    (rule field_ops | assumption)?, assumption?)+)

lemma decode_all_runs:
  assumes "\<And>k. ok k \<Longrightarrow> reader_op (dec k)"
  shows "list_all ok ks \<Longrightarrow> reader_ok r \<Longrightarrow> \<exists>res r'. decode_all dec ks r = Some (res, r') \<and> reads_on r r'"
proof (induction ks arbitrary: r)
  case Nil
  then show ?case by (simp add: reads_on_refl)
next
  case (Cons k ks)
  then obtain res r' where k: "dec k r = Some (res, r')" "reads_on r r'"
    using reader_op.runs [OF assms, of k r] by auto
  show ?case
  proof (cases res)
    case (Inl e)
    with k show ?thesis by auto
  next
    case (Inr f)
    have "reader_ok r'" using k by (simp add: reads_on_def)
    with Cons.IH [of r'] Cons.prems obtain res' r''
      where "decode_all dec ks r' = Some (res', r'')" "reads_on r' r''" by auto
    with k Inr show ?thesis by (cases res') (auto intro: reads_on_trans)
  qed
qed

section \<open>Properties\<close>

text \<open>
  C1: whatever is written is read back.  For every sequence of representable fields, in any mix of
  bit fields, signed, BCD and sign-magnitude numbers, aligned integers of both byte orders, 48-bit
  floats, raw bytes and alignments, encoding succeeds, and decoding the finished buffer by the fields'
  kinds gives the same fields and leaves only the padding of the last byte.
\<close>

theorem message_round_trip:
  assumes "list_all representable fs" and "length (message_bits field_bits fs 0) < 2 ^ 62"
  shows "\<exists>w d. encode_all encode_field fs mk_writer = Some w \<and> finish w = (Inr d, mk_writer) \<and>
    (\<exists>r. decode_all decode_field (map kind_of fs) (mk_reader d) = Some (Inr fs, r) \<and> remaining_bits r < 8)"
  using assms by (rule fields.round_trip)

definition example_fields :: "field list" where
  "example_fields = [F_bits 3 5, F_bcd 12 407, F_signed 7 (- 12), F_u32 Little 0xCAFEBABE, F_sign_magnitude 9 (- 200),
     F_bcd_signed 9 (- 42), F_bytes [1, 2, 3], F_bits 1 1]"

theorem message_round_trip_witness:
  "\<exists>w d. encode_all encode_field example_fields mk_writer = Some w \<and> finish w = (Inr d, mk_writer) \<and>
    (\<exists>r. decode_all decode_field (map kind_of example_fields) (mk_reader d) = Some (Inr example_fields, r) \<and>
      remaining_bits r < 8)"
  by (rule message_round_trip) (simp_all add: example_fields_def pad_at_def)



end
