(* ===== verification/String_Encoding.thy ===== *)
theory String_Encoding
  imports Conduit_Prelude
begin

text \<open>
  Character encodings of fixed strings: \<open>include/conduit/string/encoding.hpp\<close>.  The two lookup
  tables are the arrays of the header; a \<open>char\<close> is read as its \<open>uint8_t\<close> value.
\<close>

unbundle bit_operations_syntax

section \<open>Tables and conversions\<close>

datatype Encoding = ASCII | IA5 | EBCDIC | UTF8

definition ebcdic_to_ascii :: bytes where
  "ebcdic_to_ascii =
    [0x00, 0x01, 0x02, 0x03, 0x1A, 0x09, 0x1A, 0x7F,
     0x1A, 0x1A, 0x1A, 0x0B, 0x0C, 0x0D, 0x0E, 0x0F,
     0x10, 0x11, 0x12, 0x13, 0x1A, 0x0A, 0x08, 0x1A,
     0x18, 0x19, 0x1A, 0x1A, 0x1C, 0x1D, 0x1E, 0x1F,
     0x1A, 0x1A, 0x1A, 0x1A, 0x1A, 0x0A, 0x17, 0x1B,
     0x1A, 0x1A, 0x1A, 0x1A, 0x1A, 0x05, 0x06, 0x07,
     0x1A, 0x1A, 0x16, 0x1A, 0x1A, 0x1A, 0x1A, 0x04,
     0x1A, 0x1A, 0x1A, 0x1A, 0x14, 0x15, 0x1A, 0x1A,
     0x20, 0xA0, 0xE2, 0xE4, 0xE0, 0xE1, 0xE3, 0xE5,
     0xE7, 0xF1, 0xA2, 0x2E, 0x3C, 0x28, 0x2B, 0x7C,
     0x26, 0xE9, 0xEA, 0xEB, 0xE8, 0xED, 0xEE, 0xEF,
     0xEC, 0xDF, 0x21, 0x24, 0x2A, 0x29, 0x3B, 0xAC,
     0x2D, 0x2F, 0xC2, 0xC4, 0xC0, 0xC1, 0xC3, 0xC5,
     0xC7, 0xD1, 0xA6, 0x2C, 0x25, 0x5F, 0x3E, 0x3F,
     0xF8, 0xC9, 0xCA, 0xCB, 0xC8, 0xCD, 0xCE, 0xCF,
     0xCC, 0x60, 0x3A, 0x23, 0x40, 0x27, 0x3D, 0x22,
     0xD8, 0x61, 0x62, 0x63, 0x64, 0x65, 0x66, 0x67,
     0x68, 0x69, 0xAB, 0xBB, 0xF0, 0xFD, 0xFE, 0xB1,
     0xB0, 0x6A, 0x6B, 0x6C, 0x6D, 0x6E, 0x6F, 0x70,
     0x71, 0x72, 0xAA, 0xBA, 0xE6, 0xB8, 0xC6, 0xA4,
     0xB5, 0x7E, 0x73, 0x74, 0x75, 0x76, 0x77, 0x78,
     0x79, 0x7A, 0xA1, 0xBF, 0xD0, 0x5B, 0xDE, 0xAE,
     0x5E, 0xA3, 0xA5, 0xB7, 0xA9, 0xA7, 0xB6, 0xBC,
     0xBD, 0xBE, 0xDD, 0xA8, 0xAF, 0x5D, 0xB4, 0xD7,
     0x7B, 0x41, 0x42, 0x43, 0x44, 0x45, 0x46, 0x47,
     0x48, 0x49, 0xAD, 0xF4, 0xF6, 0xF2, 0xF3, 0xF5,
     0x7D, 0x4A, 0x4B, 0x4C, 0x4D, 0x4E, 0x4F, 0x50,
     0x51, 0x52, 0xB9, 0xFB, 0xFC, 0xF9, 0xFA, 0xFF,
     0x5C, 0xF7, 0x53, 0x54, 0x55, 0x56, 0x57, 0x58,
     0x59, 0x5A, 0xB2, 0xD4, 0xD6, 0xD2, 0xD3, 0xD5,
     0x30, 0x31, 0x32, 0x33, 0x34, 0x35, 0x36, 0x37,
     0x38, 0x39, 0xB3, 0xDB, 0xDC, 0xD9, 0xDA, 0x9F]"

definition ascii_to_ebcdic :: bytes where
  "ascii_to_ebcdic =
    [0x00, 0x01, 0x02, 0x03, 0x37, 0x2D, 0x2E, 0x2F,
     0x16, 0x05, 0x25, 0x0B, 0x0C, 0x0D, 0x0E, 0x0F,
     0x10, 0x11, 0x12, 0x13, 0x3C, 0x3D, 0x32, 0x26,
     0x18, 0x19, 0x3F, 0x27, 0x1C, 0x1D, 0x1E, 0x1F,
     0x40, 0x5A, 0x7F, 0x7B, 0x5B, 0x6C, 0x50, 0x7D,
     0x4D, 0x5D, 0x5C, 0x4E, 0x6B, 0x60, 0x4B, 0x61,
     0xF0, 0xF1, 0xF2, 0xF3, 0xF4, 0xF5, 0xF6, 0xF7,
     0xF8, 0xF9, 0x7A, 0x5E, 0x4C, 0x7E, 0x6E, 0x6F,
     0x7C, 0xC1, 0xC2, 0xC3, 0xC4, 0xC5, 0xC6, 0xC7,
     0xC8, 0xC9, 0xD1, 0xD2, 0xD3, 0xD4, 0xD5, 0xD6,
     0xD7, 0xD8, 0xD9, 0xE2, 0xE3, 0xE4, 0xE5, 0xE6,
     0xE7, 0xE8, 0xE9, 0xAD, 0xE0, 0xBD, 0xB0, 0x6D,
     0x79, 0x81, 0x82, 0x83, 0x84, 0x85, 0x86, 0x87,
     0x88, 0x89, 0x91, 0x92, 0x93, 0x94, 0x95, 0x96,
     0x97, 0x98, 0x99, 0xA2, 0xA3, 0xA4, 0xA5, 0xA6,
     0xA7, 0xA8, 0xA9, 0xC0, 0x4F, 0xD0, 0xA1, 0x07,
     0x20, 0x21, 0x22, 0x23, 0x24, 0x15, 0x06, 0x17,
     0x28, 0x29, 0x2A, 0x2B, 0x2C, 0x09, 0x0A, 0x1B,
     0x30, 0x31, 0x1A, 0x33, 0x34, 0x35, 0x36, 0x08,
     0x38, 0x39, 0x3A, 0x3B, 0x04, 0x14, 0x3E, 0xFF,
     0x41, 0xAA, 0x4A, 0xB1, 0x9F, 0xB2, 0x6A, 0xB5,
     0xBB, 0xB4, 0x9A, 0x8A, 0xB0, 0xCA, 0xAF, 0xBC,
     0x90, 0x8F, 0xEA, 0xFA, 0xBE, 0xA0, 0xB6, 0xB3,
     0x9D, 0xDA, 0x9B, 0x8B, 0xB7, 0xB8, 0xB9, 0xAB,
     0x64, 0x65, 0x62, 0x66, 0x63, 0x67, 0x9E, 0x68,
     0x74, 0x71, 0x72, 0x73, 0x78, 0x75, 0x76, 0x77,
     0xAC, 0x69, 0xED, 0xEE, 0xEB, 0xEF, 0xEC, 0xBF,
     0x80, 0xFD, 0xFE, 0xFB, 0xFC, 0xBA, 0xAE, 0x59,
     0x44, 0x45, 0x42, 0x46, 0x43, 0x47, 0x9C, 0x48,
     0x54, 0x51, 0x52, 0x53, 0x58, 0x55, 0x56, 0x57,
     0x8C, 0x49, 0xCD, 0xCE, 0xCB, 0xCF, 0xCC, 0xE1,
     0x70, 0xDD, 0xDE, 0xDB, 0xDC, 0x8D, 0x8E, 0xDF]"

text \<open>The conversions between \<open>char\<close> and \<open>uint8_t\<close>.\<close>

definition byte_of :: "char \<Rightarrow> u8" where
  "byte_of c = of_nat (of_char c)"

definition char_of_byte :: "u8 \<Rightarrow> char" where
  "char_of_byte b = char_of (unat b)"

definition to_ascii :: "string \<Rightarrow> Encoding \<Rightarrow> string" where
  "to_ascii input from =
     (case from of
        ASCII \<Rightarrow> input
      | UTF8 \<Rightarrow> input
      | IA5 \<Rightarrow> map (\<lambda>c. char_of_byte (byte_of c AND 0x7F)) input
      | EBCDIC \<Rightarrow> map (\<lambda>c. char_of_byte (ebcdic_to_ascii ! unat (byte_of c))) input)"

definition from_ascii :: "string \<Rightarrow> Encoding \<Rightarrow> string" where
  "from_ascii input to =
     (case to of
        ASCII \<Rightarrow> input
      | UTF8 \<Rightarrow> input
      | IA5 \<Rightarrow> map (\<lambda>c. char_of_byte (byte_of c AND 0x7F)) input
      | EBCDIC \<Rightarrow> map (\<lambda>c. char_of_byte (ascii_to_ebcdic ! unat (byte_of c))) input)"

section \<open>Both directions\<close>

lemma unat_byte_of [simp]: "unat (byte_of c) = of_char c"
  by (simp add: byte_of_def unat_of_nat_small)

lemma byte_of_char_of_byte [simp]: "byte_of (char_of_byte b) = b"
proof -
  have "unat b mod 256 = unat b" using unsigned_less [of b, where ?'a = nat] by simp
  then show ?thesis by (simp add: byte_of_def char_of_byte_def)
qed

lemma of_char_char_of_byte [simp]: "(of_char (char_of_byte b) :: nat) = unat b"
  by (metis byte_of_char_of_byte unat_byte_of)

lemma char_of_byte_of [simp]: "char_of_byte (byte_of c) = c"
  by (simp add: char_of_byte_def)

lemma tables_length: "length ebcdic_to_ascii = 256" "length ascii_to_ebcdic = 256"
  by (simp_all add: ebcdic_to_ascii_def ascii_to_ebcdic_def)

lemma tables_inverse_7bit:
  "list_all (\<lambda>n. ebcdic_to_ascii ! unat (ascii_to_ebcdic ! n) = of_nat n) [0..<128]"
  by code_simp

definition is_7bit :: "string \<Rightarrow> bool" where
  "is_7bit s \<longleftrightarrow> list_all (\<lambda>c. (of_char c :: nat) < 128) s"

lemma ebcdic_char:
  "(of_char c :: nat) < 128 \<Longrightarrow> ebcdic_to_ascii ! unat (ascii_to_ebcdic ! of_char c) = byte_of c"
  using tables_inverse_7bit by (simp add: list_all_iff byte_of_def)

lemma ia5_char: "(of_char c :: nat) < 128 \<Longrightarrow> byte_of c AND 0x7F = byte_of c"
proof -
  assume "(of_char c :: nat) < 128"
  then have "unat (byte_of c) < 2 ^ 7" by simp
  then have "take_bit 7 (byte_of c) = byte_of c"
    using unat_less_imp_bit [of "byte_of c" 7] by (intro bit_word_eqI) (auto simp: bit_simps)
  then show ?thesis by (simp add: take_bit_eq_mask mask_eq_exp_minus_1)
qed

text \<open>C28: every 7-bit string survives encoding to any wire encoding and decoding back.\<close>

theorem ascii_round_trip: "is_7bit s \<Longrightarrow> to_ascii (from_ascii s e) e = s"
  by (cases e) (auto simp: to_ascii_def from_ascii_def is_7bit_def list_all_iff ebcdic_char ia5_char
      intro!: map_idI)

theorem ascii_round_trip_witness:
  "is_7bit ''AF-447 OK'' \<and> to_ascii (from_ascii ''AF-447 OK'' EBCDIC) EBCDIC = ''AF-447 OK''"
  using ascii_round_trip [of "''AF-447 OK''" EBCDIC] by (simp add: is_7bit_def)


text \<open>No conversion changes the length of a string, so fixed-width string fields keep their width.\<close>

lemma conversion_length: "length (to_ascii s e) = length s \<and> length (from_ascii s e) = length s"
  by (cases e) (simp_all add: to_ascii_def from_ascii_def)

end
