(* ===== verification/Handler_Registry.thy ===== *)
theory Handler_Registry
  imports Conduit_Error
begin

text \<open>
  Message handlers and their dispatch: \<open>include/conduit/transceiver/handler.hpp\<close>,
  \<open>include/conduit/transceiver/message_handler.hpp\<close> and \<open>src/transceiver/handler.cpp\<close>.

  A handler is user code, so a callback is an argument of the model: a function that takes its
  argument and the state of the world \<open>'w\<close>, changes the world, and may throw.  An empty
  \<open>std::function\<close> is \<open>None\<close>, and calling it throws.  \<open>std::any\<close> is the type \<open>'p\<close> of payloads; a typed
  handler comes with the cast to its own message type.  Every member function of the registry holds the
  registry's lock for its whole effect; \<open>dispatch\<close> holds it while it selects and runs the selected
  callbacks without it, so a registration made by a callback takes effect for the next message.

  The locale \<open>keyed_store\<close> is what the registry asks of its tables.  It is interpreted for the table of
  each peer and for the global table, and its lemma on repeated insertion is what both overloads of
  \<open>install_handler\<close> rest on.
\<close>

section \<open>Peers and callbacks\<close>

datatype PeerId = PeerId (peer_value: u32)

definition no_peer :: PeerId where
  "no_peer = PeerId 0"

definition peer_valid :: "PeerId \<Rightarrow> bool" where
  "peer_valid p = (peer_value p \<noteq> 0)"

datatype thrown = BadAnyCast | BadFunctionCall | StdException string | UnknownException

type_synonym ('x, 'w) callback = "'x \<Rightarrow> 'w \<Rightarrow> thrown option \<times> 'w"
type_synonym ('x, 'w) std_function = "('x, 'w) callback option"

definition call :: "('x, 'w) std_function \<Rightarrow> ('x, 'w) callback" where
  "call f x w = (case f of None \<Rightarrow> (Some BadFunctionCall, w) | Some g \<Rightarrow> g x w)"

lemma call_simps [simp]: "call (Some g) = g" "call None x w = (Some BadFunctionCall, w)"
  by (simp_all add: call_def fun_eq_iff)

section \<open>Handlers\<close>

record ('p, 'w) ErasedHandler =
  eh_invoke :: "('p, 'w) callback"
  eh_type_id :: u64

definition erased_typed :: "u64 \<Rightarrow> ('p \<Rightarrow> 't option) \<Rightarrow> ('t, 'w) std_function \<Rightarrow> ('p, 'w) ErasedHandler" where
  "erased_typed TYPE_ID any_cast cb =
     \<lparr>eh_invoke = (\<lambda>payload w. case any_cast payload of
                                  None \<Rightarrow> (Some BadAnyCast, w)
                                | Some v \<Rightarrow> call cb v w),
      eh_type_id = TYPE_ID\<rparr>"

definition erased_raw :: "u64 \<Rightarrow> ('p, 'w) std_function \<Rightarrow> ('p, 'w) ErasedHandler" where
  "erased_raw type_id invoke = \<lparr>eh_invoke = call invoke, eh_type_id = type_id\<rparr>"

type_synonym ('p, 'w) CatchAllFn = "(u64 \<times> 'p, 'w) std_function"
type_synonym ('p, 'w) RawCatchAllFn = "(PeerId \<times> u64 \<times> 'p \<times> bytes, 'w) std_function"

record ('p, 'w) MessageHandler =
  mh_handlers :: "('p, 'w) ErasedHandler list"
  mh_catch_all :: "('p, 'w) CatchAllFn"

definition mk_message_handler :: "('p, 'w) MessageHandler" where
  "mk_message_handler = \<lparr>mh_handlers = [], mh_catch_all = None\<rparr>"

definition mh_on ::
  "u64 \<Rightarrow> ('p \<Rightarrow> 't option) \<Rightarrow> ('t, 'w) std_function \<Rightarrow> ('p, 'w) MessageHandler \<Rightarrow> ('p, 'w) MessageHandler" where
  "mh_on TYPE_ID any_cast cb mh = mh\<lparr>mh_handlers := mh_handlers mh @ [erased_typed TYPE_ID any_cast cb]\<rparr>"

primrec mh_on_group ::
  "u64 list \<Rightarrow> ('p, 'w) CatchAllFn \<Rightarrow> ('p, 'w) MessageHandler \<Rightarrow> ('p, 'w) MessageHandler" where
  "mh_on_group [] cb mh = mh"
| "mh_on_group (tid # type_ids) cb mh =
     mh_on_group type_ids cb
       (mh\<lparr>mh_handlers := mh_handlers mh @ [erased_raw tid (Some (\<lambda>p. call cb (tid, p)))]\<rparr>)"

definition mh_on_any :: "('p, 'w) CatchAllFn \<Rightarrow> ('p, 'w) MessageHandler \<Rightarrow> ('p, 'w) MessageHandler" where
  "mh_on_any cb mh = mh\<lparr>mh_catch_all := cb\<rparr>"

section \<open>The registry\<close>

type_synonym HandlerKey = "PeerId \<times> u64"

record ('p, 'w) HandlerRegistry =
  hr_per_peer_handlers :: "HandlerKey \<rightharpoonup> ('p, 'w) ErasedHandler"
  hr_global_handlers :: "u64 \<rightharpoonup> ('p, 'w) ErasedHandler"
  hr_per_peer_catch_all :: "u32 \<rightharpoonup> ('p, 'w) CatchAllFn"
  hr_catch_all :: "('p, 'w) CatchAllFn option"
  hr_raw_catch_all :: "('p, 'w) RawCatchAllFn option"

definition mk_registry :: "('p, 'w) HandlerRegistry" where
  "mk_registry = \<lparr>hr_per_peer_handlers = Map.empty, hr_global_handlers = Map.empty,
     hr_per_peer_catch_all = Map.empty, hr_catch_all = None, hr_raw_catch_all = None\<rparr>"

definition register_handler ::
  "PeerId \<Rightarrow> ('p, 'w) ErasedHandler \<Rightarrow> ('p, 'w) HandlerRegistry \<Rightarrow> ('p, 'w) HandlerRegistry" where
  "register_handler peer h r =
     r\<lparr>hr_per_peer_handlers := (hr_per_peer_handlers r)((peer, eh_type_id h) \<mapsto> h)\<rparr>"

definition register_handler_all ::
  "('p, 'w) ErasedHandler \<Rightarrow> ('p, 'w) HandlerRegistry \<Rightarrow> ('p, 'w) HandlerRegistry" where
  "register_handler_all h r = r\<lparr>hr_global_handlers := (hr_global_handlers r)(eh_type_id h \<mapsto> h)\<rparr>"

definition unregister_handler ::
  "PeerId \<Rightarrow> u64 \<Rightarrow> ('p, 'w) HandlerRegistry \<Rightarrow> bool \<times> ('p, 'w) HandlerRegistry" where
  "unregister_handler peer type_id r =
     (hr_per_peer_handlers r (peer, type_id) \<noteq> None,
      r\<lparr>hr_per_peer_handlers := (hr_per_peer_handlers r)((peer, type_id) := None)\<rparr>)"

definition unregister_handler_all ::
  "u64 \<Rightarrow> ('p, 'w) HandlerRegistry \<Rightarrow> bool \<times> ('p, 'w) HandlerRegistry" where
  "unregister_handler_all type_id r =
     (hr_global_handlers r type_id \<noteq> None,
      r\<lparr>hr_global_handlers := (hr_global_handlers r)(type_id := None)\<rparr>)"

definition set_catch_all_peer ::
  "PeerId \<Rightarrow> ('p, 'w) CatchAllFn \<Rightarrow> ('p, 'w) HandlerRegistry \<Rightarrow> ('p, 'w) HandlerRegistry" where
  "set_catch_all_peer peer cb r =
     r\<lparr>hr_per_peer_catch_all := (hr_per_peer_catch_all r)(peer_value peer \<mapsto> cb)\<rparr>"

definition set_catch_all ::
  "('p, 'w) CatchAllFn \<Rightarrow> ('p, 'w) HandlerRegistry \<Rightarrow> ('p, 'w) HandlerRegistry" where
  "set_catch_all cb r = r\<lparr>hr_catch_all := Some cb\<rparr>"

definition install_handler_peer ::
  "PeerId \<Rightarrow> ('p, 'w) MessageHandler \<Rightarrow> ('p, 'w) HandlerRegistry \<Rightarrow> ('p, 'w) HandlerRegistry" where
  "install_handler_peer peer mh r =
     (let r = fold (register_handler peer) (mh_handlers mh) r
      in case mh_catch_all mh of
           None \<Rightarrow> r
         | Some f \<Rightarrow> r\<lparr>hr_per_peer_catch_all := (hr_per_peer_catch_all r)(peer_value peer \<mapsto> Some f)\<rparr>)"

definition install_handler ::
  "('p, 'w) MessageHandler \<Rightarrow> ('p, 'w) HandlerRegistry \<Rightarrow> ('p, 'w) HandlerRegistry" where
  "install_handler mh r =
     (let r = fold register_handler_all (mh_handlers mh) r
      in case mh_catch_all mh of
           None \<Rightarrow> r
         | Some f \<Rightarrow> r\<lparr>hr_catch_all := Some (Some f)\<rparr>)"

definition remove_peer :: "PeerId \<Rightarrow> ('p, 'w) HandlerRegistry \<Rightarrow> ('p, 'w) HandlerRegistry" where
  "remove_peer peer r =
     r\<lparr>hr_per_peer_handlers := (\<lambda>k. if fst k = peer then None else hr_per_peer_handlers r k),
       hr_per_peer_catch_all := (hr_per_peer_catch_all r)(peer_value peer := None)\<rparr>"

definition set_raw_catch_all ::
  "('p, 'w) RawCatchAllFn \<Rightarrow> ('p, 'w) HandlerRegistry \<Rightarrow> ('p, 'w) HandlerRegistry" where
  "set_raw_catch_all cb r = r\<lparr>hr_raw_catch_all := Some cb\<rparr>"

section \<open>Dispatch\<close>

datatype DispatchResult = Handled | NotFound | DispatchError

definition select_handler ::
  "('p, 'w) HandlerRegistry \<Rightarrow> PeerId \<Rightarrow> u64 \<Rightarrow> ('p, 'w) ErasedHandler option \<times> ('p, 'w) CatchAllFn option" where
  "select_handler r peer type_id =
     (case hr_per_peer_handlers r (peer, type_id) of
        Some h \<Rightarrow> (Some h, None)
      | None \<Rightarrow>
          (case hr_global_handlers r type_id of
             Some h \<Rightarrow> (Some h, None)
           | None \<Rightarrow>
               (case hr_per_peer_catch_all r (peer_value peer) of
                  Some c \<Rightarrow> (None, Some c)
                | None \<Rightarrow> (None, hr_catch_all r))))"

definition guarded :: "thrown option \<times> 'w \<Rightarrow> DispatchResult \<times> 'w" where
  "guarded out = (case out of (None, w) \<Rightarrow> (Handled, w) | (Some e, w) \<Rightarrow> (DispatchError, w))"

definition dispatch_raw ::
  "('p, 'w) HandlerRegistry \<Rightarrow> PeerId \<Rightarrow> u64 \<Rightarrow> 'p \<Rightarrow> bytes \<Rightarrow> 'w \<Rightarrow> DispatchResult \<times> 'w" where
  "dispatch_raw r peer type_id payload raw w =
     (let (handler, catch_all) = select_handler r peer type_id;
          (e, w) = (case hr_raw_catch_all r of
                      None \<Rightarrow> (None, w)
                    | Some f \<Rightarrow> call f (peer, type_id, payload, raw) w)
      in case e of
           Some e \<Rightarrow> (DispatchError, w)
         | None \<Rightarrow>
             (case handler of
                Some h \<Rightarrow> guarded (eh_invoke h payload w)
              | None \<Rightarrow>
                  (case catch_all of
                     Some c \<Rightarrow> guarded (call c (type_id, payload) w)
                   | None \<Rightarrow> (if hr_raw_catch_all r \<noteq> None then Handled else NotFound, w))))"

definition dispatch ::
  "('p, 'w) HandlerRegistry \<Rightarrow> PeerId \<Rightarrow> u64 \<Rightarrow> 'p \<Rightarrow> 'w \<Rightarrow> DispatchResult \<times> 'w" where
  "dispatch r peer type_id payload w =
     (let (handler, catch_all) = select_handler r peer type_id
      in case handler of
           Some h \<Rightarrow> guarded (eh_invoke h payload w)
         | None \<Rightarrow>
             (case catch_all of
                Some c \<Rightarrow> guarded (call c (type_id, payload) w)
              | None \<Rightarrow> (NotFound, w)))"

section \<open>Tables\<close>

locale keyed_store =
  fixes put :: "'v \<Rightarrow> 's \<Rightarrow> 's"
    and erase :: "'k \<Rightarrow> 's \<Rightarrow> bool \<times> 's"
    and key :: "'v \<Rightarrow> 'k"
    and get :: "'s \<Rightarrow> 'k \<Rightarrow> 'v option"
  assumes get_put: "get (put v s) = (get s)(key v \<mapsto> v)"
    and get_erase: "get (snd (erase k s)) = (get s)(k := None)"
    and erase_found: "fst (erase k s) \<longleftrightarrow> get s k \<noteq> None"
begin

lemma get_put_all: "get (fold put vs s) = get s ++ map_of (rev (map (\<lambda>v. (key v, v)) vs))"
  by (induction vs arbitrary: s) (auto simp: get_put fun_eq_iff map_add_def split: option.splits)

lemma erase_put: "fst (erase (key v) (put v s)) \<and> get (snd (erase (key v) (put v s))) = (get s)(key v := None)"
  by (simp add: erase_found get_erase get_put)

lemma erase_twice: "\<not> fst (erase k (snd (erase k s)))"
  by (simp add: erase_found get_erase)

end

interpretation peer_table: keyed_store
  "register_handler peer" "unregister_handler peer" eh_type_id "\<lambda>r t. hr_per_peer_handlers r (peer, t)" for peer
  by unfold_locales (auto simp: register_handler_def unregister_handler_def)

interpretation global_table: keyed_store
  register_handler_all unregister_handler_all eh_type_id hr_global_handlers
  by unfold_locales (auto simp: register_handler_all_def unregister_handler_all_def)

text \<open>What each operation leaves alone.\<close>

lemma registers_frame [simp]:
  "hr_per_peer_handlers (fold register_handler_all hs r) = hr_per_peer_handlers r"
  "hr_per_peer_catch_all (fold register_handler_all hs r) = hr_per_peer_catch_all r"
  "hr_catch_all (fold register_handler_all hs r) = hr_catch_all r"
  "hr_raw_catch_all (fold register_handler_all hs r) = hr_raw_catch_all r"
  "hr_global_handlers (fold (register_handler peer) hs r) = hr_global_handlers r"
  "hr_per_peer_catch_all (fold (register_handler peer) hs r) = hr_per_peer_catch_all r"
  "hr_catch_all (fold (register_handler peer) hs r) = hr_catch_all r"
  "hr_raw_catch_all (fold (register_handler peer) hs r) = hr_raw_catch_all r"
  by (induction hs arbitrary: r) (simp_all add: register_handler_def register_handler_all_def)

lemma register_other_peer [simp]:
  "q \<noteq> peer \<Longrightarrow> hr_per_peer_handlers (fold (register_handler peer) hs r) (q, t) = hr_per_peer_handlers r (q, t)"
  by (induction hs arbitrary: r) (simp_all add: register_handler_def)

section \<open>The registry as a history\<close>

text \<open>
  A registry is the result of the calls made on it.  For each of the five places a handler can come
  from, \<open>peer_slot\<close> and its siblings say what one call does there: nothing, clear it, or set it.  What
  the registry holds is what the last call that touched the place left.
\<close>

datatype ('p, 'w) reg_call =
    Register PeerId "('p, 'w) ErasedHandler"
  | Register_all "('p, 'w) ErasedHandler"
  | Unregister PeerId u64
  | Unregister_all u64
  | Catch_all_peer PeerId "('p, 'w) CatchAllFn"
  | Catch_all "('p, 'w) CatchAllFn"
  | Install_peer PeerId "('p, 'w) MessageHandler"
  | Install "('p, 'w) MessageHandler"
  | Remove_peer PeerId
  | Raw_catch_all "('p, 'w) RawCatchAllFn"

primrec do_reg :: "('p, 'w) reg_call \<Rightarrow> ('p, 'w) HandlerRegistry \<Rightarrow> ('p, 'w) HandlerRegistry" where
  "do_reg (Register p h) = register_handler p h"
| "do_reg (Register_all h) = register_handler_all h"
| "do_reg (Unregister p t) = (\<lambda>r. snd (unregister_handler p t r))"
| "do_reg (Unregister_all t) = (\<lambda>r. snd (unregister_handler_all t r))"
| "do_reg (Catch_all_peer p c) = set_catch_all_peer p c"
| "do_reg (Catch_all c) = set_catch_all c"
| "do_reg (Install_peer p mh) = install_handler_peer p mh"
| "do_reg (Install mh) = install_handler mh"
| "do_reg (Remove_peer p) = remove_peer p"
| "do_reg (Raw_catch_all c) = set_raw_catch_all c"

definition last_for :: "u64 \<Rightarrow> ('p, 'w) ErasedHandler list \<Rightarrow> ('p, 'w) ErasedHandler option" where
  "last_for t hs = map_of (rev (map (\<lambda>h. (eh_type_id h, h)) hs)) t"

primrec peer_slot :: "PeerId \<Rightarrow> u64 \<Rightarrow> ('p, 'w) reg_call \<Rightarrow> ('p, 'w) ErasedHandler option option" where
  "peer_slot p t (Register q h) = (if q = p \<and> eh_type_id h = t then Some (Some h) else None)"
| "peer_slot p t (Register_all h) = None"
| "peer_slot p t (Unregister q s) = (if q = p \<and> s = t then Some None else None)"
| "peer_slot p t (Unregister_all s) = None"
| "peer_slot p t (Catch_all_peer q c) = None"
| "peer_slot p t (Catch_all c) = None"
| "peer_slot p t (Install_peer q mh) = (if q = p then map_option Some (last_for t (mh_handlers mh)) else None)"
| "peer_slot p t (Install mh) = None"
| "peer_slot p t (Remove_peer q) = (if q = p then Some None else None)"
| "peer_slot p t (Raw_catch_all c) = None"

primrec global_slot :: "u64 \<Rightarrow> ('p, 'w) reg_call \<Rightarrow> ('p, 'w) ErasedHandler option option" where
  "global_slot t (Register q h) = None"
| "global_slot t (Register_all h) = (if eh_type_id h = t then Some (Some h) else None)"
| "global_slot t (Unregister q s) = None"
| "global_slot t (Unregister_all s) = (if s = t then Some None else None)"
| "global_slot t (Catch_all_peer q c) = None"
| "global_slot t (Catch_all c) = None"
| "global_slot t (Install_peer q mh) = None"
| "global_slot t (Install mh) = map_option Some (last_for t (mh_handlers mh))"
| "global_slot t (Remove_peer q) = None"
| "global_slot t (Raw_catch_all c) = None"

primrec peer_catch_slot :: "PeerId \<Rightarrow> ('p, 'w) reg_call \<Rightarrow> ('p, 'w) CatchAllFn option option" where
  "peer_catch_slot p (Register q h) = None"
| "peer_catch_slot p (Register_all h) = None"
| "peer_catch_slot p (Unregister q s) = None"
| "peer_catch_slot p (Unregister_all s) = None"
| "peer_catch_slot p (Catch_all_peer q c) = (if q = p then Some (Some c) else None)"
| "peer_catch_slot p (Catch_all c) = None"
| "peer_catch_slot p (Install_peer q mh) =
     (if q = p \<and> mh_catch_all mh \<noteq> None then Some (Some (mh_catch_all mh)) else None)"
| "peer_catch_slot p (Install mh) = None"
| "peer_catch_slot p (Remove_peer q) = (if q = p then Some None else None)"
| "peer_catch_slot p (Raw_catch_all c) = None"

primrec catch_slot :: "('p, 'w) reg_call \<Rightarrow> ('p, 'w) CatchAllFn option option" where
  "catch_slot (Register q h) = None"
| "catch_slot (Register_all h) = None"
| "catch_slot (Unregister q s) = None"
| "catch_slot (Unregister_all s) = None"
| "catch_slot (Catch_all_peer q c) = None"
| "catch_slot (Catch_all c) = Some (Some c)"
| "catch_slot (Install_peer q mh) = None"
| "catch_slot (Install mh) = (if mh_catch_all mh \<noteq> None then Some (Some (mh_catch_all mh)) else None)"
| "catch_slot (Remove_peer q) = None"
| "catch_slot (Raw_catch_all c) = None"

primrec raw_slot :: "('p, 'w) reg_call \<Rightarrow> ('p, 'w) RawCatchAllFn option option" where
  "raw_slot (Register q h) = None"
| "raw_slot (Register_all h) = None"
| "raw_slot (Unregister q s) = None"
| "raw_slot (Unregister_all s) = None"
| "raw_slot (Catch_all_peer q c) = None"
| "raw_slot (Catch_all c) = None"
| "raw_slot (Install_peer q mh) = None"
| "raw_slot (Install mh) = None"
| "raw_slot (Remove_peer q) = None"
| "raw_slot (Raw_catch_all c) = Some (Some c)"

primrec latest :: "('c \<Rightarrow> 'v option option) \<Rightarrow> 'c list \<Rightarrow> 'v option" where
  "latest slot [] = None"
| "latest slot (c # older) = (case slot c of Some v \<Rightarrow> v | None \<Rightarrow> latest slot older)"

definition registry_of :: "('p, 'w) reg_call list \<Rightarrow> ('p, 'w) HandlerRegistry" where
  "registry_of newest_first = foldr do_reg newest_first mk_registry"

lemma slot_latest:
  assumes "\<And>c r. get (do_reg c r) = (case slot c of Some v \<Rightarrow> v | None \<Rightarrow> get r)" and "get mk_registry = None"
  shows "get (registry_of cs) = latest slot cs"
  unfolding registry_of_def by (induction cs) (simp_all add: assms split: option.splits)

lemma peer_slot_correct:
  "hr_per_peer_handlers (do_reg c r) (p, t) =
     (case peer_slot p t c of Some v \<Rightarrow> v | None \<Rightarrow> hr_per_peer_handlers r (p, t))"
proof (cases c)
  case (Install_peer q mh)
  then show ?thesis
    by (cases "q = p")
      (auto simp: install_handler_peer_def last_for_def map_add_def Let_def
        peer_table.get_put_all [THEN fun_cong] split: option.splits)
qed (auto simp: register_handler_def register_handler_all_def unregister_handler_def unregister_handler_all_def
    set_catch_all_def set_catch_all_peer_def install_handler_def Let_def remove_peer_def
    set_raw_catch_all_def split: option.splits)

lemma global_slot_correct:
  "hr_global_handlers (do_reg c r) t = (case global_slot t c of Some v \<Rightarrow> v | None \<Rightarrow> hr_global_handlers r t)"
proof (cases c)
  case (Install mh)
  then show ?thesis
    by (auto simp: install_handler_def last_for_def map_add_def Let_def
        global_table.get_put_all [THEN fun_cong] split: option.splits)
qed (auto simp: register_handler_def register_handler_all_def unregister_handler_def unregister_handler_all_def
    set_catch_all_def set_catch_all_peer_def install_handler_peer_def Let_def remove_peer_def
    set_raw_catch_all_def split: option.splits)

lemma peer_catch_slot_correct:
  "hr_per_peer_catch_all (do_reg c r) (peer_value p) =
     (case peer_catch_slot p c of Some v \<Rightarrow> v | None \<Rightarrow> hr_per_peer_catch_all r (peer_value p))"
  by (cases c) (auto simp: register_handler_def register_handler_all_def unregister_handler_def
      unregister_handler_all_def set_catch_all_def set_catch_all_peer_def install_handler_peer_def
      install_handler_def Let_def remove_peer_def set_raw_catch_all_def PeerId.expand split: option.splits)

lemma catch_slot_correct:
  "hr_catch_all (do_reg c r) = (case catch_slot c of Some v \<Rightarrow> v | None \<Rightarrow> hr_catch_all r)"
  by (cases c) (auto simp: register_handler_def register_handler_all_def unregister_handler_def
      unregister_handler_all_def set_catch_all_def set_catch_all_peer_def install_handler_peer_def
      install_handler_def Let_def remove_peer_def set_raw_catch_all_def split: option.splits)

lemma raw_slot_correct:
  "hr_raw_catch_all (do_reg c r) = (case raw_slot c of Some v \<Rightarrow> v | None \<Rightarrow> hr_raw_catch_all r)"
  by (cases c) (auto simp: register_handler_def register_handler_all_def unregister_handler_def
      unregister_handler_all_def set_catch_all_def set_catch_all_peer_def install_handler_peer_def
      install_handler_def Let_def remove_peer_def set_raw_catch_all_def split: option.splits)

lemmas registry_history =
  slot_latest [where get = "\<lambda>r. hr_per_peer_handlers r (p, t)" and slot = "peer_slot p t" for p t,
    OF peer_slot_correct]
  slot_latest [where get = "\<lambda>r. hr_global_handlers r t" and slot = "global_slot t" for t, OF global_slot_correct]
  slot_latest [where get = "\<lambda>r. hr_per_peer_catch_all r (peer_value p)" and slot = "peer_catch_slot p" for p,
    OF peer_catch_slot_correct]
  slot_latest [where get = hr_catch_all and slot = catch_slot, OF catch_slot_correct]
  slot_latest [where get = hr_raw_catch_all and slot = raw_slot, OF raw_slot_correct]

section \<open>Properties\<close>

primrec first_some :: "'a option list \<Rightarrow> 'a option" where
  "first_some [] = None"
| "first_some (x # xs) = (case x of Some v \<Rightarrow> Some v | None \<Rightarrow> first_some xs)"

definition chosen :: "('p, 'w) reg_call list \<Rightarrow> PeerId \<Rightarrow> u64 \<Rightarrow> ('p, 'w) callback option" where
  "chosen cs p t = first_some
     [map_option eh_invoke (latest (peer_slot p t) cs),
      map_option eh_invoke (latest (global_slot t) cs),
      map_option (\<lambda>c x. call c (t, x)) (latest (peer_catch_slot p) cs),
      map_option (\<lambda>c x. call c (t, x)) (latest catch_slot cs)]"

lemma guarded_eq: "guarded out = (if fst out = None then Handled else DispatchError, snd out)"
  by (cases out) (simp add: guarded_def split: option.splits)

text \<open>
  C29: whatever calls were made on the registry, a message goes to the handler that the documented
  priority picks: the peer's own handler, then the global one, then the peer's catch-all, then the global
  catch-all, each as the last call that touched it left it.  The raw catch-all runs first; when it
  throws nothing else runs.  The result is an error exactly when a callback that ran threw, and
  not-found exactly when no callback ran at all.
\<close>

theorem dispatch_follows_history:
  "dispatch_raw (registry_of cs) p t x raw w =
     (let (thrown, w') = (case latest raw_slot cs of
                            None \<Rightarrow> (None, w)
                          | Some f \<Rightarrow> call f (p, t, x, raw) w)
      in if thrown \<noteq> None then (DispatchError, w')
         else case chosen cs p t of
                Some f \<Rightarrow> (if fst (f x w') = None then Handled else DispatchError, snd (f x w'))
              | None \<Rightarrow> (if latest raw_slot cs = None then NotFound else Handled, w'))"
  unfolding dispatch_raw_def select_handler_def chosen_def guarded_eq
  by (auto simp: registry_history mk_registry_def split: option.splits prod.splits)

lemma select_removed:
  "select_handler (remove_peer p r) p t =
     select_handler (r\<lparr>hr_per_peer_handlers := Map.empty, hr_per_peer_catch_all := Map.empty\<rparr>) p t"
  "q \<noteq> p \<Longrightarrow> select_handler (remove_peer p r) q t = select_handler r q t"
  "hr_raw_catch_all (remove_peer p r) = hr_raw_catch_all r"
  by (auto simp: select_handler_def remove_peer_def PeerId.expand split: option.split)

text \<open>
  After \<open>remove_peer\<close> a message of that peer is dispatched as if the registry had never held a
  handler of any peer, and messages of the other peers are dispatched as before.
\<close>

lemma removed_peer_forgotten:
  "dispatch_raw (remove_peer p r) p t x raw w =
     dispatch_raw (r\<lparr>hr_per_peer_handlers := Map.empty, hr_per_peer_catch_all := Map.empty\<rparr>) p t x raw w \<and>
   (q \<noteq> p \<longrightarrow> dispatch_raw (remove_peer p r) q t x raw w = dispatch_raw r q t x raw w)"
  by (auto simp: dispatch_raw_def select_removed)

definition example_callback :: "nat \<Rightarrow> ('x, nat list) std_function" where
  "example_callback n = Some (\<lambda>x w. (None, w @ [n]))"

text \<open>
  C32: of two handlers a \<open>MessageHandler\<close> holds for one type the one added last runs, whichever of
  them is the typed and whichever the group handler.
\<close>

theorem last_added_handler_wins:
  "dispatch (install_handler_peer p (mh_on_group [t] g (mh_on t cast f mh)) r) p t x w =
     guarded (call g (t, x) w) \<and>
   dispatch (install_handler_peer p (mh_on t cast f (mh_on_group [t] g mh)) r) p t x w =
     guarded (case cast x of None \<Rightarrow> (Some BadAnyCast, w) | Some v \<Rightarrow> call f v w)"
  by (simp add: dispatch_def select_handler_def install_handler_peer_def Let_def mh_on_def erased_typed_def
      erased_raw_def register_handler_def split: option.splits)

text \<open>
  The overload with raw bytes is the plain one behind the raw catch-all: without a raw catch-all
  they agree; with one, a throw there ends the dispatch as an error, and otherwise the plain dispatch
  follows with not-found counted as handled.
\<close>

lemma dispatch_overloads:
  "dispatch_raw r p t x raw w =
     (case hr_raw_catch_all r of
        None \<Rightarrow> dispatch r p t x w
      | Some f \<Rightarrow>
          (case call f (p, t, x, raw) w of
             (Some e, w') \<Rightarrow> (DispatchError, w')
           | (None, w') \<Rightarrow>
               (case dispatch r p t x w' of (res, w'') \<Rightarrow> (if res = NotFound then Handled else res, w''))))"
  by (auto simp: dispatch_raw_def dispatch_def guarded_def Let_def split: option.splits prod.splits)

end
