(* ===== verification/Message_Log.thy ===== *)
theory Message_Log
  imports Conduit_Error
begin

text \<open>
  The message log: \<open>include/conduit/transceiver/message_log.hpp\<close>, \<open>src/transceiver/message_log.cpp\<close> and
  the logging part of \<open>include/conduit/transceiver/transceiver_config.hpp\<close>.

  The log's effects on the outside are a list of \<open>io_event\<close>s in the order the code performs them.  Two
  things come from outside and are arguments: the time stamp of an entry, and whether the system lets a
  path be opened.  An output stream that did not open swallows what is written to it.  Paths are joined
  as \<open>std::filesystem\<close> does on POSIX systems.  Warnings about the log itself go to the logger and are left
  out.
\<close>

unbundle bit_operations_syntax

section \<open>Configuration\<close>

datatype MessageLogMode = Combined | SeparateDirection | PerPeer | PerPeerDirection

datatype MessageLogOutput = Out_File | Out_Stdout | Out_Both

record MessageLogConfig =
  mlc_enabled :: bool
  mlc_mode :: MessageLogMode
  mlc_output :: MessageLogOutput
  mlc_directory :: string
  mlc_prefix :: string
  mlc_filename :: string
  mlc_sent_filename :: string
  mlc_received_filename :: string
  mlc_include_message_content :: bool
  mlc_include_raw_bytes :: bool

definition default_log_config :: MessageLogConfig where
  "default_log_config = \<lparr>mlc_enabled = False, mlc_mode = Combined, mlc_output = Out_File,
     mlc_directory = ''.'', mlc_prefix = ''conduit'', mlc_filename = [], mlc_sent_filename = [],
     mlc_received_filename = [], mlc_include_message_content = True, mlc_include_raw_bytes = False\<rparr>"

section \<open>File names\<close>

definition layout_char :: "char \<Rightarrow> bool" where
  "layout_char c \<longleftrightarrow> c = CHR ''/'' \<or> c = CHR 0x5C \<or> c = CHR '':'' \<or> c = CHR 0x00"

primrec sanitize_for_filename :: "string \<Rightarrow> string" where
  "sanitize_for_filename [] = []"
| "sanitize_for_filename (c # cs) =
     (if layout_char c then CHR ''_'' else c) # sanitize_for_filename cs"

text \<open>\<open>std::string::find\<close> from a position on, and the loop that replaces every occurrence of a pattern.
  The patterns are the two constants of \<open>expand_filename\<close>; an empty one is left alone.\<close>

definition string_find :: "string \<Rightarrow> string \<Rightarrow> nat \<Rightarrow> nat option" where
  "string_find pat s pos = (if pos \<le> length s then map_option ((+) pos) (search pat (drop pos s)) else None)"

lemma string_find_bound:
  "string_find pat s pos = Some p \<Longrightarrow> pos \<le> p \<and> p + length pat \<le> length s"
  by (auto simp: string_find_def split: if_splits dest!: search_bound)

function replace_loop :: "string \<Rightarrow> string \<Rightarrow> nat \<Rightarrow> string \<Rightarrow> string" where
  "replace_loop pat rep pos result =
     (if pat = [] then result
      else case string_find pat result pos of
             None \<Rightarrow> result
           | Some p \<Rightarrow>
               replace_loop pat rep (p + length rep) (take p result @ rep @ drop (p + length pat) result))"
  by pat_completeness auto
termination
proof (relation "measure (\<lambda>(pat, rep, pos, result). length result - pos)", goal_cases)
  case (2 pat rep pos result p)
  from string_find_bound [OF 2(2)] have "pos \<le> p" "p + length pat \<le> length result" by auto
  moreover obtain n where "length pat = Suc n" using 2(1) by (cases pat) auto
  ultimately show ?case by simp
qed simp

declare replace_loop.simps [simp del]

definition expand_filename :: "string \<Rightarrow> string \<Rightarrow> string \<Rightarrow> string" where
  "expand_filename pattern direction_label peer_name =
     (let safe_peer = sanitize_for_filename peer_name;
          result = replace_loop ''{direction}'' direction_label 0 pattern
      in replace_loop ''{peer}'' safe_peer 0 result)"

definition resolve_file_key :: "MessageLogConfig \<Rightarrow> string \<Rightarrow> string \<Rightarrow> string" where
  "resolve_file_key config direction peer_name =
     (let dir_label = (if direction = ''SEND'' then ''sent'' else ''received'');
          dir_filename = (if direction = ''SEND'' then mlc_sent_filename config
                          else mlc_received_filename config)
      in if dir_filename \<noteq> [] then expand_filename dir_filename dir_label peer_name
         else if mlc_filename config \<noteq> [] then expand_filename (mlc_filename config) dir_label peer_name
         else let safe_peer = sanitize_for_filename peer_name
              in case mlc_mode config of
                   Combined \<Rightarrow> mlc_prefix config @ ''_messages.log''
                 | SeparateDirection \<Rightarrow> mlc_prefix config @ ''_'' @ dir_label @ ''.log''
                 | PerPeer \<Rightarrow> mlc_prefix config @ ''_'' @ safe_peer @ ''.log''
                 | PerPeerDirection \<Rightarrow> mlc_prefix config @ ''_'' @ safe_peer @ ''_'' @ dir_label @ ''.log'')"

section \<open>Entries\<close>

record log_record =
  lr_direction :: string
  lr_peer_name :: string
  lr_remote_endpoint :: string
  lr_type_name :: string
  lr_byte_count :: nat
  lr_message_content :: string
  lr_protocol :: string
  lr_transport :: string
  lr_raw_bytes :: bytes

definition newline :: string where
  "newline = [CHR 0x0A]"

definition entry_line :: "string \<Rightarrow> log_record \<Rightarrow> string" where
  "entry_line ts e =
     ''['' @ ts @ ''] '' @ lr_direction e @ '' peer='' @ lr_peer_name e @
     (if lr_remote_endpoint e \<noteq> [] then '' remote='' @ lr_remote_endpoint e else []) @
     '' proto='' @ lr_protocol e @ '' transport='' @ lr_transport e @ '' type='' @ lr_type_name e @
     '' bytes='' @ to_string (lr_byte_count e)"

definition hex_chars :: string where
  "hex_chars = ''0123456789ABCDEF''"

definition hex_byte :: "u8 \<Rightarrow> string" where
  "hex_byte b = [hex_chars ! unat (drop_bit 4 b), hex_chars ! unat (b AND 0xF)]"

primrec hex_loop :: "nat \<Rightarrow> bytes \<Rightarrow> string" where
  "hex_loop i [] = []"
| "hex_loop i (b # bs) =
     (if i mod 32 = 0 then (if i = 0 then '' '' else newline @ ''       '') else '' '') @
     hex_byte b @ hex_loop (Suc i) bs"

definition hex_dump :: "MessageLogConfig \<Rightarrow> bytes \<Rightarrow> string" where
  "hex_dump config raw =
     (if mlc_include_raw_bytes config \<and> raw \<noteq> [] then ''  hex:'' @ hex_loop 0 raw else [])"

definition entry_text :: "MessageLogConfig \<Rightarrow> string \<Rightarrow> log_record \<Rightarrow> string" where
  "entry_text config ts e =
     (let hex = hex_dump config (lr_raw_bytes e)
      in entry_line ts e @ newline @
         (if hex \<noteq> [] then hex @ newline else []) @
         (if mlc_include_message_content config \<and> lr_message_content e \<noteq> []
          then newline @ lr_message_content e @ newline @ newline
          else newline))"

section \<open>The log\<close>

datatype io_event =
    Create_directories string
  | Open_append string
  | Write_file string string
  | Write_stdout string

record MessageLog =
  ml_config :: MessageLogConfig
  ml_dir_created :: bool
  ml_files :: "string \<rightharpoonup> bool"

definition mk_message_log :: "MessageLogConfig \<Rightarrow> MessageLog" where
  "mk_message_log config = \<lparr>ml_config = config, ml_dir_created = False, ml_files = Map.empty\<rparr>"

definition path_join :: "string \<Rightarrow> string \<Rightarrow> string" where
  "path_join dir key =
     (if key \<noteq> [] \<and> hd key = CHR ''/'' then key
      else if dir = [] \<or> last dir = CHR ''/'' then dir @ key
      else dir @ ''/'' @ key)"

definition get_stream :: "(string \<Rightarrow> bool) \<Rightarrow> string \<Rightarrow> MessageLog \<Rightarrow> bool \<times> io_event list \<times> MessageLog" where
  "get_stream can_open key ml =
     (case ml_files ml key of
        Some is_open \<Rightarrow> (is_open, [], ml)
      | None \<Rightarrow>
          let created = (if ml_dir_created ml then [] else [Create_directories (mlc_directory (ml_config ml))]);
              path = path_join (mlc_directory (ml_config ml)) key;
              is_open = can_open path
          in (is_open, created @ [Open_append path],
              ml\<lparr>ml_dir_created := True, ml_files := (ml_files ml)(key \<mapsto> is_open)\<rparr>))"

definition write_entry ::
  "(string \<Rightarrow> bool) \<Rightarrow> string \<Rightarrow> log_record \<Rightarrow> MessageLog \<Rightarrow> io_event list \<times> MessageLog" where
  "write_entry can_open ts e ml =
     (let config = ml_config ml;
          key = resolve_file_key config (lr_direction e) (lr_peer_name e);
          text = entry_text config ts e;
          console = (if mlc_output config = Out_Stdout \<or> mlc_output config = Out_Both
                     then [Write_stdout text] else [])
      in if mlc_output config = Out_File \<or> mlc_output config = Out_Both
         then let (is_open, events, ml) = get_stream can_open key ml
              in (console @ events @ (if is_open then [Write_file key text] else []), ml)
         else (console, ml))"

definition log_send ::
  "(string \<Rightarrow> bool) \<Rightarrow> string \<Rightarrow> log_record \<Rightarrow> MessageLog \<Rightarrow> io_event list \<times> MessageLog" where
  "log_send can_open ts e = write_entry can_open ts (e\<lparr>lr_direction := ''SEND''\<rparr>)"

definition log_recv ::
  "(string \<Rightarrow> bool) \<Rightarrow> string \<Rightarrow> log_record \<Rightarrow> MessageLog \<Rightarrow> io_event list \<times> MessageLog" where
  "log_recv can_open ts e = write_entry can_open ts (e\<lparr>lr_direction := ''RECV''\<rparr>)"

section \<open>Placeholders\<close>

text \<open>What replacing means, without positions.\<close>

fun subst_all :: "'a list \<Rightarrow> 'a list \<Rightarrow> 'a list \<Rightarrow> 'a list" where
  "subst_all pat rep [] = []"
| "subst_all pat rep (x # xs) =
     (if pat \<noteq> [] \<and> take (length pat) (x # xs) = pat
      then rep @ subst_all pat rep (drop (length pat - 1) xs)
      else x # subst_all pat rep xs)"

lemma subst_all_None: "search pat xs = None \<Longrightarrow> subst_all pat rep xs = xs"
  by (induction xs) (auto split: if_splits)

lemma subst_all_Some:
  assumes "search pat xs = Some i" and "pat \<noteq> []"
  shows "subst_all pat rep xs = take i xs @ rep @ subst_all pat rep (drop (i + length pat) xs)"
  using assms
proof (induction xs arbitrary: i)
  case (Cons x xs)
  show ?case
  proof (cases "take (length pat) (x # xs) = pat")
    case True
    with Cons.prems have "i = 0" by (simp split: if_splits)
    moreover obtain n where "length pat = Suc n" using Cons.prems(2) by (cases pat) auto
    ultimately show ?thesis using True Cons.prems(2) by simp
  next
    case False
    with Cons.prems obtain j where "search pat xs = Some j" "i = Suc j" by (auto split: if_splits)
    with Cons.IH [of j] Cons.prems(2) False show ?thesis by simp
  qed
qed simp

lemma replace_loop_eq:
  "pat \<noteq> [] \<Longrightarrow> pos \<le> length s \<Longrightarrow> replace_loop pat rep pos s = take pos s @ subst_all pat rep (drop pos s)"
proof (induction pat rep pos s rule: replace_loop.induct)
  case (1 pat rep pos s)
  show ?case
  proof (cases "search pat (drop pos s)")
    case None
    then show ?thesis using "1.prems"
      by (subst replace_loop.simps) (simp add: string_find_def subst_all_None)
  next
    case (Some i)
    then have found: "string_find pat s pos = Some (pos + i)" using "1.prems" by (simp add: string_find_def)
    have "i + length pat \<le> length s - pos" using search_bound [OF Some] by simp
    then have "take (pos + i) s = take pos s @ take i (drop pos s)" and "pos + i \<le> length s"
      using "1.prems" by (auto simp: take_add)
    then show ?thesis using 1 found subst_all_Some [OF Some "1.prems"(1), of rep]
      by (subst replace_loop.simps) (simp add: ac_simps)
  qed
qed

lemma set_subst_all: "set (subst_all pat rep s) \<subseteq> set s \<union> set rep"
  by (induction pat rep s rule: subst_all.induct) (auto dest: in_set_dropD)

lemma sanitize_clean: "c \<in> set (sanitize_for_filename s) \<Longrightarrow> \<not> layout_char c"
  by (induction s) (auto simp: layout_char_def split: if_splits)

lemma sanitize_id: "list_all (\<lambda>c. \<not> layout_char c) s \<Longrightarrow> sanitize_for_filename s = s"
  by (induction s) auto

text \<open>
  \<open>expand_filename\<close> substitutes the direction label for every \<open>{direction}\<close> and then the sanitized
  peer name for every \<open>{peer}\<close>: the position-based loops compute plain left-to-right substitution, and
  text that was substituted in is not searched again by the same loop.
\<close>

lemma expand_filename_substitutes:
  "expand_filename pattern label peer =
     subst_all ''{peer}'' (sanitize_for_filename peer) (subst_all ''{direction}'' label pattern)"
  by (simp add: expand_filename_def replace_loop_eq)

definition clean :: "string \<Rightarrow> bool" where
  "clean s \<longleftrightarrow> list_all (\<lambda>c. \<not> layout_char c) s"

lemma clean_subst: "clean rep \<Longrightarrow> clean s \<Longrightarrow> clean (subst_all pat rep s)"
  using set_subst_all [of pat rep s] by (auto simp: clean_def list_all_iff)

lemma clean_sanitize: "clean (sanitize_for_filename s)"
  by (auto simp: clean_def list_all_iff dest: sanitize_clean)

lemma clean_simps [simp]:
  "clean []" "clean (c # xs) \<longleftrightarrow> \<not> layout_char c \<and> clean xs" "clean (xs @ ys) \<longleftrightarrow> clean xs \<and> clean ys"
  by (simp_all add: clean_def)

lemma clean_expand: "clean pattern \<Longrightarrow> clean label \<Longrightarrow> clean (expand_filename pattern label peer)"
  by (simp add: expand_filename_def replace_loop_eq clean_subst clean_sanitize)



text \<open>
  With one file per peer and direction and peer names free of layout characters, different peers and
  different directions have different files.
\<close>

lemma per_peer_files_distinct:
  assumes "mlc_mode config = PerPeerDirection" and "mlc_filename config = []"
    and "mlc_sent_filename config = []" and "mlc_received_filename config = []"
    and "clean p" and "clean q" and "d \<in> {''SEND'', ''RECV''}" and "e \<in> {''SEND'', ''RECV''}"
    and "(d, p) \<noteq> (e, q)"
  shows "resolve_file_key config d p \<noteq> resolve_file_key config e q"
proof -
  have names: "sanitize_for_filename p = p" "sanitize_for_filename q = q"
    using assms(5,6) by (simp_all add: sanitize_id clean_def)
  have ends: "xs @ ''_sent.log'' \<noteq> ys @ ''_received.log''" for xs ys :: string
    using arg_cong [where f = "\<lambda>s. rev s ! 4", of "xs @ ''_sent.log''" "ys @ ''_received.log''"] by auto
  show ?thesis
    using assms(1-4,7-9) names ends [of p q] ends [of q p, symmetric]
    by (auto simp: resolve_file_key_def simp del: append_Cons)
qed

text \<open>
  Sanitizing can merge two peers: the first client of the listener \<open>a\<close> and a peer configured as
  \<open>a_1\<close> share one file although the mode asks for one file per peer.
\<close>

lemma per_peer_files_collide:
  "resolve_file_key (default_log_config\<lparr>mlc_mode := PerPeer\<rparr>) d ''a/1'' =
   resolve_file_key (default_log_config\<lparr>mlc_mode := PerPeer\<rparr>) d ''a_1''"
  by (simp add: resolve_file_key_def default_log_config_def layout_char_def)

section \<open>Hex dumps\<close>

definition hex_digit_value :: "char \<Rightarrow> nat" where
  "hex_digit_value c = (if c \<in> set ''0123456789'' then of_char c - 48 else of_char c - 55)"

fun read_hex :: "string \<Rightarrow> bytes" where
  "read_hex (a # b # cs) = word_of_nat (16 * hex_digit_value a + hex_digit_value b) # read_hex cs"
| "read_hex _ = []"

definition hex_digits_of :: "string \<Rightarrow> string" where
  "hex_digits_of s = filter (\<lambda>c. c \<in> set hex_chars) s"

lemma hex_nibble: "n < 16 \<Longrightarrow> hex_chars ! n \<in> set hex_chars \<and> hex_digit_value (hex_chars ! n) = n"
proof -
  have "\<forall>m \<in> {..<16}. hex_chars ! m \<in> set hex_chars \<and> hex_digit_value (hex_chars ! m) = m"
    by code_simp
  then show "n < 16 \<Longrightarrow> ?thesis" by simp
qed

lemma nibbles:
  fixes b :: u8
  shows "unat (drop_bit 4 b) < 16" "unat (b AND 0xF) < 16"
    "16 * unat (drop_bit 4 b) + unat (b AND 0xF) = unat b"
proof -
  have "(0xF :: u8) = mask 4" by (simp add: mask_eq_exp_minus_1)
  then have "b AND 0xF = take_bit 4 b" by (simp only: take_bit_eq_mask)
  then have low: "unat (b AND 0xF) = unat b mod 16"
    by (simp only: unsigned_take_bit_eq) (simp add: take_bit_eq_mod)
  have bound: "unat b < 256" using unsigned_less [of b, where ?'a = nat] by simp
  then have high: "unat (drop_bit 4 b) = unat b div 16"
    by (simp only: unsigned_drop_bit_eq) (simp add: drop_bit_eq_div take_bit_eq_mod)
  from bound low high show "unat (drop_bit 4 b) < 16" "unat (b AND 0xF) < 16"
    "16 * unat (drop_bit 4 b) + unat (b AND 0xF) = unat b" by auto
qed

lemma hex_digits_of_byte: "hex_digits_of (hex_byte b @ s) = hex_byte b @ hex_digits_of s"
  using hex_nibble [OF nibbles(1)] hex_nibble [OF nibbles(2)]
  by (simp add: hex_digits_of_def hex_byte_def)

lemma hex_digits_of_loop: "hex_digits_of (hex_loop i bs) = concat (map hex_byte bs)"
proof (induction bs arbitrary: i)
  case (Cons b bs)
  have "hex_digits_of (sep @ s) = hex_digits_of s" if "set sep \<inter> set hex_chars = {}" for sep s
    using that by (auto simp: hex_digits_of_def filter_empty_conv)
  moreover have "set '' '' \<inter> set hex_chars = {}" "set (newline @ ''       '') \<inter> set hex_chars = {}"
    by (simp_all add: hex_chars_def newline_def)
  ultimately show ?case using Cons by (simp only: hex_loop.simps hex_digits_of_byte list.map concat.simps split: if_split) blast
qed (simp add: hex_digits_of_def)

lemma read_hex_bytes: "read_hex (concat (map hex_byte bs)) = bs"
  using hex_nibble [OF nibbles(1)] hex_nibble [OF nibbles(2)] nibbles(3)
  by (induction bs) (simp_all add: hex_byte_def)

text \<open>
  The hex dump of an entry determines the bytes: reading the digits of the dump, its line breaks and
  separators ignored, gives back the raw bytes.
\<close>

lemma hex_dump_round_trip:
  assumes "mlc_include_raw_bytes config"
  shows "read_hex (hex_digits_of (drop 6 (hex_dump config raw))) = raw"
  using assms by (simp add: hex_dump_def hex_digits_of_loop read_hex_bytes) (simp add: hex_digits_of_def)

section \<open>A sequence of entries\<close>

fun log_all :: "(string \<Rightarrow> bool) \<Rightarrow> (string \<times> log_record) list \<Rightarrow> MessageLog \<Rightarrow> io_event list \<times> MessageLog" where
  "log_all can_open [] ml = ([], ml)"
| "log_all can_open ((ts, e) # es) ml =
     (let (events, ml) = write_entry can_open ts e ml; (more, ml) = log_all can_open es ml
      in (events @ more, ml))"

fun file_text :: "string \<Rightarrow> io_event list \<Rightarrow> string" where
  "file_text k [] = []"
| "file_text k (Write_file k' text # events) = (if k' = k then text else []) @ file_text k events"
| "file_text k (_ # events) = file_text k events"

fun stdout_text :: "io_event list \<Rightarrow> string" where
  "stdout_text [] = []"
| "stdout_text (Write_stdout text # events) = text @ stdout_text events"
| "stdout_text (_ # events) = stdout_text events"

fun opened :: "io_event list \<Rightarrow> nat" where
  "opened [] = 0"
| "opened (Open_append p # events) = Suc (opened events)"
| "opened (_ # events) = opened events"

fun directories_created :: "io_event list \<Rightarrow> nat" where
  "directories_created [] = 0"
| "directories_created (Create_directories d # events) = Suc (directories_created events)"
| "directories_created (_ # events) = directories_created events"

definition entry_key :: "MessageLogConfig \<Rightarrow> log_record \<Rightarrow> string" where
  "entry_key config e = resolve_file_key config (lr_direction e) (lr_peer_name e)"

definition to_file :: "MessageLogConfig \<Rightarrow> bool" where
  "to_file config \<longleftrightarrow> mlc_output config \<noteq> Out_Stdout"

definition log_ok :: "(string \<Rightarrow> bool) \<Rightarrow> MessageLogConfig \<Rightarrow> MessageLog \<Rightarrow> bool" where
  "log_ok can_open config ml \<longleftrightarrow> ml_config ml = config \<and> finite (dom (ml_files ml)) \<and>
     (\<forall>k b. ml_files ml k = Some b \<longrightarrow> b = can_open (path_join (mlc_directory config) k)) \<and>
     (ml_dir_created ml \<longleftrightarrow> dom (ml_files ml) \<noteq> {})"

lemma file_text_append [simp]: "file_text k (xs @ ys) = file_text k xs @ file_text k ys"
  by (induction k xs rule: file_text.induct) auto

lemma stdout_text_append [simp]: "stdout_text (xs @ ys) = stdout_text xs @ stdout_text ys"
  by (induction xs rule: stdout_text.induct) auto

lemma opened_append [simp]: "opened (xs @ ys) = opened xs + opened ys"
  by (induction xs rule: opened.induct) auto

lemma directories_created_append [simp]:
  "directories_created (xs @ ys) = directories_created xs + directories_created ys"
  by (induction xs rule: directories_created.induct) auto

lemma write_entry_effect:
  assumes "log_ok can_open config ml" and "write_entry can_open ts e ml = (events, ml')"
  shows "log_ok can_open config ml'"
    and "dom (ml_files ml') = (if to_file config then insert (entry_key config e) (dom (ml_files ml))
                               else dom (ml_files ml))"
    and "file_text k events =
      (if to_file config \<and> entry_key config e = k \<and> can_open (path_join (mlc_directory config) k)
       then entry_text config ts e else [])"
    and "stdout_text events = (if mlc_output config = Out_File then [] else entry_text config ts e)"
    and "opened events = card (dom (ml_files ml')) - card (dom (ml_files ml))"
    and "directories_created events = (if ml_dir_created ml' \<and> \<not> ml_dir_created ml then 1 else 0)"
  using assms
  by (cases "mlc_output config"; cases "ml_files ml (entry_key config e)";
      force simp: log_ok_def write_entry_def get_stream_def entry_key_def to_file_def Let_def domIff
        insert_absorb card_insert_if split: if_splits)+

definition entries_text :: "MessageLogConfig \<Rightarrow> (string \<times> log_record) list \<Rightarrow> string" where
  "entries_text config es = concat (map (\<lambda>(ts, e). entry_text config ts e) es)"

lemma log_all_writes:
  assumes "log_ok can_open config ml"
  shows "file_text k (fst (log_all can_open es ml)) =
      (if to_file config \<and> can_open (path_join (mlc_directory config) k)
       then entries_text config (filter (\<lambda>(ts, e). entry_key config e = k) es) else []) \<and>
    stdout_text (fst (log_all can_open es ml)) = (if mlc_output config = Out_File then [] else entries_text config es)"
  using assms
proof (induction can_open es ml rule: log_all.induct)
  case (2 can_open ts e es ml)
  obtain events ml' where step: "write_entry can_open ts e ml = (events, ml')" by (cases "write_entry can_open ts e ml")
  note effect = write_entry_effect [OF "2.prems" step]
  show ?case using "2.IH" [OF step [symmetric] refl effect(1)] effect(3,4) step
    by (auto simp: entries_text_def case_prod_beta)
qed (simp add: entries_text_def)

lemma log_all_opens:
  assumes "log_ok can_open config ml" and "to_file config"
  shows "opened (fst (log_all can_open es ml)) + card (dom (ml_files ml)) =
      card (dom (ml_files ml) \<union> entry_key config ` snd ` set es) \<and>
    directories_created (fst (log_all can_open es ml)) = (if ml_dir_created ml \<or> es = [] then 0 else 1)"
  using assms
proof (induction can_open es ml rule: log_all.induct)
  case (2 can_open ts e es ml)
  obtain events ml' where step: "write_entry can_open ts e ml = (events, ml')" by (cases "write_entry can_open ts e ml")
  note effect = write_entry_effect [OF "2.prems"(1) step]
  have dom: "dom (ml_files ml') = insert (entry_key config e) (dom (ml_files ml))"
    using effect(2) "2.prems"(2) by simp
  then have "card (dom (ml_files ml)) \<le> card (dom (ml_files ml'))" and created: "ml_dir_created ml'"
    using effect(1) "2.prems"(1) by (auto simp: log_ok_def card_insert_if)
  then show ?case using "2.IH" [OF step [symmetric] refl effect(1) "2.prems"(2)] effect(5,6) step dom
    by (simp add: case_prod_beta)
qed simp

text \<open>
  C30: every entry goes where the configuration sends it and nowhere else: after any sequence of calls
  the text in a file is the concatenation, in order, of exactly the entries whose key it is (nothing when
  the file could not be opened), and standard output has all of them or none.
\<close>

theorem log_routing:
  "file_text k (fst (log_all can_open es (mk_message_log config))) =
     (if to_file config \<and> can_open (path_join (mlc_directory config) k)
      then entries_text config (filter (\<lambda>(ts, e). entry_key config e = k) es) else []) \<and>
   stdout_text (fst (log_all can_open es (mk_message_log config))) =
     (if mlc_output config = Out_File then [] else entries_text config es)"
  by (rule log_all_writes) (simp add: log_ok_def mk_message_log_def)

text \<open>
  Each file is opened once, however many entries it gets and whether or not opening it worked, and
  the directory is created once.
\<close>

lemma log_opens_once:
  assumes "to_file config"
  shows "opened (fst (log_all can_open es (mk_message_log config))) = card (entry_key config ` snd ` set es) \<and>
    directories_created (fst (log_all can_open es (mk_message_log config))) = (if es = [] then 0 else 1)"
  using log_all_opens [of can_open config "mk_message_log config" es] assms
  by (simp add: log_ok_def mk_message_log_def)

definition example_record :: "string \<Rightarrow> string \<Rightarrow> log_record" where
  "example_record direction peer = \<lparr>lr_direction = direction, lr_peer_name = peer, lr_remote_endpoint = [],
     lr_type_name = ''T'', lr_byte_count = 1, lr_message_content = [], lr_protocol = ''p'',
     lr_transport = ''udp'', lr_raw_bytes = [1]\<rparr>"

end
