(* ===== verification/Bounded_Queue.thy ===== *)
theory Bounded_Queue
  imports Conduit_Prelude "HOL-Library.Sublist"
begin

text \<open>
  The ring buffer \<open>conduit::queue::BoundedQueue\<close>: \<open>include/conduit/queue/bounded_queue.hpp\<close>.

  Every member function holds the queue's mutex for the whole of its body, so each is one atomic
  step on the record \<open>BoundedQueue\<close>.  A function that waits on a condition variable returns an
  \<open>option\<close>: \<open>None\<close> while its wait predicate is false (the caller keeps waiting and changes nothing),
  and the timed variants take whether their deadline has passed.  The statistics are the
  \<open>uint64_t\<close> counters with their wrap-around.  \<open>bq_blank\<close> is \<open>T{}\<close>, the value a slot is reset to.

  The second half refines the ring buffer to a list, states the contract a client of a bounded
  queue relies on as a locale, and shows what any interleaving of calls does to the elements.
\<close>

section \<open>The queue\<close>

datatype DropPolicy = DropOldest | DropNewest | Block

record QueueStats =
  qs_enqueued :: u64
  qs_dequeued :: u64
  qs_dropped :: u64
  qs_peak_size :: nat
  qs_current_size :: nat

definition stats_reset :: "QueueStats \<Rightarrow> QueueStats" where
  "stats_reset s =
     s\<lparr>qs_enqueued := 0, qs_dequeued := 0, qs_dropped := 0, qs_peak_size := 0, qs_current_size := 0\<rparr>"

record QueueStatsSnapshot =
  snap_enqueued :: u64
  snap_dequeued :: u64
  snap_dropped :: u64
  snap_peak_size :: nat
  snap_current_size :: nat

definition snapshot_from :: "QueueStats \<Rightarrow> QueueStatsSnapshot" where
  "snapshot_from s =
     \<lparr>snap_enqueued = qs_enqueued s, snap_dequeued = qs_dequeued s, snap_dropped = qs_dropped s,
      snap_peak_size = qs_peak_size s, snap_current_size = qs_current_size s\<rparr>"

record 'a BoundedQueue =
  bq_capacity :: nat
  bq_policy :: DropPolicy
  bq_buffer :: "'a list"
  bq_head :: nat
  bq_tail :: nat
  bq_size :: nat
  bq_closed :: bool
  bq_stats :: QueueStats
  bq_blank :: 'a

definition mk_queue :: "'a \<Rightarrow> nat \<Rightarrow> DropPolicy \<Rightarrow> 'a BoundedQueue" where
  "mk_queue blank capacity policy =
     (let capacity = (if capacity > 0 then capacity else 1)
      in \<lparr>bq_capacity = capacity, bq_policy = policy, bq_buffer = replicate capacity blank,
          bq_head = 0, bq_tail = 0, bq_size = 0, bq_closed = False,
          bq_stats = \<lparr>qs_enqueued = 0, qs_dequeued = 0, qs_dropped = 0, qs_peak_size = 0, qs_current_size = 0\<rparr>,
          bq_blank = blank\<rparr>)"

section \<open>Producer operations\<close>

definition count_dropped :: "'a BoundedQueue \<Rightarrow> 'a BoundedQueue" where
  "count_dropped q = q\<lparr>bq_stats := (bq_stats q)\<lparr>qs_dropped := qs_dropped (bq_stats q) + 1\<rparr>\<rparr>"

text \<open>The compare-and-swap loop raises the peak to the size, which only this thread can change.\<close>

definition update_peak_size :: "'a BoundedQueue \<Rightarrow> 'a BoundedQueue" where
  "update_peak_size q =
     q\<lparr>bq_stats := (bq_stats q)\<lparr>qs_current_size := bq_size q,
          qs_peak_size := (if bq_size q > qs_peak_size (bq_stats q) then bq_size q
                           else qs_peak_size (bq_stats q))\<rparr>\<rparr>"

text \<open>Blanking the head slot and moving on, as dropping, popping and clearing do.\<close>

definition discard_head :: "'a BoundedQueue \<Rightarrow> 'a BoundedQueue" where
  "discard_head q =
     q\<lparr>bq_buffer := (bq_buffer q)[bq_head q := bq_blank q],
       bq_head := (bq_head q + 1) mod bq_capacity q, bq_size := bq_size q - 1\<rparr>"

definition enqueue_tail :: "'a \<Rightarrow> 'a BoundedQueue \<Rightarrow> 'a BoundedQueue" where
  "enqueue_tail item q =
     (let q = q\<lparr>bq_buffer := (bq_buffer q)[bq_tail q := item],
                bq_tail := (bq_tail q + 1) mod bq_capacity q, bq_size := bq_size q + 1\<rparr>;
          q = q\<lparr>bq_stats := (bq_stats q)\<lparr>qs_enqueued := qs_enqueued (bq_stats q) + 1\<rparr>\<rparr>
      in update_peak_size q)"

definition try_push :: "'a \<Rightarrow> 'a BoundedQueue \<Rightarrow> bool \<times> 'a BoundedQueue" where
  "try_push item q =
     (if bq_closed q then (False, q)
      else if bq_size q \<ge> bq_capacity q then
        (case bq_policy q of
           DropOldest \<Rightarrow> (True, enqueue_tail item (count_dropped (discard_head q)))
         | DropNewest \<Rightarrow> (False, count_dropped q)
         | Block \<Rightarrow> (False, count_dropped q))
      else (True, enqueue_tail item q))"

definition push :: "'a \<Rightarrow> 'a BoundedQueue \<Rightarrow> (bool \<times> 'a BoundedQueue) option" where
  "push item q =
     (if bq_policy q = Block \<and> \<not> (bq_size q < bq_capacity q \<or> bq_closed q) then None
      else Some
        (if bq_closed q then (False, q)
         else if bq_size q \<ge> bq_capacity q then
           (if bq_policy q = DropOldest then (True, enqueue_tail item (count_dropped (discard_head q)))
            else if bq_policy q = DropNewest then (False, count_dropped q)
            else (True, enqueue_tail item q))
         else (True, enqueue_tail item q)))"

definition push_for :: "bool \<Rightarrow> 'a \<Rightarrow> 'a BoundedQueue \<Rightarrow> (bool \<times> 'a BoundedQueue) option" where
  "push_for timed_out item q =
     (if bq_policy q = Block \<and> bq_size q \<ge> bq_capacity q \<and> \<not> (bq_size q < bq_capacity q \<or> bq_closed q)
      then (if timed_out then Some (False, q) else None)
      else Some
        (if bq_closed q then (False, q)
         else if bq_size q \<ge> bq_capacity q then
           (if bq_policy q = DropOldest then (True, enqueue_tail item (count_dropped (discard_head q)))
            else (False, count_dropped q))
         else (True, enqueue_tail item q)))"

section \<open>Consumer operations\<close>

definition count_dequeued :: "nat \<Rightarrow> 'a BoundedQueue \<Rightarrow> 'a BoundedQueue" where
  "count_dequeued n q =
     q\<lparr>bq_stats := (bq_stats q)\<lparr>qs_dequeued := qs_dequeued (bq_stats q) + of_nat n,
                                 qs_current_size := bq_size q\<rparr>\<rparr>"

definition take_head :: "'a BoundedQueue \<Rightarrow> 'a option \<times> 'a BoundedQueue" where
  "take_head q = (Some (bq_buffer q ! bq_head q), count_dequeued 1 (discard_head q))"

definition try_pop :: "'a BoundedQueue \<Rightarrow> 'a option \<times> 'a BoundedQueue" where
  "try_pop q = (if bq_size q = 0 then (None, q) else take_head q)"

definition pop :: "'a BoundedQueue \<Rightarrow> ('a option \<times> 'a BoundedQueue) option" where
  "pop q =
     (if \<not> (bq_size q > 0 \<or> bq_closed q) then None
      else Some (if bq_size q = 0 then (None, q) else take_head q))"

definition pop_for :: "bool \<Rightarrow> 'a BoundedQueue \<Rightarrow> ('a option \<times> 'a BoundedQueue) option" where
  "pop_for timed_out q =
     (if \<not> (bq_size q > 0 \<or> bq_closed q) then (if timed_out then Some (None, q) else None)
      else Some (if bq_size q = 0 then (None, q) else take_head q))"

text \<open>The loop of \<open>pop_batch\<close> moves the head; the size is adjusted once after it.\<close>

fun pop_batch_loop :: "nat \<Rightarrow> 'a list \<Rightarrow> 'a BoundedQueue \<Rightarrow> 'a list \<times> 'a BoundedQueue" where
  "pop_batch_loop 0 result q = (result, q)"
| "pop_batch_loop (Suc n) result q =
     pop_batch_loop n (result @ [bq_buffer q ! bq_head q])
       (q\<lparr>bq_buffer := (bq_buffer q)[bq_head q := bq_blank q],
          bq_head := (bq_head q + 1) mod bq_capacity q\<rparr>)"

definition pop_batch :: "nat \<Rightarrow> 'a BoundedQueue \<Rightarrow> 'a list \<times> 'a BoundedQueue" where
  "pop_batch max_count q =
     (let count = min max_count (bq_size q);
          (result, q) = pop_batch_loop count [] q;
          q = q\<lparr>bq_size := bq_size q - count\<rparr>
      in (result, count_dequeued count q))"

section \<open>Management and queries\<close>

definition queue_close :: "'a BoundedQueue \<Rightarrow> 'a BoundedQueue" where
  "queue_close q = q\<lparr>bq_closed := True\<rparr>"

function clear_loop :: "'a BoundedQueue \<Rightarrow> 'a BoundedQueue" where
  "clear_loop q = (if bq_size q > 0 then clear_loop (discard_head q) else q)"
  by pat_completeness auto
termination
  by (relation "measure bq_size") (auto simp: discard_head_def)

declare clear_loop.simps [simp del]

definition queue_clear :: "'a BoundedQueue \<Rightarrow> 'a BoundedQueue" where
  "queue_clear q =
     (let q = clear_loop q in q\<lparr>bq_stats := (bq_stats q)\<lparr>qs_current_size := 0\<rparr>\<rparr>)"

definition queue_empty :: "'a BoundedQueue \<Rightarrow> bool" where
  "queue_empty q \<longleftrightarrow> bq_size q = 0"

definition queue_full :: "'a BoundedQueue \<Rightarrow> bool" where
  "queue_full q \<longleftrightarrow> bq_size q \<ge> bq_capacity q"

definition reset_stats :: "'a BoundedQueue \<Rightarrow> 'a BoundedQueue" where
  "reset_stats q = q\<lparr>bq_stats := stats_reset (bq_stats q)\<rparr>"

section \<open>The ring buffer as a list\<close>

definition slot :: "'a BoundedQueue \<Rightarrow> nat \<Rightarrow> nat" where
  "slot q i = (bq_head q + i) mod bq_capacity q"

definition contents :: "'a BoundedQueue \<Rightarrow> 'a list" where
  "contents q = map (\<lambda>i. bq_buffer q ! slot q i) [0..<bq_size q]"

text \<open>
  The class invariant: indices inside the buffer, the tail behind the last element, and every
  slot that holds no element reset to \<open>T{}\<close>.
\<close>

definition queue_ok :: "'a BoundedQueue \<Rightarrow> bool" where
  "queue_ok q \<longleftrightarrow>
     0 < bq_capacity q \<and> length (bq_buffer q) = bq_capacity q \<and> bq_head q < bq_capacity q \<and>
     bq_tail q = slot q (bq_size q) \<and> bq_size q \<le> bq_capacity q \<and>
     (\<forall>i. bq_size q \<le> i \<longrightarrow> i < bq_capacity q \<longrightarrow> bq_buffer q ! slot q i = bq_blank q)"

lemma length_contents [simp]: "length (contents q) = bq_size q"
  by (simp add: contents_def)

lemma slot_inj_le:
  assumes "i \<le> j" and "j < bq_capacity q" and "slot q i = slot q j"
  shows "i = j"
proof -
  have "bq_capacity q dvd (bq_head q + j) - (bq_head q + i)"
    using assms by (subst mod_eq_dvd_iff_nat [symmetric]) (simp_all add: slot_def)
  then have "bq_capacity q dvd j - i" by simp
  then show ?thesis using assms(1,2) nat_dvd_not_less [of "j - i" "bq_capacity q"] by linarith
qed

lemma slot_inj:
  "i < bq_capacity q \<Longrightarrow> j < bq_capacity q \<Longrightarrow> slot q i = slot q j \<longleftrightarrow> i = j"
  using slot_inj_le [of i j q] slot_inj_le [of j i q] by (metis nat_le_linear)

lemma slot_less: "queue_ok q \<Longrightarrow> slot q i < length (bq_buffer q)"
  by (simp add: queue_ok_def slot_def)

lemma slot_0: "queue_ok q \<Longrightarrow> slot q 0 = bq_head q"
  by (simp add: queue_ok_def slot_def)

text \<open>The four primitive changes: drop the first element, add a last one, count.\<close>

lemma discard_head_sel [queue_simps]:
  "bq_capacity (discard_head q) = bq_capacity q" "bq_policy (discard_head q) = bq_policy q"
  "bq_size (discard_head q) = bq_size q - 1" "bq_closed (discard_head q) = bq_closed q"
  "bq_stats (discard_head q) = bq_stats q" "bq_blank (discard_head q) = bq_blank q"
  "bq_tail (discard_head q) = bq_tail q"
  by (simp_all add: discard_head_def)

lemma slot_discard_head: "slot (discard_head q) i = slot q (Suc i)"
  by (simp add: slot_def discard_head_def mod_simps)

lemma slot_wraps: "slot q (bq_capacity q) = slot q 0"
  by (simp add: slot_def)

lemma buffer_discard_head:
  assumes "queue_ok q" and "i < bq_capacity q"
  shows "bq_buffer (discard_head q) ! slot q i = (if i = 0 then bq_blank q else bq_buffer q ! slot q i)"
  using assms slot_inj [of 0 q i] slot_less [OF assms(1), of i] slot_0 [OF assms(1)]
  by (auto simp: discard_head_def queue_ok_def nth_list_update)

lemma discard_head_ok:
  assumes q: "queue_ok q" and ne: "bq_size q > 0"
  shows "queue_ok (discard_head q)" and "contents (discard_head q) = tl (contents q)"
proof -
  have size: "bq_size q \<le> bq_capacity q" "0 < bq_capacity q" using q by (simp_all add: queue_ok_def)
  have "bq_buffer (discard_head q) ! slot q (Suc i) = bq_blank q"
    if "bq_size q - 1 \<le> i" "i < bq_capacity q" for i
  proof (cases "Suc i = bq_capacity q")
    case True
    then show ?thesis using buffer_discard_head [OF q size(2)] slot_wraps [of q] by simp
  next
    case False
    with that buffer_discard_head [OF q, of "Suc i"] q show ?thesis by (simp add: queue_ok_def)
  qed
  then show "queue_ok (discard_head q)"
    using q ne by (auto simp: queue_ok_def queue_simps slot_discard_head) (simp_all add: discard_head_def)
  show "contents (discard_head q) = tl (contents q)"
  proof (rule nth_equalityI)
    fix i assume "i < length (contents (discard_head q))"
    then have "Suc i < bq_size q" "i < bq_size q - Suc 0" by (simp_all add: queue_simps)
    then show "contents (discard_head q) ! i = tl (contents q) ! i"
      using buffer_discard_head [OF q, of "Suc i"] size(1)
      by (simp add: contents_def queue_simps slot_discard_head nth_tl)
  qed (simp add: queue_simps)
qed

lemma enqueue_tail_sel [queue_simps]:
  "bq_capacity (enqueue_tail x q) = bq_capacity q" "bq_policy (enqueue_tail x q) = bq_policy q"
  "bq_size (enqueue_tail x q) = bq_size q + 1" "bq_closed (enqueue_tail x q) = bq_closed q"
  "bq_blank (enqueue_tail x q) = bq_blank q" "bq_head (enqueue_tail x q) = bq_head q"
  "bq_tail (enqueue_tail x q) = (bq_tail q + 1) mod bq_capacity q"
  "bq_buffer (enqueue_tail x q) = (bq_buffer q)[bq_tail q := x]"
  "qs_enqueued (bq_stats (enqueue_tail x q)) = qs_enqueued (bq_stats q) + 1"
  "qs_dequeued (bq_stats (enqueue_tail x q)) = qs_dequeued (bq_stats q)"
  "qs_dropped (bq_stats (enqueue_tail x q)) = qs_dropped (bq_stats q)"
  "qs_current_size (bq_stats (enqueue_tail x q)) = bq_size q + 1"
  "qs_peak_size (bq_stats (enqueue_tail x q)) = max (qs_peak_size (bq_stats q)) (bq_size q + 1)"
  by (simp_all add: enqueue_tail_def update_peak_size_def Let_def)

lemma slot_enqueue_tail: "slot (enqueue_tail x q) i = slot q i"
  by (simp add: slot_def queue_simps)

lemma enqueue_tail_ok:
  assumes q: "queue_ok q" and room: "bq_size q < bq_capacity q"
  shows "queue_ok (enqueue_tail x q)" and "contents (enqueue_tail x q) = contents q @ [x]"
proof -
  have tail: "bq_tail q = slot q (bq_size q)" using q by (simp add: queue_ok_def)
  have buf: "bq_buffer (enqueue_tail x q) ! slot q i = (if i = bq_size q then x else bq_buffer q ! slot q i)"
    if "i < bq_capacity q" for i
    using slot_inj [OF room that] slot_less [OF q] by (auto simp: queue_simps tail nth_list_update)
  have "(slot q (bq_size q) + 1) mod bq_capacity q = slot q (bq_size q + 1)"
    by (simp add: slot_def mod_simps)
  with buf q room show "queue_ok (enqueue_tail x q)"
    by (auto simp: queue_ok_def queue_simps slot_enqueue_tail tail)
  show "contents (enqueue_tail x q) = contents q @ [x]"
  proof (rule nth_equalityI)
    fix i assume "i < length (contents (enqueue_tail x q))"
    then have "i \<le> bq_size q" by (simp add: queue_simps)
    then show "contents (enqueue_tail x q) ! i = (contents q @ [x]) ! i"
      using buf [of i] room
      by (cases "i = bq_size q")
        (simp_all add: contents_def queue_simps slot_enqueue_tail nth_append del: upt_Suc)
  qed (simp add: queue_simps)
qed

lemma count_sel [queue_simps]:
  "bq_capacity (count_dropped q) = bq_capacity q" "bq_policy (count_dropped q) = bq_policy q"
  "bq_size (count_dropped q) = bq_size q" "bq_closed (count_dropped q) = bq_closed q"
  "bq_stats (count_dropped q) = (bq_stats q)\<lparr>qs_dropped := qs_dropped (bq_stats q) + 1\<rparr>"
  "bq_capacity (count_dequeued n q) = bq_capacity q" "bq_policy (count_dequeued n q) = bq_policy q"
  "bq_size (count_dequeued n q) = bq_size q" "bq_closed (count_dequeued n q) = bq_closed q"
  "bq_stats (count_dequeued n q) =
     (bq_stats q)\<lparr>qs_dequeued := qs_dequeued (bq_stats q) + of_nat n, qs_current_size := bq_size q\<rparr>"
  by (simp_all add: count_dropped_def count_dequeued_def)

lemma stats_irrelevant [queue_simps]:
  "queue_ok (q\<lparr>bq_stats := s\<rparr>) = queue_ok q" "contents (q\<lparr>bq_stats := s\<rparr>) = contents q"
  "queue_ok (q\<lparr>bq_closed := c\<rparr>) = queue_ok q" "contents (q\<lparr>bq_closed := c\<rparr>) = contents q"
  by (simp_all add: queue_ok_def contents_def slot_def)

lemma count_ok [queue_simps]:
  "queue_ok (count_dropped q) = queue_ok q" "contents (count_dropped q) = contents q"
  "queue_ok (count_dequeued n q) = queue_ok q" "contents (count_dequeued n q) = contents q"
  by (simp_all add: count_dropped_def count_dequeued_def stats_irrelevant)

lemma mk_queue_ok: "queue_ok (mk_queue b c p)" "contents (mk_queue b c p) = []"
  by (auto simp: mk_queue_def queue_ok_def contents_def slot_def Let_def)

section \<open>Refinement of a list with a capacity\<close>

text \<open>What offering an element means for the sequence of elements held.\<close>

definition spec_push :: "DropPolicy \<Rightarrow> nat \<Rightarrow> bool \<Rightarrow> 'a \<Rightarrow> 'a list \<Rightarrow> bool \<times> 'a list" where
  "spec_push policy cap closed x xs =
     (if closed then (False, xs)
      else if length xs < cap then (True, xs @ [x])
      else if policy = DropOldest then (True, tl xs @ [x])
      else (False, xs))"

definition same_setup :: "'a BoundedQueue \<Rightarrow> 'a BoundedQueue \<Rightarrow> bool" where
  "same_setup q q' \<longleftrightarrow> bq_capacity q' = bq_capacity q \<and> bq_policy q' = bq_policy q"

lemma replace_oldest_ok:
  assumes "queue_ok q" and "bq_size q \<ge> bq_capacity q"
  shows "queue_ok (enqueue_tail x (count_dropped (discard_head q)))"
    and "contents (enqueue_tail x (count_dropped (discard_head q))) = tl (contents q) @ [x]"
proof -
  have ne: "bq_size q > 0" using assms by (auto simp: queue_ok_def)
  note d = discard_head_ok [OF assms(1) ne]
  have "bq_size (discard_head q) < bq_capacity (discard_head q)"
    using ne assms by (auto simp: queue_simps queue_ok_def)
  then show "queue_ok (enqueue_tail x (count_dropped (discard_head q)))"
    and "contents (enqueue_tail x (count_dropped (discard_head q))) = tl (contents q) @ [x]"
    using d enqueue_tail_ok [of "count_dropped (discard_head q)" x] by (simp_all add: queue_simps)
qed

lemma try_push_refines:
  assumes "queue_ok q" and "try_push x q = (ok, q')"
  shows "queue_ok q'" and "same_setup q q'" and "bq_closed q' = bq_closed q"
    and "spec_push (bq_policy q) (bq_capacity q) (bq_closed q) x (contents q) = (ok, contents q')"
  using assms replace_oldest_ok [OF assms(1)] enqueue_tail_ok [OF assms(1)]
  by (auto simp: try_push_def spec_push_def same_setup_def queue_simps not_less
      split: if_splits DropPolicy.splits)

text \<open>The other two ways of adding an element are \<open>try_push\<close> once their wait is over.\<close>

lemma push_eq_try_push:
  "queue_ok q \<Longrightarrow> push x q = (if bq_policy q = Block \<and> queue_full q \<and> \<not> bq_closed q then None
     else Some (try_push x q))"
  by (cases "bq_policy q") (auto simp: push_def try_push_def queue_full_def)

lemma push_for_eq_try_push:
  "queue_ok q \<Longrightarrow> push_for t x q = (if bq_policy q = Block \<and> queue_full q \<and> \<not> bq_closed q
     then (if t then Some (False, q) else None) else Some (try_push x q))"
  by (cases "bq_policy q") (auto simp: push_for_def try_push_def queue_full_def)

lemma contents_Cons:
  assumes "queue_ok q" and "bq_size q > 0"
  shows "contents q = bq_buffer q ! bq_head q # contents (discard_head q)"
proof -
  have "contents q \<noteq> []" using assms(2) by (metis length_contents length_greater_0_conv)
  moreover have "hd (contents q) = bq_buffer q ! bq_head q"
    using assms slot_0 [OF assms(1)] by (simp add: contents_def hd_map)
  ultimately show ?thesis using discard_head_ok(2) [OF assms] by (metis list.collapse)
qed

lemma try_pop_refines:
  assumes "queue_ok q" and "try_pop q = (r, q')"
  shows "queue_ok q'" and "same_setup q q'" and "bq_closed q' = bq_closed q"
    and "contents q = (case r of None \<Rightarrow> [] | Some x \<Rightarrow> [x]) @ contents q'"
    and "r = None \<longleftrightarrow> contents q = []"
proof -
  have "queue_ok q' \<and> same_setup q q' \<and> bq_closed q' = bq_closed q \<and>
      contents q = (case r of None \<Rightarrow> [] | Some x \<Rightarrow> [x]) @ contents q' \<and> (r = None \<longleftrightarrow> contents q = [])"
  proof (cases "bq_size q = 0")
    case True
    then have "contents q = []" by (simp add: contents_def)
    with True assms show ?thesis by (auto simp: try_pop_def same_setup_def)
  next
    case False
    then have ne: "bq_size q > 0" by simp
    from False assms(2) have "r = Some (bq_buffer q ! bq_head q)" "q' = count_dequeued 1 (discard_head q)"
      by (simp_all add: try_pop_def take_head_def)
    with contents_Cons [OF assms(1) ne] discard_head_ok(1) [OF assms(1) ne] show ?thesis
      by (simp add: queue_simps same_setup_def)
  qed
  then show "queue_ok q'" and "same_setup q q'" and "bq_closed q' = bq_closed q"
    and "contents q = (case r of None \<Rightarrow> [] | Some x \<Rightarrow> [x]) @ contents q'"
    and "r = None \<longleftrightarrow> contents q = []"
    by simp_all
qed

lemma pop_eq_try_pop:
  "pop q = (if queue_empty q \<and> \<not> bq_closed q then None else Some (try_pop q))"
  by (auto simp: pop_def try_pop_def queue_empty_def)

lemma pop_for_eq_try_pop:
  "pop_for t q = (if queue_empty q \<and> \<not> bq_closed q then (if t then Some (None, q) else None)
     else Some (try_pop q))"
  by (auto simp: pop_for_def try_pop_def queue_empty_def)

text \<open>The batch loop is repeated discarding, with the size adjusted at the end.\<close>

lemma pop_batch_loop_eq:
  "queue_ok q \<Longrightarrow> n \<le> bq_size q \<Longrightarrow>
   pop_batch_loop n acc (q\<lparr>bq_size := s\<rparr>) =
     (acc @ take n (contents q), ((discard_head ^^ n) q)\<lparr>bq_size := s\<rparr>)"
proof (induction n arbitrary: q acc)
  case 0
  then show ?case by simp
next
  case (Suc n)
  then have ne: "bq_size q > 0" by simp
  note d = discard_head_ok [OF Suc.prems(1) ne]
  let ?q = "q\<lparr>bq_size := s\<rparr>"
  have "?q\<lparr>bq_buffer := (bq_buffer ?q)[bq_head ?q := bq_blank ?q],
      bq_head := (bq_head ?q + 1) mod bq_capacity ?q\<rparr> = (discard_head q)\<lparr>bq_size := s\<rparr>"
    by (simp add: discard_head_def)
  moreover have "take (Suc n) (contents q) = bq_buffer q ! bq_head q # take n (contents (discard_head q))"
    using contents_Cons [OF Suc.prems(1) ne] by simp
  moreover have "n \<le> bq_size (discard_head q)" using Suc.prems by (simp add: queue_simps)
  ultimately show ?case
    using Suc.IH [OF d(1), of "acc @ [bq_buffer q ! bq_head q]"] by (simp add: funpow_swap1)
qed

lemma discard_many_ok:
  "queue_ok q \<Longrightarrow> n \<le> bq_size q \<Longrightarrow>
   queue_ok ((discard_head ^^ n) q) \<and> contents ((discard_head ^^ n) q) = drop n (contents q) \<and>
   bq_size ((discard_head ^^ n) q) = bq_size q - n \<and> same_setup q ((discard_head ^^ n) q) \<and>
   bq_stats ((discard_head ^^ n) q) = bq_stats q \<and> bq_closed ((discard_head ^^ n) q) = bq_closed q"
proof (induction n)
  case (Suc n)
  then have "bq_size ((discard_head ^^ n) q) > 0" by simp
  with Suc discard_head_ok [of "(discard_head ^^ n) q"] show ?case
    by (simp add: queue_simps same_setup_def drop_Suc tl_drop)
qed (simp add: same_setup_def)

lemma set_size_self: "bq_size q = s \<Longrightarrow> q\<lparr>bq_size := s\<rparr> = q"
  by auto

lemma pop_batch_refines:
  assumes "queue_ok q"
  shows "fst (pop_batch n q) = take n (contents q)" and "contents (snd (pop_batch n q)) = drop n (contents q)"
    and "queue_ok (snd (pop_batch n q))" and "same_setup q (snd (pop_batch n q))"
    and "bq_closed (snd (pop_batch n q)) = bq_closed q"
    and "bq_stats (snd (pop_batch n q)) = (bq_stats q)\<lparr>
      qs_dequeued := qs_dequeued (bq_stats q) + of_nat (length (take n (contents q))),
      qs_current_size := length (drop n (contents q))\<rparr>"
proof -
  define m where "m = min n (bq_size q)"
  have m: "m \<le> bq_size q" "take m (contents q) = take n (contents q)" "drop m (contents q) = drop n (contents q)"
    by (simp_all add: m_def min_def)
  note d = discard_many_ok [OF assms m(1)]
  have "q\<lparr>bq_size := bq_size q\<rparr> = q" by simp
  then have "pop_batch_loop m [] q = (take n (contents q), ((discard_head ^^ m) q)\<lparr>bq_size := bq_size q\<rparr>)"
    using pop_batch_loop_eq [OF assms m(1), of "[]" "bq_size q"] m(2) by simp
  moreover have "((discard_head ^^ m) q)\<lparr>bq_size := bq_size q - m\<rparr> = (discard_head ^^ m) q"
    using d by (intro set_size_self) simp
  ultimately have "pop_batch n q = (take n (contents q), count_dequeued m ((discard_head ^^ m) q))"
    unfolding pop_batch_def Let_def m_def [symmetric] by simp
  moreover have "bq_size q - m = bq_size q - n" "m = min (bq_size q) n" by (auto simp: m_def)
  ultimately show "fst (pop_batch n q) = take n (contents q)"
    and "contents (snd (pop_batch n q)) = drop n (contents q)"
    and "queue_ok (snd (pop_batch n q))" and "same_setup q (snd (pop_batch n q))"
    and "bq_closed (snd (pop_batch n q)) = bq_closed q"
    and "bq_stats (snd (pop_batch n q)) = (bq_stats q)\<lparr>
      qs_dequeued := qs_dequeued (bq_stats q) + of_nat (length (take n (contents q))),
      qs_current_size := length (drop n (contents q))\<rparr>"
    using d m(3) by (simp_all add: queue_simps same_setup_def)
qed

lemma clear_loop_eq:
  "queue_ok q \<Longrightarrow> clear_loop q = (discard_head ^^ bq_size q) q"
proof (induction q rule: clear_loop.induct)
  case (1 q)
  show ?case
  proof (cases "bq_size q > 0")
    case True
    with 1 discard_head_ok [of q] obtain n where "bq_size q = Suc n"
      "clear_loop (discard_head q) = (discard_head ^^ n) (discard_head q)"
      by (cases "bq_size q") (auto simp: queue_simps)
    with True show ?thesis by (simp add: clear_loop.simps [of q] funpow_swap1)
  qed (simp add: clear_loop.simps)
qed

lemma queue_clear_refines:
  assumes "queue_ok q"
  shows "queue_ok (queue_clear q)" and "contents (queue_clear q) = []"
    and "same_setup q (queue_clear q)" and "bq_closed (queue_clear q) = bq_closed q"
    and "bq_stats (queue_clear q) = (bq_stats q)\<lparr>qs_current_size := 0\<rparr>"
  using discard_many_ok [OF assms order_refl]
  by (simp_all add: queue_clear_def clear_loop_eq [OF assms] Let_def queue_simps same_setup_def)

section \<open>The contract of a bounded queue\<close>

text \<open>
  What a client of the queue relies on, on the sequence of elements held: an accepted element is
  the new last one and at most old elements give way to it, a refused one changes nothing, and
  polling gives the first.
\<close>

locale bounded_fifo =
  fixes invar :: "'q \<Rightarrow> bool" and held :: "'q \<Rightarrow> 'a list" and cap :: "'q \<Rightarrow> nat"
    and offer :: "'a \<Rightarrow> 'q \<Rightarrow> bool \<times> 'q" and poll :: "'q \<Rightarrow> 'a option \<times> 'q"
  assumes bounded: "invar q \<Longrightarrow> length (held q) \<le> cap q"
    and offer_invar: "invar q \<Longrightarrow> offer x q = (b, q') \<Longrightarrow> invar q' \<and> cap q' = cap q"
    and offer_accepted: "invar q \<Longrightarrow> offer x q = (True, q') \<Longrightarrow> \<exists>ys. suffix ys (held q) \<and> held q' = ys @ [x]"
    and offer_refused: "invar q \<Longrightarrow> offer x q = (False, q') \<Longrightarrow> held q' = held q"
    and poll_invar: "invar q \<Longrightarrow> poll q = (r, q') \<Longrightarrow> invar q' \<and> cap q' = cap q"
    and poll_first: "invar q \<Longrightarrow> poll q = (r, q') \<Longrightarrow>
      held q = (case r of None \<Rightarrow> [] | Some x \<Rightarrow> [x]) @ held q' \<and> (r = None \<longleftrightarrow> held q = [])"
begin

text \<open>Polling \<open>n\<close> times, as a worker draining the queue does.\<close>

primrec drain :: "nat \<Rightarrow> 'q \<Rightarrow> 'a list \<times> 'q" where
  "drain 0 q = ([], q)"
| "drain (Suc n) q =
     (case poll q of
        (None, q) \<Rightarrow> ([], q)
      | (Some x, q) \<Rightarrow> (case drain n q of (xs, q) \<Rightarrow> (x # xs, q)))"

lemma drain_takes:
  "invar q \<Longrightarrow> drain n q = (xs, q') \<Longrightarrow> xs = take n (held q) \<and> held q' = drop n (held q) \<and> invar q'"
proof (induction n arbitrary: q xs q')
  case (Suc n)
  obtain r q1 where p: "poll q = (r, q1)" by (cases "poll q")
  note p1 = poll_invar [OF Suc.prems(1) p] poll_first [OF Suc.prems(1) p]
  obtain ys q2 where d: "drain n q1 = (ys, q2)" by (cases "drain n q1")
  show ?case
    using Suc.IH [OF _ d] Suc.prems(2) p p1 d by (cases r) auto
qed simp

lemma drain_all:
  assumes "invar q" and "cap q \<le> n"
  shows "fst (drain n q) = held q \<and> held (snd (drain n q)) = []"
  using assms bounded [OF assms(1)] drain_takes [OF assms(1), of n] by (cases "drain n q") auto

lemma offered_is_last:
  assumes "invar q" and "offer x q = (True, q')"
  shows "last (held q') = x \<and> subseq (held q') (held q @ [x])"
  using offer_accepted [OF assms] by (auto simp: suffix_imp_subseq subseq_append_iff)

end

definition queue_cap :: "'a BoundedQueue \<Rightarrow> nat" where
  "queue_cap q = bq_capacity q"

lemma spec_push_accepted:
  "spec_push p c cl x xs = (True, ys) \<Longrightarrow> \<exists>zs. suffix zs xs \<and> ys = zs @ [x]"
  by (auto simp: spec_push_def suffix_tl split: if_splits)

lemma spec_push_refused: "spec_push p c cl x xs = (False, ys) \<Longrightarrow> ys = xs"
  by (auto simp: spec_push_def split: if_splits)

interpretation ring: bounded_fifo queue_ok contents queue_cap try_push try_pop
proof
  show "length (contents q) \<le> queue_cap q" if "queue_ok q" for q :: "'a BoundedQueue"
    using that by (simp add: queue_ok_def queue_cap_def)
next
  fix q q' :: "'a BoundedQueue" and x b assume "queue_ok q" "try_push x q = (b, q')"
  from try_push_refines [OF this] show "queue_ok q' \<and> queue_cap q' = queue_cap q"
    by (simp add: same_setup_def queue_cap_def)
next
  fix q q' :: "'a BoundedQueue" and x assume "queue_ok q" "try_push x q = (True, q')"
  from try_push_refines(4) [OF this] show "\<exists>ys. suffix ys (contents q) \<and> contents q' = ys @ [x]"
    by (rule spec_push_accepted)
next
  fix q q' :: "'a BoundedQueue" and x assume "queue_ok q" "try_push x q = (False, q')"
  from try_push_refines(4) [OF this] show "contents q' = contents q" by (rule spec_push_refused)
next
  fix q q' :: "'a BoundedQueue" and r assume "queue_ok q" "try_pop q = (r, q')"
  from try_pop_refines [OF this] show "queue_ok q' \<and> queue_cap q' = queue_cap q"
    by (simp add: same_setup_def queue_cap_def)
next
  fix q q' :: "'a BoundedQueue" and r assume "queue_ok q" "try_pop q = (r, q')"
  from try_pop_refines(4,5) [OF this]
  show "contents q = (case r of None \<Rightarrow> [] | Some x \<Rightarrow> [x]) @ contents q' \<and> (r = None \<longleftrightarrow> contents q = [])"
    by blast
qed

section \<open>Runs of a shared queue\<close>

text \<open>
  A run is the sequence of calls in the order in which they held the mutex.  A waiting call
  contributes a step when its wait is over.
\<close>

datatype 'a label = Accepted 'a | Refused 'a | Taken "'a list" | Closed | Cleared

definition pushed :: "'a \<Rightarrow> bool \<Rightarrow> 'a label" where
  "pushed x b = (if b then Accepted x else Refused x)"

definition popped :: "'a option \<Rightarrow> 'a label" where
  "popped r = Taken (case r of None \<Rightarrow> [] | Some x \<Rightarrow> [x])"

inductive queue_step :: "'a BoundedQueue \<Rightarrow> 'a label \<Rightarrow> 'a BoundedQueue \<Rightarrow> bool" where
  step_try_push: "try_push x q = (b, q') \<Longrightarrow> queue_step q (pushed x b) q'"
| step_push: "push x q = Some (b, q') \<Longrightarrow> queue_step q (pushed x b) q'"
| step_push_for: "push_for t x q = Some (b, q') \<Longrightarrow> queue_step q (pushed x b) q'"
| step_try_pop: "try_pop q = (r, q') \<Longrightarrow> queue_step q (popped r) q'"
| step_pop: "pop q = Some (r, q') \<Longrightarrow> queue_step q (popped r) q'"
| step_pop_for: "pop_for t q = Some (r, q') \<Longrightarrow> queue_step q (popped r) q'"
| step_pop_batch: "pop_batch n q = (xs, q') \<Longrightarrow> queue_step q (Taken xs) q'"
| step_close: "queue_step q Closed (queue_close q)"
| step_clear: "queue_step q Cleared (queue_clear q)"

inductive queue_run :: "'a BoundedQueue \<Rightarrow> 'a label list \<Rightarrow> 'a BoundedQueue \<Rightarrow> bool" where
  run_nil: "queue_run q [] q"
| run_snoc: "queue_run q ls q' \<Longrightarrow> queue_step q' l q'' \<Longrightarrow> queue_run q (ls @ [l]) q''"

fun accepted :: "'a label list \<Rightarrow> 'a list" where
  "accepted [] = []"
| "accepted (Accepted x # ls) = x # accepted ls"
| "accepted (_ # ls) = accepted ls"

fun taken :: "'a label list \<Rightarrow> 'a list" where
  "taken [] = []"
| "taken (Taken xs # ls) = xs @ taken ls"
| "taken (_ # ls) = taken ls"

lemma accepted_append [simp]: "accepted (ls @ ms) = accepted ls @ accepted ms"
  by (induction ls rule: accepted.induct) simp_all

lemma taken_append [simp]: "taken (ls @ ms) = taken ls @ taken ms"
  by (induction ls rule: taken.induct) simp_all

text \<open>One step, by what it does to the elements held: the cases every run property needs.\<close>

lemma queue_step_cases:
  assumes "queue_step q l q'" and "queue_ok q"
  obtains (push) x b where "l = pushed x b" "try_push x q = (b, q')"
    | (timeout) x where "l = Refused x" "q' = q" "queue_full q"
    | (pop) r where "l = popped r" "try_pop q = (r, q')"
    | (nothing) "l = Taken []" "q' = q"
    | (batch) n xs where "l = Taken xs" "pop_batch n q = (xs, q')"
    | (close) "l = Closed" "q' = queue_close q"
    | (clear) "l = Cleared" "q' = queue_clear q"
  using assms(1)
proof cases
  case (step_push x b)
  with push_eq_try_push [OF assms(2), of x] that(1) show ?thesis by (auto split: if_splits)
next
  case (step_push_for t x b)
  with push_for_eq_try_push [OF assms(2), of t x] that(1,2) show ?thesis
    by (auto simp: pushed_def split: if_splits)
next
  case (step_pop r)
  with pop_eq_try_pop [of q] that(3) show ?thesis by (auto split: if_splits)
next
  case (step_pop_for t r)
  with pop_for_eq_try_pop [of t q] that(3,4) show ?thesis by (auto simp: popped_def split: if_splits)
qed (use that in auto)

lemma queue_step_ok:
  assumes "queue_step q l q'" and "queue_ok q"
  shows "queue_ok q' \<and> same_setup q q' \<and> (bq_closed q \<longrightarrow> bq_closed q')"
  using assms
proof (cases rule: queue_step_cases)
  case (push x b)
  from try_push_refines [OF assms(2) push(2)] show ?thesis by simp
next
  case (pop r)
  from try_pop_refines [OF assms(2) pop(2)] show ?thesis by simp
next
  case (batch n xs)
  with pop_batch_refines(3-5) [OF assms(2), of n] show ?thesis by simp
next
  case clear
  with queue_clear_refines [OF assms(2)] show ?thesis by simp
qed (use assms in \<open>simp_all add: same_setup_def queue_close_def queue_simps\<close>)

lemma queue_run_ok:
  "queue_run q ls q' \<Longrightarrow> queue_ok q \<Longrightarrow> queue_ok q' \<and> same_setup q q' \<and> (bq_closed q \<longrightarrow> bq_closed q')"
proof (induction rule: queue_run.induct)
  case (run_snoc q ls q' l q'')
  then show ?case using queue_step_ok [of q' l q''] by (auto simp: same_setup_def)
qed (simp add: same_setup_def)

text \<open>
  The elements: what was taken and what is still held, together, come in the order in which they
  were accepted, and only the oldest-first policy and \<open>clear\<close> lose any.
\<close>

lemma queue_step_elements:
  assumes "queue_step q l q'" and "queue_ok q"
  shows "subseq (taken [l] @ contents q') (contents q @ accepted [l])"
    and "bq_policy q \<noteq> DropOldest \<Longrightarrow> l \<noteq> Cleared \<Longrightarrow> contents q @ accepted [l] = taken [l] @ contents q'"
proof -
  have "subseq (taken [l] @ contents q') (contents q @ accepted [l]) \<and>
    (bq_policy q \<noteq> DropOldest \<longrightarrow> l \<noteq> Cleared \<longrightarrow> contents q @ accepted [l] = taken [l] @ contents q')"
    using assms
  proof (cases rule: queue_step_cases)
    case (push x b)
    show ?thesis
    proof (cases b)
      case True
      with push ring.offered_is_last [OF assms(2), of x q'] try_push_refines(4) [OF assms(2) push(2)]
      show ?thesis by (auto simp: pushed_def spec_push_def split: if_splits)
    next
      case False
      with push ring.offer_refused [OF assms(2), of x q'] show ?thesis by (simp add: pushed_def)
    qed
  next
    case (pop r)
    with try_pop_refines(4) [OF assms(2) pop(2)] show ?thesis by (simp add: popped_def)
  next
    case (batch n xs)
    with pop_batch_refines(1,2) [OF assms(2), of n] show ?thesis by simp
  next
    case clear
    with queue_clear_refines(2) [OF assms(2)] show ?thesis by simp
  qed (simp_all add: queue_close_def queue_simps)
  then show "subseq (taken [l] @ contents q') (contents q @ accepted [l])"
    and "bq_policy q \<noteq> DropOldest \<Longrightarrow> l \<noteq> Cleared \<Longrightarrow> contents q @ accepted [l] = taken [l] @ contents q'"
    by blast+
qed

lemma queue_run_elements:
  "queue_run q ls q' \<Longrightarrow> queue_ok q \<Longrightarrow> subseq (taken ls @ contents q') (contents q @ accepted ls)"
proof (induction rule: queue_run.induct)
  case (run_snoc q ls q' l q'')
  have "queue_ok q'" using queue_run_ok run_snoc by blast
  have "subseq (taken ls @ (taken [l] @ contents q'')) (taken ls @ (contents q' @ accepted [l]))"
    using queue_step_elements(1) [OF run_snoc.hyps(2) \<open>queue_ok q'\<close>] by (simp only: subseq_append')
  moreover have "subseq ((taken ls @ contents q') @ accepted [l]) ((contents q @ accepted ls) @ accepted [l])"
    using run_snoc by (simp only: subseq_append)
  ultimately show ?case
    using subseq_order.order_trans by (simp only: append.assoc accepted_append taken_append)
qed simp

lemma queue_run_elements_exact:
  "queue_run q ls q' \<Longrightarrow> queue_ok q \<Longrightarrow> bq_policy q \<noteq> DropOldest \<Longrightarrow> Cleared \<notin> set ls \<Longrightarrow>
   contents q @ accepted ls = taken ls @ contents q'"
proof (induction rule: queue_run.induct)
  case (run_snoc q ls q' l q'')
  have "queue_ok q'" "same_setup q q'" using queue_run_ok run_snoc by blast+
  with queue_step_elements(2) [OF run_snoc.hyps(2)] run_snoc
  have "contents q' @ accepted [l] = taken [l] @ contents q''" by (auto simp: same_setup_def)
  moreover have "contents q @ accepted ls = taken ls @ contents q'" using run_snoc by simp
  ultimately show ?case by (metis append.assoc accepted_append taken_append)
qed simp

text \<open>The counters follow the run, modulo \<open>2 ^ 64\<close>.\<close>

definition stats_ok :: "'a label list \<Rightarrow> 'a BoundedQueue \<Rightarrow> bool" where
  "stats_ok ls q \<longleftrightarrow>
     qs_enqueued (bq_stats q) = of_nat (length (accepted ls)) \<and>
     qs_dequeued (bq_stats q) = of_nat (length (taken ls)) \<and>
     qs_current_size (bq_stats q) = bq_size q \<and>
     bq_size q \<le> qs_peak_size (bq_stats q) \<and> qs_peak_size (bq_stats q) \<le> bq_capacity q"

lemma try_push_stats:
  assumes "queue_ok q" and "try_push x q = (b, q')" and "stats_ok ls q"
  shows "stats_ok (ls @ [pushed x b]) q'"
  using assms
  by (auto simp: try_push_def stats_ok_def pushed_def queue_simps queue_ok_def
      split: if_splits DropPolicy.splits)

lemma try_pop_stats:
  assumes "queue_ok q" and "try_pop q = (r, q')" and "stats_ok ls q"
  shows "stats_ok (ls @ [popped r]) q'"
  using assms by (auto simp: try_pop_def take_head_def stats_ok_def popped_def queue_simps split: if_splits)

lemma queue_step_stats:
  assumes "queue_step q l q'" and "queue_ok q" and "stats_ok ls q"
  shows "stats_ok (ls @ [l]) q'"
  using assms(1,2)
proof (cases rule: queue_step_cases)
  case (push x b)
  with try_push_stats [OF assms(2) push(2) assms(3)] show ?thesis by simp
next
  case (pop r)
  with try_pop_stats [OF assms(2) pop(2) assms(3)] show ?thesis by simp
next
  case (batch n xs)
  with pop_batch_refines [OF assms(2), of n] assms(3) length_contents [of q'] show ?thesis
    by (auto simp: stats_ok_def same_setup_def)
next
  case clear
  with queue_clear_refines [OF assms(2)] assms(3) length_contents [of q'] show ?thesis
    by (auto simp: stats_ok_def same_setup_def)
qed (use assms(3) in \<open>simp_all add: stats_ok_def queue_close_def\<close>)

lemma queue_run_stats:
  "queue_run q ls q' \<Longrightarrow> queue_ok q \<Longrightarrow> stats_ok [] q \<Longrightarrow> stats_ok ls q'"
proof (induction rule: queue_run.induct)
  case (run_snoc q ls q' l q'')
  then show ?case using queue_step_stats queue_run_ok by blast
qed simp

lemma mk_queue_stats: "stats_ok [] (mk_queue b c p)"
  by (simp add: stats_ok_def mk_queue_def Let_def)

text \<open>The oldest-first policy counts each element it gives up.\<close>

definition conserved :: "'a BoundedQueue \<Rightarrow> bool" where
  "conserved q \<longleftrightarrow>
     qs_enqueued (bq_stats q) = qs_dequeued (bq_stats q) + qs_dropped (bq_stats q) + of_nat (bq_size q)"

lemma queue_step_conserved:
  assumes "queue_step q l q'" and "queue_ok q" and "bq_policy q = DropOldest" and "l \<noteq> Cleared"
    and "conserved q"
  shows "conserved q'"
  using assms(1,2)
proof (cases rule: queue_step_cases)
  case (push x b)
  have "of_nat (bq_size q) = (1 :: u64) + of_nat (bq_size q - 1)" if "bq_size q \<ge> bq_capacity q"
  proof -
    have "bq_size q = Suc (bq_size q - 1)" using that assms(2) by (auto simp: queue_ok_def)
    then show ?thesis by (metis of_nat_Suc)
  qed
  with push assms(3,5) show ?thesis
    by (auto simp: try_push_def conserved_def queue_simps algebra_simps split: if_splits)
next
  case (pop r)
  have "of_nat (bq_size q) = (1 :: u64) + of_nat (bq_size q - 1)" if "bq_size q \<noteq> 0"
    using that by (metis of_nat_Suc Suc_pred neq0_conv diff_Suc_1)
  with pop assms(5) show ?thesis
    by (auto simp: try_pop_def take_head_def conserved_def queue_simps algebra_simps split: if_splits)
next
  case (batch n xs)
  have "of_nat (bq_size q) = (of_nat (length (take n (contents q))) :: u64) + of_nat (length (drop n (contents q)))"
    by (metis append_take_drop_id length_append length_contents of_nat_add)
  with batch pop_batch_refines(2,6) [OF assms(2), of n] assms(5) length_contents [of q'] show ?thesis
    by (auto simp: conserved_def algebra_simps)
qed (use assms in \<open>simp_all add: conserved_def queue_close_def\<close>)

lemma queue_run_conserved:
  "queue_run q ls q' \<Longrightarrow> queue_ok q \<Longrightarrow> bq_policy q = DropOldest \<Longrightarrow> Cleared \<notin> set ls \<Longrightarrow> conserved q \<Longrightarrow>
   conserved q'"
proof (induction rule: queue_run.induct)
  case (run_snoc q ls q' l q'')
  have "queue_ok q'" "bq_policy q' = DropOldest"
    using queue_run_ok [OF run_snoc.hyps(1)] run_snoc.prems by (auto simp: same_setup_def)
  with run_snoc show ?case by (auto intro: queue_step_conserved)
qed simp

text \<open>Running a list of calls, to evaluate examples.\<close>

datatype 'a call = Try_push 'a | Push 'a | Try_pop | Pop | Pop_batch nat | Close | Clear

primrec do_call :: "'a call \<Rightarrow> 'a BoundedQueue \<Rightarrow> ('a label \<times> 'a BoundedQueue) option" where
  "do_call (Try_push x) q = (case try_push x q of (b, q) \<Rightarrow> Some (pushed x b, q))"
| "do_call (Push x) q = (case push x q of None \<Rightarrow> None | Some (b, q) \<Rightarrow> Some (pushed x b, q))"
| "do_call Try_pop q = (case try_pop q of (r, q) \<Rightarrow> Some (popped r, q))"
| "do_call Pop q = (case pop q of None \<Rightarrow> None | Some (r, q) \<Rightarrow> Some (popped r, q))"
| "do_call (Pop_batch n) q = (case pop_batch n q of (xs, q) \<Rightarrow> Some (Taken xs, q))"
| "do_call Close q = Some (Closed, queue_close q)"
| "do_call Clear q = Some (Cleared, queue_clear q)"

fun do_calls :: "'a call list \<Rightarrow> 'a label list \<times> 'a BoundedQueue \<Rightarrow> ('a label list \<times> 'a BoundedQueue) option" where
  "do_calls [] s = Some s"
| "do_calls (c # cs) (ls, q) =
     (case do_call c q of None \<Rightarrow> None | Some (l, q) \<Rightarrow> do_calls cs (ls @ [l], q))"

lemma do_call_step: "do_call c q = Some (l, q') \<Longrightarrow> queue_step q l q'"
  by (cases c) (auto intro: queue_step.intros split: prod.splits option.splits)

lemma do_calls_run:
  "do_calls cs (ls, q) = Some (ls', q') \<Longrightarrow> queue_run q0 ls q \<Longrightarrow> queue_run q0 ls' q'"
proof (induction cs arbitrary: ls q)
  case (Cons c cs)
  then show ?case
    by (auto split: option.splits dest!: do_call_step intro: run_snoc)
qed simp

lemma calls_run: "do_calls cs ([], q) = Some (ls, q') \<Longrightarrow> queue_run q ls q'"
  by (rule do_calls_run) (auto intro: run_nil)

section \<open>Properties\<close>

text \<open>
  C8: first in, first out.  Whatever producers and consumers do to a queue that refuses new elements
  when it is full or makes producers wait, the elements accepted so far are exactly those taken out, in
  the order of acceptance, followed by those still held: none is lost, duplicated or reordered.
\<close>

theorem queue_fifo:
  assumes "queue_run (mk_queue blank capacity policy) ls q" and "policy \<noteq> DropOldest"
    and "Cleared \<notin> set ls"
  shows "accepted ls = taken ls @ contents q"
  using queue_run_elements_exact [OF assms(1) mk_queue_ok(1)] assms(2,3)
  by (simp add: mk_queue_ok) (simp add: mk_queue_def Let_def)

definition example_end :: "DropPolicy \<Rightarrow> nat list \<Rightarrow> u64 \<Rightarrow> nat BoundedQueue" where
  "example_end p buf enq =
     \<lparr>bq_capacity = 2, bq_policy = p, bq_buffer = buf, bq_head = 0, bq_tail = 1, bq_size = 1,
      bq_closed = False,
      bq_stats = \<lparr>qs_enqueued = enq, qs_dequeued = 2, qs_dropped = 1, qs_peak_size = 2, qs_current_size = 1\<rparr>,
      bq_blank = 0\<rparr>"

lemma example_newest:
  "queue_run (mk_queue 0 2 DropNewest)
     [Accepted 7, Accepted 8, Refused 9, Taken [7], Accepted 10, Taken [8]]
     (example_end DropNewest [10, 0] 3)"
  by (rule calls_run [of "[Try_push 7, Push 8, Try_push 9, Try_pop, Push 10, Pop_batch 1]"]) code_simp

lemma example_oldest:
  "queue_run (mk_queue 0 2 DropOldest)
     [Accepted 7, Accepted 8, Accepted 9, Taken [8], Accepted 10, Taken [9]]
     ((example_end DropOldest [0, 10] 4)\<lparr>bq_head := 1, bq_tail := 0\<rparr>)"
  by (rule calls_run [of "[Try_push 7, Push 8, Try_push 9, Try_pop, Push 10, Pop_batch 1]"]) code_simp

theorem queue_fifo_witness:
  "accepted [Accepted 7, Accepted 8, Refused 9, Taken [7], Accepted 10, Taken [8 :: nat]] =
     [7, 8] @ contents (example_end DropNewest [10, 0] 3)"
  using queue_fifo [OF example_newest] by simp

text \<open>
  Under every policy, and even when the queue is cleared, what consumers have taken followed by
  what is still held is a subsequence of what was accepted: elements may be lost, oldest first, but
  never overtake one another.
\<close>

lemma queue_order:
  assumes "queue_run (mk_queue blank capacity policy) ls q"
  shows "subseq (taken ls @ contents q) (accepted ls)"
  using queue_run_elements [OF assms mk_queue_ok(1)] by (simp add: mk_queue_ok)

text \<open>
  C22: every state a queue can reach is well formed: the indices are inside the buffer, the queue
  never holds more than its capacity (one, for a requested capacity of zero), and every slot without an
  element has been reset to the blank value.
\<close>

theorem queue_invariant:
  assumes "queue_run (mk_queue blank capacity policy) ls q"
  shows "queue_ok q \<and> length (contents q) \<le> max capacity 1"
  using queue_run_ok [OF assms mk_queue_ok(1)]
  by (auto simp: queue_ok_def same_setup_def mk_queue_def Let_def split: if_splits)

theorem queue_invariant_witness:
  "queue_ok (example_end DropNewest [10, 0] 3) \<and> length (contents (example_end DropNewest [10, 0] 3)) \<le> 2"
  using queue_invariant [OF example_newest] by simp



text \<open>
  \<open>try_push\<close> implements the bounded-list specification on every branch: closed, room, full with
  the oldest element given up, full and refused.
\<close>

lemma try_push_refinement:
  assumes "queue_ok q"
  shows "map_prod id contents (try_push x q) =
    spec_push (bq_policy q) (bq_capacity q) (bq_closed q) x (contents q)"
  using try_push_refines(4) [OF assms, of x] by (cases "try_push x q") simp



text \<open>
  \<open>reset_stats\<close> sets the current size to zero whatever the queue holds, so until the next call
  that adds or takes an element the reported size of a queue with elements in it is wrong.
\<close>

lemma reset_stats_loses_size:
  "qs_current_size (bq_stats (reset_stats q)) = 0 \<and> contents (reset_stats q) = contents q \<and>
   bq_size (reset_stats q) = bq_size q"
  by (simp add: reset_stats_def stats_reset_def queue_simps)

end
