(* ===== verification/Stream_Framer.thy ===== *)
theory Stream_Framer
  imports Conduit_Error
begin

text \<open>
  Frame extraction from a byte stream: \<open>include/conduit/transceiver/stream_framer.hpp\<close> and
  \<open>src/transceiver/stream_framer.cpp\<close>.

  The framer asks its session for three things: the sync pattern, the size of the smallest header and
  the frame length a header announces.  Sessions are generated code, so the three are the record
  \<open>FrameSession\<close>, an argument of the model.  \<open>push_data\<close> is the member function with its buffer, its
  read offset and its size limit; \<open>framer_loop\<close> is its loop.

  The second half gives the loop's meaning on the unread bytes alone (\<open>scan\<close>) and shows that the
  framer computes it, that the result does not depend on how the stream was cut into chunks, that every
  frame emitted is one the session recognises, and that well-formed frames all come out.
\<close>

section \<open>The framer\<close>

record FrameSession =
  fs_sync_pattern :: bytes
  fs_min_frame_header_size :: nat
  fs_extract_frame_length :: "bytes \<Rightarrow> nat"

record StreamFramer =
  sf_buffer :: bytes
  sf_offset :: nat
  sf_max_buffer_size :: nat

definition mk_framer :: "nat \<Rightarrow> StreamFramer" where
  "mk_framer max_size = \<lparr>sf_buffer = [], sf_offset = 0, sf_max_buffer_size = max_size\<rparr>"

definition framer_reset :: "StreamFramer \<Rightarrow> StreamFramer" where
  "framer_reset f = f\<lparr>sf_buffer := [], sf_offset := 0\<rparr>"

definition buffered_bytes :: "StreamFramer \<Rightarrow> nat" where
  "buffered_bytes f =
     (if sf_offset f \<le> length (sf_buffer f) then length (sf_buffer f) - sf_offset f else 0)"

definition set_max_buffer_size :: "nat \<Rightarrow> StreamFramer \<Rightarrow> StreamFramer" where
  "set_max_buffer_size n f = f\<lparr>sf_max_buffer_size := n\<rparr>"

text \<open>
  What every branch for a corrupt length does: step over the sync pattern, or over one byte when
  there is none.  \<open>None\<close> leaves the loop.
\<close>

definition skip_corrupt :: "bytes \<Rightarrow> nat \<Rightarrow> nat option" where
  "skip_corrupt sync available =
     (if sync \<noteq> [] then (if available \<ge> length sync then Some (length sync) else None)
      else if available > 0 then Some 1 else None)"

text \<open>The position the sync search leaves the offset at, and whether a pattern was found.\<close>

definition find_sync :: "bytes \<Rightarrow> bytes \<Rightarrow> nat \<Rightarrow> bool \<times> nat" where
  "find_sync sync buffer offset =
     (if sync \<noteq> [] then
        (case search sync (drop offset buffer) of
           None \<Rightarrow>
             (False, if length buffer - offset > length sync - 1 then length buffer - (length sync - 1)
                     else offset)
         | Some i \<Rightarrow> (True, offset + i))
      else (True, offset))"

lemma find_sync_forward: "find_sync sync buffer offset = (True, p) \<Longrightarrow> offset \<le> p"
  by (auto simp: find_sync_def split: if_splits option.splits)

lemma skip_corrupt_progress: "skip_corrupt sync available = Some n \<Longrightarrow> 0 < n \<and> n \<le> available"
  by (auto simp: skip_corrupt_def split: if_splits)

function framer_loop ::
  "FrameSession \<Rightarrow> nat \<Rightarrow> nat \<Rightarrow> bytes \<Rightarrow> nat \<Rightarrow> bytes list \<Rightarrow> bytes list \<times> nat" where
  "framer_loop ses min_header max_size buffer offset frames =
     (case find_sync (fs_sync_pattern ses) buffer offset of
        (False, offset) \<Rightarrow> (frames, offset)
      | (True, offset) \<Rightarrow>
          let available = length buffer - offset
          in if available < min_header then (frames, offset)
             else
               let frame_length = fs_extract_frame_length ses (take min_header (drop offset buffer))
               in if frame_length > 0 \<and> frame_length < min_header then
                    (case skip_corrupt (fs_sync_pattern ses) available of
                       None \<Rightarrow> (frames, offset)
                     | Some n \<Rightarrow> framer_loop ses min_header max_size buffer (offset + n) frames)
                  else if frame_length > max_size then
                    (case skip_corrupt (fs_sync_pattern ses) available of
                       None \<Rightarrow> (frames, offset)
                     | Some n \<Rightarrow> framer_loop ses min_header max_size buffer (offset + n) frames)
                  else if frame_length = 0 then
                    (case skip_corrupt (fs_sync_pattern ses) available of
                       None \<Rightarrow> (frames, offset)
                     | Some n \<Rightarrow> framer_loop ses min_header max_size buffer (offset + n) frames)
                  else if available < frame_length then (frames, offset)
                  else framer_loop ses min_header max_size buffer (offset + frame_length)
                         (frames @ [take frame_length (drop offset buffer)]))"
  by pat_completeness auto
termination
proof (relation "measure (\<lambda>(ses, h, m, buffer, offset, frames). length buffer - offset)", goal_cases)
  case 1
  show ?case by simp
qed (auto dest!: find_sync_forward [OF sym] skip_corrupt_progress)

declare framer_loop.simps [simp del]

text \<open>A zero header size is raised to one before the loop.\<close>

definition push_data :: "FrameSession \<Rightarrow> bytes \<Rightarrow> StreamFramer \<Rightarrow> bytes list Result \<times> StreamFramer" where
  "push_data ses data f =
     (let f = (if length (sf_buffer f) + length data > sf_max_buffer_size f \<and> sf_offset f > 0
               then f\<lparr>sf_buffer := drop (sf_offset f) (sf_buffer f), sf_offset := 0\<rparr> else f)
      in if length (sf_buffer f) + length data > sf_max_buffer_size f then
           (Inl (mk_error BufferOverrun ''StreamFramer buffer exceeds max size''), framer_reset f)
         else
           let buffer = sf_buffer f @ data;
               min_header = (if fs_min_frame_header_size ses = 0 then 1 else fs_min_frame_header_size ses);
               (frames, offset) = framer_loop ses min_header (sf_max_buffer_size f) buffer (sf_offset f) [];
               f = (if offset > 0 \<and> (offset > length buffer div 2 \<or> frames \<noteq> [])
                    then f\<lparr>sf_buffer := drop offset buffer, sf_offset := 0\<rparr>
                    else f\<lparr>sf_buffer := buffer, sf_offset := offset\<rparr>)
           in (Inr frames, f))"

section \<open>What the loop computes\<close>

datatype action = Stop nat | Skip nat | Emit bytes nat

definition scan_step :: "FrameSession \<Rightarrow> nat \<Rightarrow> nat \<Rightarrow> bytes \<Rightarrow> action" where
  "scan_step ses h m xs =
     (case find_sync (fs_sync_pattern ses) xs 0 of
        (False, p) \<Rightarrow> Stop p
      | (True, p) \<Rightarrow>
          (if length xs - p < h then Stop p
           else
             let n = fs_extract_frame_length ses (take h (drop p xs))
             in if n < h \<or> n > m \<or> n = 0 then
                  (case skip_corrupt (fs_sync_pattern ses) (length xs - p) of
                     None \<Rightarrow> Stop p
                   | Some k \<Rightarrow> Skip (p + k))
                else if length xs - p < n then Stop p
                else Emit (take n (drop p xs)) (p + n)))"

lemma find_sync_bound:
  "find_sync sync xs 0 = (b, p) \<Longrightarrow> p \<le> length xs"
  by (auto simp: find_sync_def split: if_splits option.splits dest: search_bound)

lemma scan_step_progress:
  "scan_step ses h m xs = Skip n \<Longrightarrow> 0 < n \<and> n \<le> length xs"
  "scan_step ses h m xs = Emit f n \<Longrightarrow> 0 < n \<and> n \<le> length xs"
  "scan_step ses h m xs = Stop n \<Longrightarrow> n \<le> length xs"
  by (auto simp: scan_step_def Let_def split: if_splits option.splits prod.splits bool.splits
      dest!: find_sync_bound skip_corrupt_progress)

function scan :: "FrameSession \<Rightarrow> nat \<Rightarrow> nat \<Rightarrow> bytes \<Rightarrow> bytes list \<times> bytes" where
  "scan ses h m xs =
     (case scan_step ses h m xs of
        Stop n \<Rightarrow> ([], drop n xs)
      | Skip n \<Rightarrow> scan ses h m (drop n xs)
      | Emit f n \<Rightarrow> apfst (Cons f) (scan ses h m (drop n xs)))"
  by pat_completeness auto
termination
  by (relation "measure (\<lambda>(ses, h, m, xs). length xs)") (auto dest: scan_step_progress)

declare scan.simps [simp del]

lemma find_sync_drop:
  "off \<le> length buf \<Longrightarrow> find_sync sync buf off = apsnd ((+) off) (find_sync sync (drop off buf) 0)"
  by (auto simp: find_sync_def split: option.splits)

lemma framer_loop_step:
  assumes "off \<le> length buf"
  shows "framer_loop ses h m buf off frames =
    (case scan_step ses h m (drop off buf) of
       Stop n \<Rightarrow> (frames, off + n)
     | Skip n \<Rightarrow> framer_loop ses h m buf (off + n) frames
     | Emit f n \<Rightarrow> framer_loop ses h m buf (off + n) (frames @ [f]))"
proof -
  let ?sync = "fs_sync_pattern ses"
  obtain b p where fs: "find_sync ?sync (drop off buf) 0 = (b, p)" by fastforce
  have fs': "find_sync ?sync buf off = (b, off + p)" using fs find_sync_drop [OF assms] by simp
  show ?thesis
  proof (cases b)
    case False
    then show ?thesis
      by (simp only: framer_loop.simps [of ses h m buf off] scan_step_def fs fs') simp
  next
    case True
    define n where "n = fs_extract_frame_length ses (take h (drop (off + p) buf))"
    have n: "fs_extract_frame_length ses (take h (drop p (drop off buf))) = n"
      "length (drop off buf) - p = length buf - (off + p)" by (simp_all add: n_def add.commute)
    show ?thesis
      using True
      by (simp only: framer_loop.simps [of ses h m buf off] scan_step_def fs fs' n n_def [symmetric] Let_def)
        (auto simp: add.assoc add.commute [of p off] split: option.split)
  qed
qed

lemma framer_loop_scan:
  "off \<le> length buf \<Longrightarrow> framer_loop ses h m buf off frames = (fs, off') \<Longrightarrow>
   fs = frames @ fst (scan ses h m (drop off buf)) \<and> off \<le> off' \<and> off' \<le> length buf \<and>
   drop off' buf = snd (scan ses h m (drop off buf))"
proof (induction "length buf - off" arbitrary: off frames rule: less_induct)
  case less
  let ?xs = "drop off buf"
  note loop = framer_loop_step [OF less.prems(1), of ses h m frames]
  show ?case
  proof (cases "scan_step ses h m ?xs")
    case (Stop n)
    with loop less.prems scan_step_progress(3) [OF Stop] show ?thesis
      by (simp add: scan.simps [of _ _ _ ?xs] add.commute)
  next
    case (Skip n)
    note n = scan_step_progress(1) [OF Skip]
    have "length buf - (off + n) < length buf - off" "off + n \<le> length buf" using n less.prems(1) by auto
    from less.hyps [OF this, of frames] loop Skip less.prems(2) show ?thesis
      by (simp add: scan.simps [of _ _ _ ?xs] add.commute)
  next
    case (Emit f n)
    note n = scan_step_progress(2) [OF Emit]
    have "length buf - (off + n) < length buf - off" "off + n \<le> length buf" using n less.prems(1) by auto
    from less.hyps [OF this, of "frames @ [f]"] loop Emit less.prems(2) show ?thesis
      by (simp add: scan.simps [of _ _ _ ?xs] add.commute)
  qed
qed

section \<open>Independence of chunks\<close>

text \<open>More input does not change a decision that was already possible.\<close>

lemma find_sync_found_append:
  "find_sync sync xs 0 = (True, p) \<Longrightarrow> find_sync sync (xs @ ys) 0 = (True, p)"
  by (auto simp: find_sync_def search_append split: if_splits option.splits)

lemma find_sync_again:
  assumes "find_sync sync xs 0 = (True, p)"
  shows "find_sync sync (drop p xs @ ys) 0 = (True, 0)"
proof (cases "sync = []")
  case False
  with assms have s: "search sync xs = Some p" by (auto simp: find_sync_def split: if_splits option.splits)
  have "search sync (drop p xs @ ys) = Some 0"
    using search_bound [OF s] search_Some [OF s] by (intro search_here) simp
  with False show ?thesis by (simp add: find_sync_def)
qed (simp add: find_sync_def)

lemma find_sync_missed_append:
  assumes "find_sync sync xs 0 = (False, p)"
  shows "find_sync sync (xs @ ys) 0 = apsnd ((+) p) (find_sync sync (drop p xs @ ys) 0)"
proof -
  from assms have ne: "sync \<noteq> []" and s: "search sync xs = None"
    and p: "p = (if length xs > length sync - 1 then length xs - (length sync - 1) else 0)"
    by (auto simp: find_sync_def split: if_splits option.splits)
  have "length sync > 0" using ne by simp
  then have "p \<le> length xs" "p + length sync \<le> length xs + 1 \<or> p = 0" using p by auto
  then have "search sync (xs @ ys) = map_option ((+) p) (search sync (drop p xs @ ys))"
    using search_append_None [OF s ne, of p ys] by auto
  then have found: "search sync (xs @ ys) = map_option ((+) p) (search sync (drop p xs @ ys))" .
  define k where "k = length sync - 1"
  have pos: "(if length xs + length ys > k then length xs + length ys - k else 0) =
      p + (if length xs - p + length ys > k then length xs - p + length ys - k else 0)"
    using p unfolding k_def [symmetric] by (cases "length xs > k") auto
  show ?thesis
  proof (cases "search sync (drop p xs @ ys)")
    case None
    with found pos ne show ?thesis unfolding find_sync_def k_def [symmetric]
      by (auto split: if_splits)
  next
    case (Some i)
    with found ne show ?thesis by (simp add: find_sync_def)
  qed
qed

lemma scan_step_found:
  "find_sync (fs_sync_pattern ses) xs 0 = (True, p) \<Longrightarrow> scan_step ses h m xs =
     (if length xs - p < h then Stop p
      else
        let n = fs_extract_frame_length ses (take h (drop p xs))
        in if n < h \<or> n > m \<or> n = 0 then
             (case skip_corrupt (fs_sync_pattern ses) (length xs - p) of None \<Rightarrow> Stop p | Some k \<Rightarrow> Skip (p + k))
           else if length xs - p < n then Stop p
           else Emit (take n (drop p xs)) (p + n))"
  by (simp add: scan_step_def)

lemma skip_corrupt_more: "skip_corrupt sync a = Some k \<Longrightarrow> a \<le> b \<Longrightarrow> skip_corrupt sync b = Some k"
  by (cases sync) (auto simp: skip_corrupt_def split: if_splits)

lemma scan_step_append:
  assumes "\<And>n. scan_step ses h m xs \<noteq> Stop n"
  shows "scan_step ses h m (xs @ ys) = scan_step ses h m xs"
proof -
  obtain b p where fs: "find_sync (fs_sync_pattern ses) xs 0 = (b, p)" by fastforce
  have b using fs assms [of p] by (cases b) (simp_all add: scan_step_def)
  with fs have fs: "find_sync (fs_sync_pattern ses) xs 0 = (True, p)" by simp
  note step = scan_step_found [OF fs, of h m]
    and step' = scan_step_found [OF find_sync_found_append [OF fs, of ys], of h m]
  have len: "\<not> length xs - p < h" using step assms [of p] by metis
  have p: "p \<le> length xs" by (rule find_sync_bound [OF fs])
  define n where "n = fs_extract_frame_length ses (take h (drop p xs))"
  have n: "fs_extract_frame_length ses (take h (drop p (xs @ ys))) = n"
    using len p by (simp add: n_def)
  have len': "\<not> length (xs @ ys) - p < h" using len by simp
  note step = step [unfolded if_not_P [OF len] n_def [symmetric] Let_def]
    and step' = step' [unfolded if_not_P [OF len'] n Let_def]
  show ?thesis
  proof (cases "n < h \<or> n > m \<or> n = 0")
    case True
    with step have "scan_step ses h m xs =
        (case skip_corrupt (fs_sync_pattern ses) (length xs - p) of None \<Rightarrow> Stop p | Some k \<Rightarrow> Skip (p + k))"
      by (simp only: if_True)
    with assms [of p] obtain k where k: "skip_corrupt (fs_sync_pattern ses) (length xs - p) = Some k"
      by (cases "skip_corrupt (fs_sync_pattern ses) (length xs - p)") auto
    moreover have "skip_corrupt (fs_sync_pattern ses) (length (xs @ ys) - p) = Some k"
      using k by (rule skip_corrupt_more) simp
    ultimately show ?thesis using step step' True by (simp only: if_True option.case)
  next
    case False
    with step assms [of p] have "\<not> length xs - p < n" by (metis (full_types))
    moreover from this have "\<not> length (xs @ ys) - p < n" "take n (drop p (xs @ ys)) = take n (drop p xs)"
      using p by simp_all
    ultimately show ?thesis using step step' False by (simp only: if_False)
  qed
qed

lemma scan_step_stop:
  assumes "scan_step ses h m xs = Stop p"
  shows "find_sync (fs_sync_pattern ses) (xs @ ys) 0 =
    apsnd ((+) p) (find_sync (fs_sync_pattern ses) (drop p xs @ ys) 0)"
proof -
  obtain b q where fs: "find_sync (fs_sync_pattern ses) xs 0 = (b, q)" by fastforce
  have "q = p"
    using assms fs by (auto simp: scan_step_def Let_def split: bool.splits if_splits option.splits)
  with fs find_sync_missed_append [of "fs_sync_pattern ses" xs p ys]
    find_sync_found_append [of "fs_sync_pattern ses" xs p ys] find_sync_again [of "fs_sync_pattern ses" xs p ys]
  show ?thesis by (cases b) simp_all
qed

lemma scan_step_shift:
  assumes "find_sync (fs_sync_pattern ses) zs 0 = apsnd ((+) p) (find_sync (fs_sync_pattern ses) (drop p zs) 0)"
    and "p \<le> length zs"
  shows "scan_step ses h m zs =
    (case scan_step ses h m (drop p zs) of Stop n \<Rightarrow> Stop (p + n) | Skip n \<Rightarrow> Skip (p + n) | Emit f n \<Rightarrow> Emit f (p + n))"
proof -
  obtain b q where fs: "find_sync (fs_sync_pattern ses) (drop p zs) 0 = (b, q)" by fastforce
  with assms(1) have fs': "find_sync (fs_sync_pattern ses) zs 0 = (b, p + q)" by simp
  define L D where "L = length zs - (p + q)" and "D = drop (p + q) zs"
  have d: "length (drop p zs) - q = L" "drop q (drop p zs) = D"
    by (simp_all add: L_def D_def add.commute)
  show ?thesis
  proof (cases b)
    case True
    with fs fs' have s: "find_sync (fs_sync_pattern ses) (drop p zs) 0 = (True, q)"
      "find_sync (fs_sync_pattern ses) zs 0 = (True, p + q)" by simp_all
    show ?thesis
      unfolding scan_step_found [OF s(1)] scan_step_found [OF s(2)] d L_def [symmetric] D_def [symmetric] Let_def
      by (simp add: add.assoc split: option.split)
  qed (simp add: scan_step_def fs fs')
qed

lemma scan_stop_append:
  assumes "scan_step ses h m xs = Stop p"
  shows "scan ses h m (xs @ ys) = scan ses h m (drop p xs @ ys)"
proof -
  have p: "p \<le> length xs" using scan_step_progress(3) [OF assms] .
  then have "scan_step ses h m (xs @ ys) =
    (case scan_step ses h m (drop p xs @ ys) of
       Stop n \<Rightarrow> Stop (p + n) | Skip n \<Rightarrow> Skip (p + n) | Emit f n \<Rightarrow> Emit f (p + n))"
    using scan_step_shift [of ses "xs @ ys" p h m] scan_step_stop [OF assms, of ys] by simp
  moreover have "drop (p + n) (xs @ ys) = drop n (drop p xs @ ys)" for n
    using p by (simp add: add.commute flip: drop_drop)
  ultimately show ?thesis
    by (simp add: scan.simps [of _ _ _ "xs @ ys"] scan.simps [of _ _ _ "drop p xs @ ys"] split: action.splits)
qed

text \<open>Scanning a concatenation is scanning the first part, then the rest with what was left over.\<close>

lemma scan_append:
  "scan ses h m (xs @ ys) =
     (case scan ses h m xs of (fs, rest) \<Rightarrow> apfst ((@) fs) (scan ses h m (rest @ ys)))"
proof (induction ses h m xs rule: scan.induct)
  case (1 ses h m xs)
  show ?case
  proof (cases "scan_step ses h m xs")
    case (Stop n)
    then have "scan ses h m xs = ([], drop n xs)" by (simp add: scan.simps [of ses h m xs])
    with scan_stop_append [OF Stop, of ys] show ?thesis
      by (cases "scan ses h m (drop n xs @ ys)") simp
  next
    case (Skip n)
    then have "scan_step ses h m (xs @ ys) = Skip n" using scan_step_append [of ses h m xs ys] by simp
    then have "scan ses h m (xs @ ys) = scan ses h m (drop n xs @ ys)"
      using scan_step_progress(1) [OF Skip] by (simp add: scan.simps [of ses h m "xs @ ys"])
    moreover have "scan ses h m xs = scan ses h m (drop n xs)" by (simp add: scan.simps [of ses h m xs] Skip)
    ultimately show ?thesis using 1(1) [OF Skip] by (simp only:)
  next
    case (Emit f n)
    then have "scan_step ses h m (xs @ ys) = Emit f n" using scan_step_append [of ses h m xs ys] by simp
    then have "scan ses h m (xs @ ys) = apfst (Cons f) (scan ses h m (drop n xs @ ys))"
      using scan_step_progress(2) [OF Emit] by (simp add: scan.simps [of ses h m "xs @ ys"])
    moreover have "scan ses h m xs = apfst (Cons f) (scan ses h m (drop n xs))"
      by (simp add: scan.simps [of ses h m xs] Emit)
    moreover obtain fs rest where a: "scan ses h m (drop n xs) = (fs, rest)" by fastforce
    moreover obtain gs rest' where "scan ses h m (rest @ ys) = (gs, rest')" by fastforce
    ultimately show ?thesis using 1(2) [OF Emit] by simp
  qed
qed

section \<open>The framer refines the scan\<close>

definition framer_ok :: "StreamFramer \<Rightarrow> bool" where
  "framer_ok f \<longleftrightarrow> sf_offset f \<le> length (sf_buffer f) \<and> length (sf_buffer f) \<le> sf_max_buffer_size f"

definition unread :: "StreamFramer \<Rightarrow> bytes" where
  "unread f = drop (sf_offset f) (sf_buffer f)"

definition header_size :: "FrameSession \<Rightarrow> nat" where
  "header_size ses = (if fs_min_frame_header_size ses = 0 then 1 else fs_min_frame_header_size ses)"

lemma header_size_pos: "0 < header_size ses"
  by (simp add: header_size_def)

lemma buffered_bytes_unread: "buffered_bytes f = length (unread f)"
  by (simp add: buffered_bytes_def unread_def)

lemma mk_framer_ok [simp]: "framer_ok (mk_framer n)" "unread (mk_framer n) = []"
  "sf_max_buffer_size (mk_framer n) = n"
  by (simp_all add: framer_ok_def unread_def mk_framer_def)

lemma push_data_scan:
  fixes ses :: FrameSession
  assumes "framer_ok f" and "length (unread f) + length data \<le> sf_max_buffer_size f"
  defines "s \<equiv> scan ses (header_size ses) (sf_max_buffer_size f) (unread f @ data)"
  shows "\<exists>f'. push_data ses data f = (Inr (fst s), f') \<and> framer_ok f' \<and> unread f' = snd s \<and>
    sf_max_buffer_size f' = sf_max_buffer_size f"
proof -
  define g where "g = (if length (sf_buffer f) + length data > sf_max_buffer_size f \<and> sf_offset f > 0
    then f\<lparr>sf_buffer := drop (sf_offset f) (sf_buffer f), sf_offset := 0\<rparr> else f)"
  have g: "unread g = unread f" "sf_max_buffer_size g = sf_max_buffer_size f"
      "sf_offset g \<le> length (sf_buffer g)" "length (sf_buffer g) + length data \<le> sf_max_buffer_size f"
    using assms(1,2) by (auto simp: g_def unread_def framer_ok_def)
  let ?buf = "sf_buffer g @ data"
  obtain fs off where loop: "framer_loop ses (header_size ses) (sf_max_buffer_size f) ?buf (sf_offset g) [] = (fs, off)"
    by fastforce
  have "drop (sf_offset g) ?buf = unread f @ data" using g by (simp add: unread_def)
  with framer_loop_scan [OF _ loop] g(3) have off: "fs = fst s" "off \<le> length ?buf" "drop off ?buf = snd s"
    by (simp_all add: s_def)
  let ?f = "if off > 0 \<and> (off > length ?buf div 2 \<or> fs \<noteq> [])
    then g\<lparr>sf_buffer := drop off ?buf, sf_offset := 0\<rparr> else g\<lparr>sf_buffer := ?buf, sf_offset := off\<rparr>"
  have "push_data ses data f = (Inr fs, ?f)"
    using g(2,4) loop unfolding push_data_def Let_def g_def [symmetric] header_size_def [symmetric] by simp
  moreover have "length (snd s) \<le> sf_max_buffer_size f"
    using arg_cong [OF off(3), of length] g(4) by simp
  then have "framer_ok ?f" "unread ?f = snd s" "sf_max_buffer_size ?f = sf_max_buffer_size f"
    using off g(2,4) by (auto simp: framer_ok_def unread_def)
  ultimately show ?thesis using off(1) by blast
qed

lemma push_data_overflow:
  assumes "framer_ok f" and "length (unread f) + length data > sf_max_buffer_size f"
  shows "push_data ses data f =
    (Inl (mk_error BufferOverrun ''StreamFramer buffer exceeds max size''), mk_framer (sf_max_buffer_size f))"
  using assms by (auto simp: push_data_def Let_def unread_def framer_ok_def framer_reset_def mk_framer_def)

text \<open>Feeding a list of chunks, collecting the frames, until an error.\<close>

fun feed :: "FrameSession \<Rightarrow> bytes list \<Rightarrow> StreamFramer \<Rightarrow> bytes list Result \<times> StreamFramer" where
  "feed ses [] f = (Inr [], f)"
| "feed ses (c # cs) f =
     (case push_data ses c f of
        (Inl e, f) \<Rightarrow> (Inl e, f)
      | (Inr fs, f) \<Rightarrow>
          (case feed ses cs f of
             (Inl e, f) \<Rightarrow> (Inl e, f)
           | (Inr gs, f) \<Rightarrow> (Inr (fs @ gs), f)))"

lemma scan_rest_length: "length (snd (scan ses h m xs)) \<le> length xs"
proof (induction ses h m xs rule: scan.induct)
  case (1 ses h m xs)
  then show ?case
    by (cases "scan_step ses h m xs") (auto simp: scan.simps [of ses h m xs] intro: le_trans)
qed

lemma feed_scan:
  "framer_ok f \<Longrightarrow> length (unread f) + length (concat cs) \<le> sf_max_buffer_size f \<Longrightarrow>
   scan ses (header_size ses) (sf_max_buffer_size f) (unread f) = ([], unread f) \<Longrightarrow>
   \<exists>f'. feed ses cs f =
       (Inr (fst (scan ses (header_size ses) (sf_max_buffer_size f) (unread f @ concat cs))), f') \<and>
     framer_ok f' \<and> sf_max_buffer_size f' = sf_max_buffer_size f \<and>
     unread f' = snd (scan ses (header_size ses) (sf_max_buffer_size f) (unread f @ concat cs))"
proof (induction cs arbitrary: f)
  case Nil
  then show ?case by simp
next
  case (Cons c cs)
  let ?scan = "scan ses (header_size ses) (sf_max_buffer_size f)"
  obtain fs rest where s: "?scan (unread f @ c) = (fs, rest)" by fastforce
  have "length (unread f) + length c \<le> sf_max_buffer_size f" using Cons.prems(2) by simp
  from push_data_scan [OF Cons.prems(1) this, of ses] s obtain f1
    where f1: "push_data ses c f = (Inr fs, f1)" "framer_ok f1" "unread f1 = rest"
      "sf_max_buffer_size f1 = sf_max_buffer_size f" by auto
  have "length rest \<le> length (unread f @ c)"
    using scan_rest_length [of ses "header_size ses" "sf_max_buffer_size f" "unread f @ c"] s by simp
  then have "length (unread f1) + length (concat cs) \<le> sf_max_buffer_size f1"
    using Cons.prems(2) f1 by simp
  moreover have "?scan rest = ([], rest)"
    using scan_append [of ses "header_size ses" "sf_max_buffer_size f" "unread f @ c" "[]"] s
    by (cases "?scan rest") simp
  ultimately obtain f2 where f2: "feed ses cs f1 = (Inr (fst (?scan (rest @ concat cs))), f2)" "framer_ok f2"
      "sf_max_buffer_size f2 = sf_max_buffer_size f" "unread f2 = snd (?scan (rest @ concat cs))"
    using Cons.IH [OF f1(2)] f1(3,4) by auto
  moreover have "?scan (unread f @ concat (c # cs)) = apfst ((@) fs) (?scan (rest @ concat cs))"
    using scan_append [of ses "header_size ses" "sf_max_buffer_size f" "unread f @ c" "concat cs"] s by simp
  ultimately show ?case using f1(1) by simp
qed

section \<open>Frames\<close>

text \<open>What the session recognises as one frame.\<close>

definition good_frame :: "FrameSession \<Rightarrow> nat \<Rightarrow> bytes \<Rightarrow> bool" where
  "good_frame ses m f \<longleftrightarrow>
     take (length (fs_sync_pattern ses)) f = fs_sync_pattern ses \<and>
     header_size ses \<le> length f \<and> length f \<le> m \<and>
     fs_extract_frame_length ses (take (header_size ses) f) = length f"

lemma find_sync_at:
  "find_sync sync xs 0 = (True, p) \<Longrightarrow> take (length sync) (drop p xs) = sync"
  using search_Some [of sync xs p] by (auto simp: find_sync_def split: if_splits option.splits)

lemma scan_step_emit:
  assumes "scan_step ses h m xs = Emit f n" and "length (fs_sync_pattern ses) \<le> h"
  shows "take (length (fs_sync_pattern ses)) f = fs_sync_pattern ses" and "h \<le> length f" and "length f \<le> m"
    and "fs_extract_frame_length ses (take h f) = length f" and "f = drop (n - length f) (take n xs)"
proof -
  let ?sync = "fs_sync_pattern ses"
  obtain b p where fs: "find_sync ?sync xs 0 = (b, p)" by fastforce
  with assms(1) have b by (cases b) (simp_all add: scan_step_def)
  with fs have fs: "find_sync ?sync xs 0 = (True, p)" by simp
  define k where "k = fs_extract_frame_length ses (take h (drop p xs))"
  have k: "h \<le> k" "k \<le> m" "k \<le> length xs - p" "f = take k (drop p xs)" "n = p + k" "p \<le> length xs"
    using assms(1) find_sync_bound [OF fs] unfolding scan_step_found [OF fs] Let_def k_def [symmetric]
    by (auto split: if_splits option.splits)
  have "length ?sync \<le> k" using assms(2) k by linarith
  then show "take (length ?sync) f = ?sync" using find_sync_at [OF fs] k by (simp add: min_absorb1)
  show "h \<le> length f" "length f \<le> m" using k by auto
  show "fs_extract_frame_length ses (take h f) = length f" using k k_def by (simp add: min_absorb1)
  show "f = drop (n - length f) (take n xs)" using k by (simp add: drop_take)
qed

lemma scan_sound:
  assumes "length (fs_sync_pattern ses) \<le> header_size ses"
  shows "list_all (good_frame ses m) (fst (scan ses (header_size ses) m xs))"
proof (induction "length xs" arbitrary: xs rule: less_induct)
  case less
  let ?h = "header_size ses"
  show ?case
  proof (cases "scan_step ses ?h m xs")
    case (Stop n)
    then show ?thesis by (simp add: scan.simps [of _ _ _ xs])
  next
    case (Skip n)
    then show ?thesis
      using less [of "drop n xs"] scan_step_progress(1) [OF Skip]
      by (auto simp: scan.simps [of _ _ _ xs])
  next
    case (Emit f n)
    then show ?thesis
      using less [of "drop n xs"] scan_step_progress(2) [OF Emit] scan_step_emit [OF Emit assms]
      by (auto simp: scan.simps [of _ _ _ xs] good_frame_def)
  qed
qed

lemma find_sync_here: "take (length sync) xs = sync \<Longrightarrow> find_sync sync xs 0 = (True, 0)"
  by (simp add: find_sync_def search_here)

lemma scan_good_frame:
  assumes "good_frame ses m f" and "length (fs_sync_pattern ses) \<le> header_size ses"
  shows "scan ses (header_size ses) m (f @ rest) = apfst (Cons f) (scan ses (header_size ses) m rest)"
proof -
  let ?h = "header_size ses" and ?sync = "fs_sync_pattern ses"
  have f: "take (length ?sync) f = ?sync" "?h \<le> length f" "length f \<le> m"
    "fs_extract_frame_length ses (take ?h f) = length f" using assms(1) by (simp_all add: good_frame_def)
  then have "find_sync ?sync (f @ rest) 0 = (True, 0)" using assms(2) by (intro find_sync_here) simp
  then have "scan_step ses ?h m (f @ rest) = Emit f (length f)"
    using f header_size_pos [of ses] by (auto simp: scan_step_found Let_def)
  then show ?thesis by (simp add: scan.simps [of _ _ _ "f @ rest"])
qed

lemma scan_Nil: "scan ses (header_size ses) m [] = ([], [])"
  using header_size_pos [of ses]
  by (simp add: scan.simps scan_step_def find_sync_def)

lemma scan_good_frames:
  assumes "length (fs_sync_pattern ses) \<le> header_size ses"
  shows "list_all (good_frame ses m) fs \<Longrightarrow> scan ses (header_size ses) m (concat fs) = (fs, [])"
  by (induction fs) (simp_all add: scan_Nil scan_good_frame assms)

text \<open>Bytes in front in which no sync pattern starts are discarded.\<close>

lemma scan_resync:
  assumes "fs_sync_pattern ses \<noteq> []"
    and "\<forall>j < length g. take (length (fs_sync_pattern ses)) (drop j (g @ xs)) \<noteq> fs_sync_pattern ses"
    and "take (length (fs_sync_pattern ses)) xs = fs_sync_pattern ses"
  shows "scan ses h m (g @ xs) = scan ses h m xs"
proof -
  let ?sync = "fs_sync_pattern ses"
  have "search ?sync (g @ xs) = Some (length g)"
    using search_skip [OF assms(2)] search_here [OF assms(3)] by simp
  then have fs: "find_sync ?sync (g @ xs) 0 = apsnd ((+) (length g)) (find_sync ?sync (drop (length g) (g @ xs)) 0)"
    using assms(1) search_here [OF assms(3)] by (simp add: find_sync_def)
  from scan_step_shift [OF this, of h m]
  have "scan_step ses h m (g @ xs) = (case scan_step ses h m xs of Stop n \<Rightarrow> Stop (length g + n)
      | Skip n \<Rightarrow> Skip (length g + n) | Emit f n \<Rightarrow> Emit f (length g + n))" by simp
  then show ?thesis
    by (simp add: scan.simps [of _ _ _ "g @ xs"] scan.simps [of _ _ _ xs] split: action.splits)
qed

text \<open>A frame that has not arrived in full is kept, so an endless stream needs room for one frame only.\<close>

lemma scan_partial:
  assumes "good_frame ses m (x @ y)" and "y \<noteq> []" and "length (fs_sync_pattern ses) \<le> header_size ses"
  shows "scan ses (header_size ses) m x = ([], x)"
proof -
  let ?h = "header_size ses" and ?sync = "fs_sync_pattern ses"
  have f: "take (length ?sync) (x @ y) = ?sync" "length (x @ y) \<le> m" "?h \<le> length (x @ y)"
    "fs_extract_frame_length ses (take ?h (x @ y)) = length (x @ y)" using assms(1) by (simp_all add: good_frame_def)
  have "scan_step ses ?h m x = Stop 0"
  proof (cases "length ?sync \<le> length x")
    case True
    then have "find_sync ?sync x 0 = (True, 0)" using f(1) by (intro find_sync_here) simp
    then show ?thesis using f assms(2) header_size_pos [of ses]
      by (cases "length x < ?h") (simp_all add: scan_step_found Let_def)
  next
    case False
    then have "?sync \<noteq> []" by auto
    moreover have "search ?sync x = None"
    proof (cases "search ?sync x")
      case (Some i)
      then show ?thesis using search_bound [OF Some] False by simp
    qed
    moreover have "\<not> length ?sync - 1 < length x" using False by linarith
    ultimately have "find_sync ?sync x 0 = (False, 0)" by (simp add: find_sync_def)
    then show ?thesis by (simp add: scan_step_def)
  qed
  then show ?thesis by (simp add: scan.simps [of _ _ _ x])
qed

lemma scan_prefix:
  assumes "length (fs_sync_pattern ses) \<le> header_size ses"
  shows "list_all (good_frame ses m) fs \<Longrightarrow> x @ y = concat fs \<Longrightarrow>
    \<exists>k r. scan ses (header_size ses) m x = (take k fs, r) \<and> r @ y = concat (drop k fs) \<and>
      (r \<noteq> [] \<longrightarrow> k < length fs \<and> length r < length (fs ! k))"
proof (induction fs arbitrary: x)
  case Nil
  then show ?case by (auto simp: scan_Nil)
next
  case (Cons f fs)
  show ?case
  proof (cases "length f \<le> length x")
    case True
    then obtain x' where x: "x = f @ x'" "x' @ y = concat fs"
      using Cons.prems(2) by (auto simp: append_eq_append_conv2)
    from Cons.IH [OF _ x(2)] Cons.prems(1) obtain k r where
      "scan ses (header_size ses) m x' = (take k fs, r)" "r @ y = concat (drop k fs)"
      "r \<noteq> [] \<longrightarrow> k < length fs \<and> length r < length (fs ! k)" by auto
    then show ?thesis using scan_good_frame [of ses m f x'] Cons.prems(1) assms x
      by (intro exI [of _ "Suc k"] exI [of _ r]) auto
  next
    case False
    then obtain z where z: "f = x @ z" "z \<noteq> []" using Cons.prems(2) by (auto simp: append_eq_append_conv2)
    then have "scan ses (header_size ses) m x = ([], x)" using scan_partial [of ses m x z] Cons.prems(1) assms by simp
    then show ?thesis using Cons.prems(2) False by (intro exI [of _ 0] exI [of _ x]) auto
  qed
qed

lemma push_data_stream:
  assumes "framer_ok f" and "list_all (good_frame ses (sf_max_buffer_size f)) fs"
    and "unread f @ d @ rest = concat fs" and "length (unread f) + length d \<le> sf_max_buffer_size f"
    and "length (fs_sync_pattern ses) \<le> header_size ses"
  shows "\<exists>k f'. push_data ses d f = (Inr (take k fs), f') \<and> framer_ok f' \<and>
    sf_max_buffer_size f' = sf_max_buffer_size f \<and> unread f' @ rest = concat (drop k fs) \<and>
    (unread f' \<noteq> [] \<longrightarrow> k < length fs \<and> length (unread f') < length (fs ! k))"
proof -
  have "(unread f @ d) @ rest = concat fs" using assms(3) by simp
  from scan_prefix [OF assms(5,2) this] obtain k r where
    "scan ses (header_size ses) (sf_max_buffer_size f) (unread f @ d) = (take k fs, r)"
    "r @ rest = concat (drop k fs)" "r \<noteq> [] \<longrightarrow> k < length fs \<and> length r < length (fs ! k)" by auto
  then show ?thesis using push_data_scan [OF assms(1,4), of ses] by auto
qed

section \<open>Properties\<close>

text \<open>
  C15: framing does not depend on how the stream arrives.  As long as the buffer limit is respected,
  feeding the chunks one by one gives the frames that feeding their concatenation at once gives, and
  leaves the same bytes unread, whatever the session, the chunks and the garbage among them.
\<close>

theorem chunking_irrelevant:
  assumes "length (concat cs) \<le> n"
  shows "fst (feed ses cs (mk_framer n)) = fst (push_data ses (concat cs) (mk_framer n)) \<and>
    unread (snd (feed ses cs (mk_framer n))) = unread (snd (push_data ses (concat cs) (mk_framer n)))"
  using feed_scan [of "mk_framer n" cs ses] push_data_scan [of "mk_framer n" "concat cs" ses] assms
  by (auto simp: scan_Nil)

definition example_session :: FrameSession where
  "example_session =
     \<lparr>fs_sync_pattern = [0xAA, 0x55], fs_min_frame_header_size = 3,
      fs_extract_frame_length = (\<lambda>h. unat (h ! 2))\<rparr>"

theorem chunking_irrelevant_witness:
  "length (concat [[1, 0xAA], [0x55, 4, 9, 0xAA], [0x55, 3 :: u8]]) \<le> 64 \<and>
   fst (feed example_session [[1, 0xAA], [0x55, 4, 9, 0xAA], [0x55, 3]] (mk_framer 64)) =
     fst (push_data example_session [1, 0xAA, 0x55, 4, 9, 0xAA, 0x55, 3] (mk_framer 64)) \<and>
   fst (push_data example_session [1, 0xAA, 0x55, 4, 9, 0xAA, 0x55, 3] (mk_framer 64)) =
     Inr [[0xAA, 0x55, 4, 9], [0xAA, 0x55, 3]]"
proof -
  have "fst (push_data example_session [1, 0xAA, 0x55, 4, 9, 0xAA, 0x55, 3] (mk_framer 64)) =
     Inr [[0xAA, 0x55, 4, 9], [0xAA, 0x55, 3]]" by code_simp
  then show ?thesis
    using chunking_irrelevant [of "[[1, 0xAA], [0x55, 4, 9, 0xAA], [0x55, 3]]" 64 example_session] by simp
qed

text \<open>
  C16: a stream of well-formed frames is cut back into exactly these frames, with nothing left over,
  and bytes in front of the first frame in which no sync pattern begins are dropped.
\<close>

theorem frames_round_trip:
  assumes "list_all (good_frame ses n) fs" and "fs \<noteq> []" and "length g + length (concat fs) \<le> n"
    and "length (fs_sync_pattern ses) \<le> header_size ses"
    and "g = [] \<or> fs_sync_pattern ses \<noteq> []"
    and "\<forall>j < length g. take (length (fs_sync_pattern ses)) (drop j (g @ concat fs)) \<noteq> fs_sync_pattern ses"
  shows "\<exists>f. push_data ses (g @ concat fs) (mk_framer n) = (Inr fs, f) \<and> unread f = []"
proof -
  have "take (length (fs_sync_pattern ses)) (concat fs) = fs_sync_pattern ses"
    using assms(1,2,4) by (cases fs) (auto simp: good_frame_def)
  then have "scan ses (header_size ses) n (g @ concat fs) = scan ses (header_size ses) n (concat fs)"
    using scan_resync [OF _ assms(6)] assms(5) by auto
  with scan_good_frames [OF assms(4,1)] push_data_scan [of "mk_framer n" "g @ concat fs" ses] assms(3)
  show ?thesis by auto
qed

theorem frames_round_trip_witness:
  "\<exists>f. push_data example_session ([0xAA, 7] @ concat [[0xAA, 0x55, 4, 9], [0xAA, 0x55, 3]]) (mk_framer 64) =
     (Inr [[0xAA, 0x55, 4, 9], [0xAA, 0x55, 3]], f) \<and> unread f = []"
proof -
  have "\<forall>j \<in> set [0..<length [0xAA, 7 :: u8]]. take (length (fs_sync_pattern example_session))
      (drop j ([0xAA, 7] @ concat [[0xAA, 0x55, 4, 9], [0xAA, 0x55, 3]])) \<noteq> fs_sync_pattern example_session"
    by code_simp
  then have "\<forall>j < length [0xAA, 7 :: u8]. take (length (fs_sync_pattern example_session))
      (drop j ([0xAA, 7] @ concat [[0xAA, 0x55, 4, 9], [0xAA, 0x55, 3]])) \<noteq> fs_sync_pattern example_session"
    by (simp only: atLeast_upt [symmetric] lessThan_iff Ball_def)
  then show ?thesis
    by (intro frames_round_trip) (simp_all add: good_frame_def example_session_def header_size_def)
qed

text \<open>
  C20: every frame the framer emits is one the session recognises: it begins with the sync pattern,
  is at least a header and at most the buffer limit long, and has the length its header announces.
\<close>

theorem frames_sound:
  assumes "framer_ok f" and "push_data ses data f = (Inr fs, f')"
    and "length (fs_sync_pattern ses) \<le> header_size ses"
  shows "list_all (good_frame ses (sf_max_buffer_size f)) fs"
proof -
  have "length (unread f) + length data \<le> sf_max_buffer_size f"
    using assms(1,2) push_data_overflow [of f data ses] by (cases "length (unread f) + length data > sf_max_buffer_size f") auto
  with push_data_scan [OF assms(1) this, of ses] assms(2) scan_sound [OF assms(3)] show ?thesis by auto
qed

theorem frames_sound_witness:
  "list_all (good_frame example_session 64) [[0xAA, 0x55, 4, 9], [0xAA, 0x55, 3]]"
proof -
  have "push_data example_session [1, 0xAA, 0x55, 4, 9, 0xAA, 0x55, 3] (mk_framer 64) =
     (Inr [[0xAA, 0x55, 4, 9], [0xAA, 0x55, 3]], mk_framer 64)" by code_simp
  from frames_sound [OF _ this] show ?thesis
    by (simp add: example_session_def header_size_def)
qed

text \<open>
  C21: the buffer never exceeds its limit.  Every call leaves a well-formed framer; when the unread
  bytes and the new data together exceed the limit the call reports \<open>BufferOverrun\<close> and empties the
  buffer, and otherwise it succeeds.
\<close>

theorem framer_bounded:
  assumes "framer_ok f"
  shows "framer_ok (snd (push_data ses data f)) \<and>
    (if length (unread f) + length data > sf_max_buffer_size f
     then \<exists>e. fst (push_data ses data f) = Inl e \<and> err_code e = BufferOverrun \<and> unread (snd (push_data ses data f)) = []
     else \<exists>fs. fst (push_data ses data f) = Inr fs)"
  using push_data_scan [OF assms, of data ses] push_data_overflow [OF assms, of data ses] by auto

theorem framer_bounded_witness:
  "\<exists>e. fst (push_data example_session [1, 2, 3] (mk_framer 2)) = Inl e \<and> err_code e = BufferOverrun"
  using framer_bounded [of "mk_framer 2" example_session "[1, 2, 3]"] by auto

end
