(* ===== verification/Transport_Config.thy ===== *)
theory Transport_Config
  imports Complex_Main Conduit_Error
begin

text \<open>
  The configuration records of the four transports, the connection states, and what of a transport
  follows from its configuration alone: whether it is stream-oriented, whether it serves many peers, its
  name in logs, and the checks made before any system call.  Sources:
  \<open>include/conduit/net/connection_state.hpp\<close>, \<open>include/conduit/transceiver/transport/\<close> and
  \<open>src/transceiver/transport/serial_common.cpp\<close>.  Durations are integers in the unit of their type;
  \<open>double\<close> settings are rationals.
\<close>

section \<open>Connection states\<close>

datatype ConnectionState = Disconnected | Connecting | Connected | Reconnecting | Failed

primrec state_to_string :: "ConnectionState \<Rightarrow> string" where
  "state_to_string Disconnected = ''Disconnected''"
| "state_to_string Connecting = ''Connecting''"
| "state_to_string Connected = ''Connected''"
| "state_to_string Reconnecting = ''Reconnecting''"
| "state_to_string Failed = ''Failed''"

section \<open>Configuration records\<close>

record ReconnectPolicy =
  rp_enabled :: bool
  rp_initial_delay :: int
  rp_max_delay :: int
  rp_backoff_multiplier :: rat
  rp_max_attempts :: u32

definition default_reconnect :: ReconnectPolicy where
  "default_reconnect = \<lparr>rp_enabled = True, rp_initial_delay = 1000, rp_max_delay = 30000,
     rp_backoff_multiplier = 2, rp_max_attempts = 0\<rparr>"

record UdpConfig =
  uc_bind_address :: string
  uc_bind_port :: u16
  uc_remote_address :: string
  uc_remote_port :: u16
  uc_recv_buffer_size :: nat
  uc_send_buffer_size :: nat
  uc_max_datagram_size :: nat
  uc_max_peers :: nat
  uc_peer_timeout :: int
  uc_multicast_group :: string
  uc_multicast_interface :: string
  uc_multicast_ttl :: u8
  uc_multicast_loop :: bool

definition default_udp :: UdpConfig where
  "default_udp = \<lparr>uc_bind_address = ''0.0.0.0'', uc_bind_port = 0, uc_remote_address = [], uc_remote_port = 0,
     uc_recv_buffer_size = 65536, uc_send_buffer_size = 65536, uc_max_datagram_size = 65507,
     uc_max_peers = 1024, uc_peer_timeout = 0, uc_multicast_group = [], uc_multicast_interface = [],
     uc_multicast_ttl = 1, uc_multicast_loop = True\<rparr>"

record TcpClientConfig =
  cc_host :: string
  cc_port :: u16
  cc_reconnect :: ReconnectPolicy
  cc_recv_buffer_size :: nat
  cc_connect_timeout :: int

record TcpServerConfig =
  sc_bind_address :: string
  sc_port :: u16
  sc_max_clients :: nat
  sc_recv_buffer_size :: nat

datatype Parity = Parity_None | Parity_Odd | Parity_Even
datatype StopBits = Stop_One | Stop_Two
datatype FlowControl = Flow_None | Flow_Hardware | Flow_Software

primrec parity_to_string :: "Parity \<Rightarrow> string" where
  "parity_to_string Parity_None = ''None''"
| "parity_to_string Parity_Odd = ''Odd''"
| "parity_to_string Parity_Even = ''Even''"

primrec stop_bits_to_string :: "StopBits \<Rightarrow> string" where
  "stop_bits_to_string Stop_One = ''1''"
| "stop_bits_to_string Stop_Two = ''2''"

primrec flow_to_string :: "FlowControl \<Rightarrow> string" where
  "flow_to_string Flow_None = ''None''"
| "flow_to_string Flow_Hardware = ''Hardware''"
| "flow_to_string Flow_Software = ''Software''"

record SerialConfig =
  ser_port :: string
  ser_baud_rate :: u32
  ser_data_bits :: u8
  ser_parity :: Parity
  ser_stop_bits :: StopBits
  ser_flow_control :: FlowControl
  ser_recv_buffer_size :: nat

definition default_serial :: SerialConfig where
  "default_serial = \<lparr>ser_port = [], ser_baud_rate = 9600, ser_data_bits = 8, ser_parity = Parity_None,
     ser_stop_bits = Stop_One, ser_flow_control = Flow_None, ser_recv_buffer_size = 4096\<rparr>"

definition validate_serial_config :: "SerialConfig \<Rightarrow> VoidResult" where
  "validate_serial_config config =
     (if ser_port config = [] then Inl (mk_error InvalidConfig ''Serial port name must not be empty'')
      else if \<not> 0 < ser_baud_rate config then Inl (mk_error InvalidConfig ''Baud rate must be positive'')
      else if \<not> (5 \<le> ser_data_bits config \<and> ser_data_bits config \<le> 8)
      then Inl (mk_error InvalidConfig (''Data bits must be 5-8, got '' @ to_string (unat (ser_data_bits config))))
      else if \<not> 0 < ser_recv_buffer_size config
      then Inl (mk_error InvalidConfig ''Receive buffer size must be positive'')
      else Inr ())"

section \<open>Kinds of transport\<close>

datatype TransportConfig =
    Cfg_Udp UdpConfig
  | Cfg_TcpClient TcpClientConfig
  | Cfg_TcpServer TcpServerConfig
  | Cfg_Serial SerialConfig

text \<open>The constructor of \<open>UdpTransport\<close>: multicast counts as one peer, the group.\<close>

definition udp_single_peer :: "UdpConfig \<Rightarrow> bool" where
  "udp_single_peer c = (let multicast = uc_multicast_group c \<noteq> [] in multicast \<or> uc_remote_address c \<noteq> [])"

definition udp_is_multi_peer :: "UdpConfig \<Rightarrow> bool" where
  "udp_is_multi_peer c = (\<not> udp_single_peer c)"

primrec built_is_multi_peer :: "TransportConfig \<Rightarrow> bool" where
  "built_is_multi_peer (Cfg_Udp c) = udp_is_multi_peer c"
| "built_is_multi_peer (Cfg_TcpClient c) = False"
| "built_is_multi_peer (Cfg_TcpServer c) = True"
| "built_is_multi_peer (Cfg_Serial c) = False"

primrec built_is_stream_oriented :: "TransportConfig \<Rightarrow> bool" where
  "built_is_stream_oriented (Cfg_Udp c) = False"
| "built_is_stream_oriented (Cfg_TcpClient c) = True"
| "built_is_stream_oriented (Cfg_TcpServer c) = True"
| "built_is_stream_oriented (Cfg_Serial c) = True"

primrec built_transport_type :: "TransportConfig \<Rightarrow> string" where
  "built_transport_type (Cfg_Udp c) = ''udp''"
| "built_transport_type (Cfg_TcpClient c) = ''tcp-client''"
| "built_transport_type (Cfg_TcpServer c) = ''tcp-server''"
| "built_transport_type (Cfg_Serial c) = ''serial''"

primrec is_multi_peer_config :: "TransportConfig \<Rightarrow> bool" where
  "is_multi_peer_config (Cfg_Udp c) = (uc_remote_address c = [])"
| "is_multi_peer_config (Cfg_TcpClient c) = False"
| "is_multi_peer_config (Cfg_TcpServer c) = True"
| "is_multi_peer_config (Cfg_Serial c) = False"

text \<open>The two answers differ exactly for a multicast group without a remote address.\<close>

lemma multi_peer_config_agrees:
  "is_multi_peer_config c = built_is_multi_peer c \<longleftrightarrow>
     (\<forall>u. c = Cfg_Udp u \<longrightarrow> uc_multicast_group u = [] \<or> uc_remote_address u \<noteq> [])"
  by (cases c) (auto simp: udp_is_multi_peer_def udp_single_peer_def)

lemma validate_serial_config_ok:
  "validate_serial_config config = Inr () \<longleftrightarrow>
     ser_port config \<noteq> [] \<and> ser_baud_rate config \<noteq> 0 \<and> unat (ser_data_bits config) \<in> {5..8} \<and>
     ser_recv_buffer_size config \<noteq> 0"
  by (auto simp: validate_serial_config_def word_le_nat_alt word_neq_0_conv)

lemma validate_serial_config_code:
  "validate_serial_config config = Inl e \<Longrightarrow> err_code e = InvalidConfig"
  by (auto simp: validate_serial_config_def mk_error_def split: if_splits)

end
