(* ===== verification/Double_Round.thy ===== *)
theory Double_Round
  imports Complex_Main "HOL-Library.Log_Nat"
begin

text \<open>
  Arithmetic on \<open>double\<close> as far as the sources use it: finite values are rationals, and an operation is
  the exact result rounded to the nearest value with 53 significant bits, ties to the even one, with
  the fixed spacing \<open>2 ^ -1074\<close> below the smallest normal number.  Results in these sources stay far
  below the overflow threshold.
\<close>

definition exponent_of :: "rat \<Rightarrow> int" where
  "exponent_of x =
     (let (n, d) = quotient_of x; k = bitlen n - bitlen d
      in if 2 powi k \<le> x then k else k - 1)"

definition round_even :: "rat \<Rightarrow> int" where
  "round_even x =
     (let f = \<lfloor>x\<rfloor>; r = x - of_int f
      in if r < 1 / 2 then f else if r > 1 / 2 then f + 1 else if even f then f else f + 1)"

definition fl :: "rat \<Rightarrow> rat" where
  "fl x =
     (if x = 0 then 0
      else let e = max (exponent_of \<bar>x\<bar> - 52) (- 1074)
           in sgn x * (of_int (round_even (\<bar>x\<bar> / 2 powi e)) * 2 powi e))"

definition fl_div :: "rat \<Rightarrow> rat \<Rightarrow> rat" where
  "fl_div x y = fl (x / y)"

definition fl_mult :: "rat \<Rightarrow> rat \<Rightarrow> rat" where
  "fl_mult x y = fl (x * y)"

lemma exponent_of_le:
  assumes "x > 0"
  shows "2 powi exponent_of x \<le> x"
proof -
  obtain n d where q: "quotient_of x = (n, d)" by (cases "quotient_of x")
  have d: "d > 0" and x: "x = of_int n / of_int d"
    using quotient_of_denom_pos [OF q] quotient_of_div [OF q] by auto
  have n: "n > 0" using assms d x by (simp add: zero_less_divide_iff)
  have n1: "2 powi (bitlen n - 1) \<le> (of_int n :: rat)" and d1: "(of_int d :: rat) < 2 powi bitlen d"
  proof -
    have "2 ^ nat (bitlen n - 1) \<le> n" using bitlen_bounds [OF n] by simp
    then have "(2 :: rat) ^ nat (bitlen n - 1) \<le> of_int n" by (metis of_int_le_iff of_int_numeral of_int_power)
    moreover have "bitlen n \<ge> 1" using n by (simp add: bitlen_alt_def)
    ultimately show "2 powi (bitlen n - 1) \<le> (of_int n :: rat)" by (simp add: power_int_def)
    have "d < 2 ^ nat (bitlen d)" using bitlen_bounds [OF d] by simp
    then have "(of_int d :: rat) < 2 ^ nat (bitlen d)" by (metis of_int_less_iff of_int_numeral of_int_power)
    moreover have "bitlen d \<ge> 0" by (simp add: bitlen_nonneg)
    ultimately show "(of_int d :: rat) < 2 powi bitlen d" by (simp add: power_int_def)
  qed
  have "2 powi (bitlen n - bitlen d - 1) = 2 powi (bitlen n - 1) / (2 powi bitlen d :: rat)"
    by (simp add: power_int_diff)
  also have "\<dots> \<le> of_int n / of_int d"
    using n1 d1 d n by (intro frac_le) auto
  finally show ?thesis using x q by (auto simp: exponent_of_def Let_def)
qed

lemma round_even_ge: "of_int k \<le> x \<Longrightarrow> k \<le> round_even x"
proof -
  assume "of_int k \<le> x"
  then have "k \<le> \<lfloor>x\<rfloor>" by (simp add: le_floor_iff)
  then show ?thesis by (simp add: round_even_def Let_def)
qed

lemma fl_pos:
  assumes "x \<ge> 1"
  shows "fl x > 0"
proof -
  define e where "e = max (exponent_of x - 52) (- 1074)"
  have "2 powi (exponent_of x - 52) \<le> (2 powi exponent_of x :: rat)"
    by (intro power_int_increasing) auto
  also have "\<dots> \<le> x" using assms by (intro exponent_of_le) simp
  moreover have "2 powi (- 1074) \<le> (2 powi 0 :: rat)" by (intro power_int_increasing) auto
  ultimately have "2 powi e \<le> x" using assms unfolding e_def max_def by (simp only: power_int_0_right split: if_split) linarith
  then have "1 \<le> x / 2 powi e" by (simp add: le_divide_eq)
  then have "1 \<le> round_even (x / 2 powi e)" using round_even_ge [of 1] by simp
  moreover have "fl x = of_int (round_even (x / 2 powi e)) * 2 powi e"
  proof -
    have "sgn x = 1" "\<bar>x\<bar> = x" "x \<noteq> 0" using assms by (auto simp: sgn_1_pos)
    then show ?thesis unfolding fl_def Let_def e_def by (simp only: if_False mult_1)
  qed
  ultimately show ?thesis by (simp add: zero_less_mult_iff)
qed

lemma fl_0 [simp]: "fl 0 = 0"
  by (simp add: fl_def)

lemma exponent_of_1: "exponent_of 1 = 0"
  by (simp add: exponent_of_def)

lemma fl_1 [simp]: "fl 1 = 1"
proof -
  have "1 / 2 powi (- 52) = (of_int (2 ^ 52) :: rat)" by (simp add: power_int_minus)
  moreover have "round_even (of_int (2 ^ 52)) = 2 ^ 52" unfolding round_even_def Let_def floor_of_int by simp
  ultimately show ?thesis by (simp add: fl_def exponent_of_1 power_int_minus)
qed

end
