(* ===== verification/Transceiver_Model.thy ===== *)
theory Transceiver_Model
  imports Handler_Registry Message_Log Bounded_Queue Stream_Framer Transport_Config Double_Round
begin

text \<open>
  The transceiver: \<open>include/conduit/transceiver/transceiver.hpp\<close>, its configuration, statistics and event
  types, and \<open>src/transceiver/transceiver.cpp\<close>, operation by operation.

  \<open>Transceiver\<close> is the record of the object's members.  Peer contexts live at addresses: \<open>tc_contexts\<close> is
  the store, \<open>tc_peers\<close> the vector of owning pointers, \<open>tc_peer_map\<close> the map from ids to plain pointers.
  Looking through a pointer whose context is gone would be undefined; the theory \<open>Transceiver_Safety\<close>
  shows that it never happens.  Transport objects are numbered in the order of their creation.

  Code outside the sources is an argument.  \<open>ISession\<close> is the interface of a generated session, with the
  session's state \<open>'s\<close>; \<open>ITransport\<close> has the attributes of a transport and its effects on the world
  \<open>'w\<close>, in which user callbacks live too; \<open>environment\<close> collects these with the clock, the file system and
  the formatting of a \<open>double\<close>.  Session factories do not throw.  Output to the diagnostic logger is left
  out; message-log output is collected in \<open>tc_log_io\<close>.

  Each function is one atomic step: the sources hold the peer lock, or the lock of the peer's context,
  while they touch the state the step touches.  \<open>None\<close> is a step that cannot be taken yet (a full blocking
  queue, an empty open queue, workers still running) or a use of the dispatch queue before there is one.
\<close>

section \<open>Messages and sessions\<close>

record 'p DecodedMessage =
  dm_type_id :: u64
  dm_type_name :: string
  dm_payload :: 'p
  dm_raw :: bytes

record EncodeResult =
  er_bytes :: bytes
  er_auto_fields :: "(string \<times> string) list"

record 'p InboundMessage =
  im_peer :: PeerId
  im_decoded :: "'p DecodedMessage"

record ('s, 'p) ISession =
  si_decode_frame :: "bytes \<Rightarrow> 's \<Rightarrow> 'p DecodedMessage list Result \<times> 's"
  si_encode_wrap :: "u64 \<Rightarrow> 'p \<Rightarrow> 's \<Rightarrow> EncodeResult Result \<times> 's"
  si_framing :: "'s \<Rightarrow> FrameSession"
  si_type_name :: "'s \<Rightarrow> u64 \<Rightarrow> string"
  si_encode_batch :: "u64 \<Rightarrow> 'p list \<Rightarrow> 's \<Rightarrow> EncodeResult Result \<times> 's"
  si_is_receive_only :: "'s \<Rightarrow> u64 \<Rightarrow> bool"
  si_reset :: "'s \<Rightarrow> 's"
  si_format_message :: "'s \<Rightarrow> u64 \<Rightarrow> 'p \<Rightarrow> string"
  si_format_outbound :: "'s \<Rightarrow> u64 \<Rightarrow> 'p \<Rightarrow> (string \<times> string) list \<Rightarrow> string"
  si_protocol_name :: "'s \<Rightarrow> string"
  si_defers_message_logging :: "'s \<Rightarrow> bool"

text \<open>The bodies \<open>ISession\<close> gives to the methods a session may leave out.\<close>

definition default_encode_batch :: "u64 \<Rightarrow> 'p list \<Rightarrow> 's \<Rightarrow> EncodeResult Result \<times> 's" where
  "default_encode_batch type_id payloads s =
     (Inl (mk_error BatchNotSupported ''This session does not support batch encoding''), s)"

definition default_format_outbound ::
  "('s \<Rightarrow> u64 \<Rightarrow> 'p \<Rightarrow> string) \<Rightarrow> 's \<Rightarrow> u64 \<Rightarrow> 'p \<Rightarrow> (string \<times> string) list \<Rightarrow> string" where
  "default_format_outbound format_message s type_id payload auto_fields = format_message s type_id payload"

section \<open>Transports\<close>

record 'w ITransport =
  tr_is_stream_oriented :: bool
  tr_is_multi_peer :: bool
  tr_transport_type :: string
  tr_start :: "'w \<Rightarrow> VoidResult \<times> 'w"
  tr_stop :: "'w \<Rightarrow> 'w"
  tr_send :: "PeerId \<Rightarrow> bytes \<Rightarrow> 'w \<Rightarrow> VoidResult \<times> 'w"
  tr_pause :: "'w \<Rightarrow> 'w"
  tr_resume :: "'w \<Rightarrow> 'w"

record 'w transport_io =
  tio_start :: "'w \<Rightarrow> VoidResult \<times> 'w"
  tio_stop :: "'w \<Rightarrow> 'w"
  tio_send :: "PeerId \<Rightarrow> bytes \<Rightarrow> 'w \<Rightarrow> VoidResult \<times> 'w"

text \<open>The transports of the library inherit \<open>pause\<close> and \<open>resume\<close>, which do nothing.\<close>

definition built_transport :: "'w transport_io \<Rightarrow> TransportConfig \<Rightarrow> 'w ITransport" where
  "built_transport io c = \<lparr>tr_is_stream_oriented = built_is_stream_oriented c,
     tr_is_multi_peer = built_is_multi_peer c, tr_transport_type = built_transport_type c,
     tr_start = tio_start io, tr_stop = tio_stop io, tr_send = tio_send io,
     tr_pause = (\<lambda>w. w), tr_resume = (\<lambda>w. w)\<rparr>"

section \<open>Configuration, statistics, events\<close>

record QueueConfig =
  qc_capacity :: nat
  qc_drop_policy :: DropPolicy
  qc_back_pressure_threshold :: "rat option"

text \<open>The threshold is a \<open>double\<close>; \<open>None\<close> is a value that is not a number.\<close>

definition default_queue_config :: QueueConfig where
  "default_queue_config = \<lparr>qc_capacity = 1024, qc_drop_policy = DropOldest, qc_back_pressure_threshold = Some 0\<rparr>"

record WorkerConfig =
  wc_thread_count :: nat
  wc_handler_timeout :: int

type_synonym ('s, 'w) SessionFactory = "('w \<Rightarrow> 's option \<times> 'w) option"

record ('s, 'w) PeerConfig =
  pcfg_name :: string
  pcfg_session_factory :: "('s, 'w) SessionFactory"
  pcfg_transport :: TransportConfig

record ('s, 'w) TransceiverConfig =
  tcf_rx_queue :: QueueConfig
  tcf_worker :: WorkerConfig
  tcf_peers :: "('s, 'w) PeerConfig list"
  tcf_shutdown_timeout :: int
  tcf_message_log :: MessageLogConfig

definition config_add_peer ::
  "string \<Rightarrow> ('s, 'w) SessionFactory \<Rightarrow> TransportConfig \<Rightarrow> ('s, 'w) TransceiverConfig \<Rightarrow> ('s, 'w) TransceiverConfig" where
  "config_add_peer name factory transport c =
     c\<lparr>tcf_peers := tcf_peers c @
        [\<lparr>pcfg_name = name, pcfg_session_factory = factory, pcfg_transport = transport\<rparr>]\<rparr>"

record TransceiverStats =
  ts_messages_received :: u64
  ts_messages_dispatched :: u64
  ts_messages_dropped :: u64
  ts_decode_errors :: u64
  ts_handler_errors :: u64
  ts_handler_timeouts :: u64
  ts_bytes_received :: u64
  ts_bytes_sent :: u64

definition stats_zero :: TransceiverStats where
  "stats_zero = \<lparr>ts_messages_received = 0, ts_messages_dispatched = 0, ts_messages_dropped = 0,
     ts_decode_errors = 0, ts_handler_errors = 0, ts_handler_timeouts = 0, ts_bytes_received = 0,
     ts_bytes_sent = 0\<rparr>"

definition transceiver_stats_reset :: "TransceiverStats \<Rightarrow> TransceiverStats" where
  "transceiver_stats_reset s = s\<lparr>ts_messages_received := 0, ts_messages_dispatched := 0,
     ts_messages_dropped := 0, ts_decode_errors := 0, ts_handler_errors := 0, ts_handler_timeouts := 0,
     ts_bytes_received := 0, ts_bytes_sent := 0\<rparr>"

record ErrorEvent =
  ee_peer :: PeerId
  ee_peer_name :: string
  ee_remote_endpoint :: string
  ee_error :: error

section \<open>The object\<close>

record 's PeerContext =
  pc_id :: PeerId
  pc_name :: string
  pc_remote_endpoint :: string
  pc_session :: 's
  pc_framer :: "StreamFramer option"
  pc_transport :: nat
  pc_state :: ConnectionState

record ('s, 'w) MultiPeerEntry =
  me_base_id :: PeerId
  me_name :: string
  me_session_factory :: "'w \<Rightarrow> 's option \<times> 'w"
  me_transport :: nat
  me_next_child :: u32

type_synonym 'w ConnectionStateCallback = "(PeerId \<times> ConnectionState, 'w) std_function"
type_synonym 'w ErrorCallback = "(ErrorEvent, 'w) std_function"

record ('s, 'p, 'w) Transceiver =
  tc_config :: "('s, 'w) TransceiverConfig"
  tc_running :: bool
  tc_next_peer_id :: u32
  tc_contexts :: "nat \<rightharpoonup> 's PeerContext"
  tc_next_context :: nat
  tc_peers :: "nat list"
  tc_peer_map :: "u32 \<rightharpoonup> nat"
  tc_multi_peer_entries :: "('s, 'w) MultiPeerEntry list"
  tc_name_to_peer :: "(string \<times> PeerId) list"
  tc_objects :: "'w ITransport list"
  tc_transports :: "nat list"
  tc_handlers :: "('p, 'w) HandlerRegistry"
  tc_stats :: TransceiverStats
  tc_state_callbacks :: "(u32 \<times> 'w ConnectionStateCallback) list"
  tc_error_callbacks :: "(u32 \<times> 'w ErrorCallback) list"
  tc_next_callback_id :: u32
  tc_message_log :: "MessageLog option"
  tc_log_io :: "io_event list"
  tc_dispatch_queue :: "'p InboundMessage BoundedQueue option"
  tc_pending_workers :: nat
  tc_active_workers :: nat
  tc_world :: 'w

record ('s, 'p, 'w) environment =
  en_session :: "('s, 'p) ISession"
  en_no_payload :: 'p
  en_raw_payload :: "bytes \<Rightarrow> 'p"
  en_transport_io :: "TransportConfig \<Rightarrow> 'w transport_io"
  en_can_open :: "string \<Rightarrow> bool"
  en_timestamp :: "nat \<Rightarrow> string"
  en_format_double :: "rat option \<Rightarrow> string"

text \<open>The constructor's default of the framer's buffer limit.\<close>

definition default_max_buffer_size :: nat where
  "default_max_buffer_size = 1048576"

section \<open>Lookups\<close>

text \<open>\<open>'{}'\<close> in a format string.\<close>

definition quoted :: "string \<Rightarrow> string" where
  "quoted s = CHR 0x27 # s @ [CHR 0x27]"

definition find_peer :: "('s, 'p, 'w) Transceiver \<Rightarrow> PeerId \<Rightarrow> nat option" where
  "find_peer st peer = tc_peer_map st (peer_value peer)"

definition peer_context :: "('s, 'p, 'w) Transceiver \<Rightarrow> PeerId \<Rightarrow> 's PeerContext option" where
  "peer_context st peer = (case find_peer st peer of None \<Rightarrow> None | Some a \<Rightarrow> tc_contexts st a)"

definition set_context :: "nat \<Rightarrow> 's PeerContext \<Rightarrow> ('s, 'p, 'w) Transceiver \<Rightarrow> ('s, 'p, 'w) Transceiver" where
  "set_context a c st = st\<lparr>tc_contexts := (tc_contexts st)(a \<mapsto> c)\<rparr>"

definition find_multi_peer_entry :: "nat \<Rightarrow> ('s, 'p, 'w) Transceiver \<Rightarrow> ('s, 'w) MultiPeerEntry option" where
  "find_multi_peer_entry t st = find (\<lambda>e. me_transport e = t) (tc_multi_peer_entries st)"

fun next_peer_id_loop :: "nat \<Rightarrow> (u32 \<rightharpoonup> nat) \<Rightarrow> u32 \<Rightarrow> PeerId \<times> u32" where
  "next_peer_id_loop 0 peer_map counter = (PeerId counter, counter + 1)"
| "next_peer_id_loop (Suc attempts) peer_map counter =
     (if counter = 0 then next_peer_id_loop attempts peer_map (counter + 1)
      else if peer_map counter = None then (PeerId counter, counter + 1)
      else next_peer_id_loop attempts peer_map (counter + 1))"

definition next_peer_id :: "('s, 'p, 'w) Transceiver \<Rightarrow> PeerId \<times> ('s, 'p, 'w) Transceiver" where
  "next_peer_id st =
     (let (id, counter) = next_peer_id_loop 256 (tc_peer_map st) (tc_next_peer_id st)
      in (id, st\<lparr>tc_next_peer_id := counter\<rparr>))"

section \<open>Peer management\<close>

definition add_context :: "'s PeerContext \<Rightarrow> ('s, 'p, 'w) Transceiver \<Rightarrow> ('s, 'p, 'w) Transceiver" where
  "add_context c st =
     (let a = tc_next_context st
      in st\<lparr>tc_contexts := (tc_contexts st)(a \<mapsto> c), tc_next_context := Suc a,
            tc_peers := tc_peers st @ [a], tc_peer_map := (tc_peer_map st)(peer_value (pc_id c) \<mapsto> a)\<rparr>)"

definition track_transport :: "nat \<Rightarrow> ('s, 'p, 'w) Transceiver \<Rightarrow> ('s, 'p, 'w) Transceiver" where
  "track_transport t st =
     (if t \<in> set (tc_transports st) then st else st\<lparr>tc_transports := tc_transports st @ [t]\<rparr>)"

definition add_peer_session ::
  "string \<Rightarrow> 's option \<Rightarrow> nat option \<Rightarrow> ('s, 'p, 'w) Transceiver \<Rightarrow> PeerId Result \<times> ('s, 'p, 'w) Transceiver" where
  "add_peer_session name session transport st =
     (if tc_running st then (Inl (mk_error AlreadyRunning ''Cannot add peers while transceiver is running''), st)
      else case session of
        None \<Rightarrow> (Inl (mk_error InvalidArgument ''Session must not be null''), st)
      | Some s \<Rightarrow>
        (case transport of
           None \<Rightarrow> (Inl (mk_error InvalidArgument ''Transport must not be null''), st)
         | Some t \<Rightarrow>
             if tr_is_multi_peer (tc_objects st ! t)
             then (Inl (mk_error InvalidArgument
                    (''Single-session add_peer rejects multi-peer transport for peer '' @ quoted name @
                     ''; use the SessionFactory overload'')), st)
             else
               let (id, st) = next_peer_id st;
                   c = \<lparr>pc_id = id, pc_name = name, pc_remote_endpoint = [], pc_session = s,
                        pc_framer = (if tr_is_stream_oriented (tc_objects st ! t)
                                     then Some (mk_framer default_max_buffer_size) else None),
                        pc_transport = t, pc_state = Disconnected\<rparr>
               in if map_of (tc_name_to_peer st) name \<noteq> None
                  then (Inl (mk_error InvalidArgument (''Duplicate peer name '' @ quoted name)), st)
                  else
                    let st = add_context c st;
                        st = st\<lparr>tc_name_to_peer := (name, id) # tc_name_to_peer st\<rparr>
                    in (Inr id, track_transport t st)))"

definition add_peer_factory ::
  "string \<Rightarrow> ('s, 'w) SessionFactory \<Rightarrow> nat option \<Rightarrow> ('s, 'p, 'w) Transceiver \<Rightarrow>
     PeerId Result \<times> ('s, 'p, 'w) Transceiver" where
  "add_peer_factory name session_factory transport st =
     (if tc_running st then (Inl (mk_error AlreadyRunning ''Cannot add peers while transceiver is running''), st)
      else case session_factory of
        None \<Rightarrow> (Inl (mk_error InvalidArgument ''Session factory must not be null''), st)
      | Some factory \<Rightarrow>
        (case transport of
           None \<Rightarrow> (Inl (mk_error InvalidArgument ''Transport must not be null''), st)
         | Some t \<Rightarrow>
             if \<not> tr_is_multi_peer (tc_objects st ! t)
             then (Inl (mk_error InvalidArgument ''Session factory overload requires a multi-peer transport''), st)
             else
               let (id, st) = next_peer_id st;
                   e = \<lparr>me_base_id = id, me_name = name, me_session_factory = factory, me_transport = t,
                        me_next_child = 1\<rparr>
               in if map_of (tc_name_to_peer st) name \<noteq> None
                  then (Inl (mk_error InvalidArgument (''Duplicate peer name '' @ quoted name)), st)
                  else
                    let st = st\<lparr>tc_multi_peer_entries := tc_multi_peer_entries st @ [e],
                                tc_name_to_peer := (name, id) # tc_name_to_peer st\<rparr>
                    in (Inr id, track_transport t st)))"

definition sole_peer :: "('s, 'p, 'w) Transceiver \<Rightarrow> PeerId Result" where
  "sole_peer st =
     (if length (tc_peers st) = 0 then Inl (mk_error PeerNotFound ''No peers registered'')
      else if length (tc_peers st) > 1
      then Inl (mk_error MultiplePeers ''Multiple peers exist; specify PeerId explicitly'')
      else Inr (case tc_contexts st (hd (tc_peers st)) of Some c \<Rightarrow> pc_id c | None \<Rightarrow> no_peer))"

definition peer_by_name :: "string \<Rightarrow> ('s, 'p, 'w) Transceiver \<Rightarrow> PeerId Result" where
  "peer_by_name name st =
     (case map_of (tc_name_to_peer st) name of
        None \<Rightarrow> Inl (mk_error PeerNotFound (''No peer named '' @ quoted name))
      | Some pid \<Rightarrow> Inr pid)"

definition peer_state :: "PeerId \<Rightarrow> ('s, 'p, 'w) Transceiver \<Rightarrow> ConnectionState" where
  "peer_state peer st = (case peer_context st peer of None \<Rightarrow> Disconnected | Some c \<Rightarrow> pc_state c)"

definition peer_count :: "('s, 'p, 'w) Transceiver \<Rightarrow> nat" where
  "peer_count st = length (tc_peers st)"

definition peer_ids :: "('s, 'p, 'w) Transceiver \<Rightarrow> PeerId list" where
  "peer_ids st = map pc_id (List.map_filter (tc_contexts st) (tc_peers st))"

section \<open>Construction from a configuration\<close>

definition make_transport ::
  "('s, 'p, 'w) environment \<Rightarrow> TransportConfig \<Rightarrow> ('s, 'p, 'w) Transceiver \<Rightarrow> nat \<times> ('s, 'p, 'w) Transceiver" where
  "make_transport env c st =
     (length (tc_objects st), st\<lparr>tc_objects := tc_objects st @ [built_transport (en_transport_io env c) c]\<rparr>)"

text \<open>A call may throw, return an error, or succeed.\<close>

fun materialize_config_peers ::
  "('s, 'p, 'w) environment \<Rightarrow> ('s, 'w) PeerConfig list \<Rightarrow> ('s, 'p, 'w) Transceiver \<Rightarrow>
     (thrown + VoidResult) \<times> ('s, 'p, 'w) Transceiver" where
  "materialize_config_peers env [] st = (Inr (Inr ()), st)"
| "materialize_config_peers env (c # cs) st =
     (let (t, st) = make_transport env (pcfg_transport c) st
      in if is_multi_peer_config (pcfg_transport c)
         then case add_peer_factory (pcfg_name c) (pcfg_session_factory c) (Some t) st of
                (Inl e, st) \<Rightarrow> (Inr (Inl e), st)
              | (Inr pid, st) \<Rightarrow> materialize_config_peers env cs st
         else case pcfg_session_factory c of
                None \<Rightarrow> (Inl BadFunctionCall, st)
              | Some factory \<Rightarrow>
                  let (session, w) = factory (tc_world st); st = st\<lparr>tc_world := w\<rparr>
                  in if Option.is_none session
                     then (Inr (Inl (mk_error InvalidArgument
                             (''Session factory returned null for peer '' @ quoted (pcfg_name c)))), st)
                     else case add_peer_session (pcfg_name c) session (Some t) st of
                            (Inl e, st) \<Rightarrow> (Inr (Inl e), st)
                          | (Inr pid, st) \<Rightarrow> materialize_config_peers env cs st)"

definition empty_transceiver :: "('s, 'w) TransceiverConfig \<Rightarrow> 'w \<Rightarrow> ('s, 'p, 'w) Transceiver" where
  "empty_transceiver config w =
     \<lparr>tc_config = config, tc_running = False, tc_next_peer_id = 1, tc_contexts = Map.empty, tc_next_context = 0,
      tc_peers = [], tc_peer_map = Map.empty, tc_multi_peer_entries = [], tc_name_to_peer = [], tc_objects = [],
      tc_transports = [], tc_handlers = mk_registry, tc_stats = stats_zero, tc_state_callbacks = [],
      tc_error_callbacks = [], tc_next_callback_id = 1,
      tc_message_log = (if mlc_enabled (tcf_message_log config)
                        then Some (mk_message_log (tcf_message_log config)) else None),
      tc_log_io = [], tc_dispatch_queue = None, tc_pending_workers = 0, tc_active_workers = 0, tc_world = w\<rparr>"

definition mk_transceiver ::
  "('s, 'p, 'w) environment \<Rightarrow> ('s, 'w) TransceiverConfig \<Rightarrow> 'w \<Rightarrow> thrown + ('s, 'p, 'w) Transceiver" where
  "mk_transceiver env config w =
     (case materialize_config_peers env (tcf_peers config) (empty_transceiver config w) of
        (Inl e, st) \<Rightarrow> Inl e
      | (Inr (Inl e), st) \<Rightarrow> Inl (StdException (''Failed to materialize config peers: '' @ format_short e))
      | (Inr (Inr u), st) \<Rightarrow> Inr st)"

section \<open>Settings, handlers, callbacks\<close>

definition set_queue_config :: "QueueConfig \<Rightarrow> ('s, 'p, 'w) Transceiver \<Rightarrow> ('s, 'p, 'w) Transceiver" where
  "set_queue_config c st =
     (if tc_running st then st else st\<lparr>tc_config := (tc_config st)\<lparr>tcf_rx_queue := c\<rparr>\<rparr>)"

definition set_worker_config :: "WorkerConfig \<Rightarrow> ('s, 'p, 'w) Transceiver \<Rightarrow> ('s, 'p, 'w) Transceiver" where
  "set_worker_config c st =
     (if tc_running st then st else st\<lparr>tc_config := (tc_config st)\<lparr>tcf_worker := c\<rparr>\<rparr>)"

definition set_message_log_config :: "MessageLogConfig \<Rightarrow> ('s, 'p, 'w) Transceiver \<Rightarrow> ('s, 'p, 'w) Transceiver" where
  "set_message_log_config c st =
     (if tc_running st then st
      else st\<lparr>tc_config := (tc_config st)\<lparr>tcf_message_log := c\<rparr>,
              tc_message_log := (if mlc_enabled c then Some (mk_message_log c) else None)\<rparr>)"

definition set_shutdown_timeout :: "int \<Rightarrow> ('s, 'p, 'w) Transceiver \<Rightarrow> ('s, 'p, 'w) Transceiver" where
  "set_shutdown_timeout timeout st = st\<lparr>tc_config := (tc_config st)\<lparr>tcf_shutdown_timeout := timeout\<rparr>\<rparr>"

definition set_handler_peer ::
  "PeerId \<Rightarrow> ('p, 'w) MessageHandler \<Rightarrow> ('s, 'p, 'w) Transceiver \<Rightarrow> ('s, 'p, 'w) Transceiver" where
  "set_handler_peer peer h st = st\<lparr>tc_handlers := install_handler_peer peer h (tc_handlers st)\<rparr>"

definition set_handler :: "('p, 'w) MessageHandler \<Rightarrow> ('s, 'p, 'w) Transceiver \<Rightarrow> ('s, 'p, 'w) Transceiver" where
  "set_handler h st = st\<lparr>tc_handlers := install_handler h (tc_handlers st)\<rparr>"

definition on_state_change ::
  "'w ConnectionStateCallback \<Rightarrow> ('s, 'p, 'w) Transceiver \<Rightarrow> u32 \<times> ('s, 'p, 'w) Transceiver" where
  "on_state_change cb st =
     (let id = tc_next_callback_id st
      in (id, st\<lparr>tc_next_callback_id := id + 1, tc_state_callbacks := tc_state_callbacks st @ [(id, cb)]\<rparr>))"

fun erase_first :: "u32 \<Rightarrow> (u32 \<times> 'c) list \<Rightarrow> bool \<times> (u32 \<times> 'c) list" where
  "erase_first i [] = (False, [])"
| "erase_first i (e # es) =
     (if fst e = i then (True, es) else let (found, es) = erase_first i es in (found, e # es))"

definition remove_state_change :: "u32 \<Rightarrow> ('s, 'p, 'w) Transceiver \<Rightarrow> bool \<times> ('s, 'p, 'w) Transceiver" where
  "remove_state_change i st =
     (let (found, cbs) = erase_first i (tc_state_callbacks st) in (found, st\<lparr>tc_state_callbacks := cbs\<rparr>))"

definition on_error :: "'w ErrorCallback \<Rightarrow> ('s, 'p, 'w) Transceiver \<Rightarrow> u32 \<times> ('s, 'p, 'w) Transceiver" where
  "on_error cb st =
     (let id = tc_next_callback_id st
      in (id, st\<lparr>tc_next_callback_id := id + 1, tc_error_callbacks := tc_error_callbacks st @ [(id, cb)]\<rparr>))"

definition remove_error_callback :: "u32 \<Rightarrow> ('s, 'p, 'w) Transceiver \<Rightarrow> bool \<times> ('s, 'p, 'w) Transceiver" where
  "remove_error_callback i st =
     (let (found, cbs) = erase_first i (tc_error_callbacks st) in (found, st\<lparr>tc_error_callbacks := cbs\<rparr>))"

text \<open>Callbacks run in the order of registration; what one throws is logged and dropped.\<close>

primrec run_callbacks :: "(u32 \<times> ('x, 'w) std_function) list \<Rightarrow> 'x \<Rightarrow> 'w \<Rightarrow> 'w" where
  "run_callbacks [] x w = w"
| "run_callbacks (e # es) x w = run_callbacks es x (snd (call (snd e) x w))"

definition fire_error_event :: "ErrorEvent \<Rightarrow> ('s, 'p, 'w) Transceiver \<Rightarrow> ('s, 'p, 'w) Transceiver" where
  "fire_error_event event st = st\<lparr>tc_world := run_callbacks (tc_error_callbacks st) event (tc_world st)\<rparr>"

definition fire_error :: "PeerId \<Rightarrow> error \<Rightarrow> ('s, 'p, 'w) Transceiver \<Rightarrow> ('s, 'p, 'w) Transceiver" where
  "fire_error peer e st =
     (let (name, endpoint) = (case peer_context st peer of
                                None \<Rightarrow> ([], [])
                              | Some c \<Rightarrow> (pc_name c, pc_remote_endpoint c))
      in fire_error_event \<lparr>ee_peer = peer, ee_peer_name = name, ee_remote_endpoint = endpoint, ee_error = e\<rparr> st)"

definition run_state_callbacks ::
  "PeerId \<Rightarrow> ConnectionState \<Rightarrow> ('s, 'p, 'w) Transceiver \<Rightarrow> ('s, 'p, 'w) Transceiver" where
  "run_state_callbacks peer s st =
     st\<lparr>tc_world := run_callbacks (tc_state_callbacks st) (peer, s) (tc_world st)\<rparr>"

section \<open>Message logging\<close>

definition log_message ::
  "('s, 'p, 'w) environment \<Rightarrow> ((string \<Rightarrow> bool) \<Rightarrow> string \<Rightarrow> log_record \<Rightarrow> MessageLog \<Rightarrow> io_event list \<times> MessageLog) \<Rightarrow>
     log_record \<Rightarrow> ('s, 'p, 'w) Transceiver \<Rightarrow> ('s, 'p, 'w) Transceiver" where
  "log_message env write e st =
     (case tc_message_log st of
        None \<Rightarrow> st
      | Some ml \<Rightarrow>
          let (events, ml) = write (en_can_open env) (en_timestamp env (length (tc_log_io st))) e ml
          in st\<lparr>tc_message_log := Some ml, tc_log_io := tc_log_io st @ events\<rparr>)"

definition passthrough_record ::
  "('s, 'p, 'w) environment \<Rightarrow> PeerId \<Rightarrow> string \<Rightarrow> nat \<Rightarrow> string \<Rightarrow> bytes \<Rightarrow> ('s, 'p, 'w) Transceiver \<Rightarrow> log_record" where
  "passthrough_record env peer type_name byte_count content raw st =
     (let base = \<lparr>lr_direction = [], lr_peer_name = ''<no-peer>'', lr_remote_endpoint = [],
                  lr_type_name = type_name, lr_byte_count = byte_count, lr_message_content = content,
                  lr_protocol = [], lr_transport = [], lr_raw_bytes = raw\<rparr>
      in case peer_context st peer of
           None \<Rightarrow> base
         | Some c \<Rightarrow> base\<lparr>lr_peer_name := pc_name c, lr_remote_endpoint := pc_remote_endpoint c,
                          lr_protocol := si_protocol_name (en_session env) (pc_session c),
                          lr_transport := tr_transport_type (tc_objects st ! pc_transport c)\<rparr>)"

definition log_recv_message ::
  "('s, 'p, 'w) environment \<Rightarrow> PeerId \<Rightarrow> string \<Rightarrow> nat \<Rightarrow> string \<Rightarrow> bytes \<Rightarrow>
     ('s, 'p, 'w) Transceiver \<Rightarrow> ('s, 'p, 'w) Transceiver" where
  "log_recv_message env peer type_name byte_count content raw st =
     log_message env log_recv (passthrough_record env peer type_name byte_count content raw st) st"

definition log_send_message ::
  "('s, 'p, 'w) environment \<Rightarrow> PeerId \<Rightarrow> string \<Rightarrow> nat \<Rightarrow> string \<Rightarrow> bytes \<Rightarrow>
     ('s, 'p, 'w) Transceiver \<Rightarrow> ('s, 'p, 'w) Transceiver" where
  "log_send_message env peer type_name byte_count content raw st =
     log_message env log_send (passthrough_record env peer type_name byte_count content raw st) st"

section \<open>Sending\<close>

definition transport_send ::
  "nat \<Rightarrow> PeerId \<Rightarrow> bytes \<Rightarrow> ('s, 'p, 'w) Transceiver \<Rightarrow> VoidResult \<times> ('s, 'p, 'w) Transceiver" where
  "transport_send t peer encoded st =
     (let st = st\<lparr>tc_stats := (tc_stats st)\<lparr>ts_bytes_sent := ts_bytes_sent (tc_stats st) + of_nat (length encoded)\<rparr>\<rparr>;
          (result, w) = tr_send (tc_objects st ! t) peer encoded (tc_world st)
      in (result, st\<lparr>tc_world := w\<rparr>))"

definition sent_record ::
  "('s, 'p, 'w) environment \<Rightarrow> 's PeerContext \<Rightarrow> u64 \<Rightarrow> bytes \<Rightarrow> string \<Rightarrow> ('s, 'p, 'w) Transceiver \<Rightarrow> log_record" where
  "sent_record env c type_id encoded content st =
     \<lparr>lr_direction = [], lr_peer_name = pc_name c, lr_remote_endpoint = pc_remote_endpoint c,
      lr_type_name = si_type_name (en_session env) (pc_session c) type_id, lr_byte_count = length encoded,
      lr_message_content = content, lr_protocol = si_protocol_name (en_session env) (pc_session c),
      lr_transport = tr_transport_type (tc_objects st ! pc_transport c), lr_raw_bytes = encoded\<rparr>"

definition log_sent ::
  "('s, 'p, 'w) environment \<Rightarrow> 's PeerContext \<Rightarrow> u64 \<Rightarrow> bytes \<Rightarrow> string \<Rightarrow>
     ('s, 'p, 'w) Transceiver \<Rightarrow> ('s, 'p, 'w) Transceiver" where
  "log_sent env c type_id encoded content st =
     (if si_defers_message_logging (en_session env) (pc_session c) \<or> pc_name c = [] then st
      else log_message env log_send
             (sent_record env c type_id encoded
               (if mlc_include_message_content (tcf_message_log (tc_config st)) then content else []) st) st)"

definition receive_only_error :: "string \<Rightarrow> error" where
  "receive_only_error name = mk_error DirectionViolation (''Cannot send receive-only message type '' @ quoted name)"

definition send_impl ::
  "('s, 'p, 'w) environment \<Rightarrow> PeerId \<Rightarrow> u64 \<Rightarrow> 'p \<Rightarrow> ('s, 'p, 'w) Transceiver \<Rightarrow>
     VoidResult \<times> ('s, 'p, 'w) Transceiver" where
  "send_impl env peer type_id payload st =
     (if \<not> tc_running st then (Inl (mk_error NotRunning ''Transceiver is not running''), st)
      else case find_peer st peer of
        None \<Rightarrow> (Inl (mk_error PeerNotFound (''Peer '' @ to_string (unat (peer_value peer)) @ '' not found'')), st)
      | Some a \<Rightarrow>
        (case tc_contexts st a of
           None \<Rightarrow> (Inl (mk_error PeerNotFound (''Peer '' @ to_string (unat (peer_value peer)) @ '' not found'')), st)
         | Some c \<Rightarrow>
           if si_is_receive_only (en_session env) (pc_session c) type_id
           then (Inl (receive_only_error (si_type_name (en_session env) (pc_session c) type_id)), st)
           else
             let (enc, s) = si_encode_wrap (en_session env) type_id payload (pc_session c);
                 c = c\<lparr>pc_session := s\<rparr>; st = set_context a c st
             in case enc of
                  Inl e \<Rightarrow> (Inl e, st)
                | Inr r \<Rightarrow>
                    let st = log_sent env c type_id (er_bytes r)
                               (si_format_outbound (en_session env) s type_id payload (er_auto_fields r)) st
                    in transport_send (pc_transport c) peer (er_bytes r) st))"

definition batch_content ::
  "('s, 'p, 'w) environment \<Rightarrow> 's \<Rightarrow> u64 \<Rightarrow> (string \<times> string) list \<Rightarrow> 'p list \<Rightarrow> string" where
  "batch_content env s type_id auto_fields payloads =
     concat (map (\<lambda>i. (if i > 0 then newline else []) @
                       si_format_outbound (en_session env) s type_id (payloads ! i) auto_fields)
                 [0..<length payloads])"

definition send_batch_impl ::
  "('s, 'p, 'w) environment \<Rightarrow> PeerId \<Rightarrow> u64 \<Rightarrow> 'p list \<Rightarrow> ('s, 'p, 'w) Transceiver \<Rightarrow>
     VoidResult \<times> ('s, 'p, 'w) Transceiver" where
  "send_batch_impl env peer type_id payloads st =
     (if \<not> tc_running st then (Inl (mk_error NotRunning ''Transceiver is not running''), st)
      else if payloads = [] then (Inl (mk_error InvalidArgument ''Batch must contain at least one message''), st)
      else case find_peer st peer of
        None \<Rightarrow> (Inl (mk_error PeerNotFound (''Peer '' @ to_string (unat (peer_value peer)) @ '' not found'')), st)
      | Some a \<Rightarrow>
        (case tc_contexts st a of
           None \<Rightarrow> (Inl (mk_error PeerNotFound (''Peer '' @ to_string (unat (peer_value peer)) @ '' not found'')), st)
         | Some c \<Rightarrow>
           if si_is_receive_only (en_session env) (pc_session c) type_id
           then (Inl (receive_only_error (si_type_name (en_session env) (pc_session c) type_id)), st)
           else
             let (enc, s) = si_encode_batch (en_session env) type_id payloads (pc_session c);
                 c = c\<lparr>pc_session := s\<rparr>; st = set_context a c st
             in case enc of
                  Inl e \<Rightarrow> (Inl e, st)
                | Inr r \<Rightarrow>
                    let st = log_sent env c type_id (er_bytes r)
                               (batch_content env s type_id (er_auto_fields r) payloads) st
                    in transport_send (pc_transport c) peer (er_bytes r) st))"

definition send_raw ::
  "('s, 'p, 'w) environment \<Rightarrow> PeerId \<Rightarrow> u64 \<Rightarrow> bytes \<Rightarrow> ('s, 'p, 'w) Transceiver \<Rightarrow>
     VoidResult \<times> ('s, 'p, 'w) Transceiver" where
  "send_raw env peer type_id raw = send_impl env peer type_id (en_raw_payload env raw)"

definition send_raw_batch ::
  "('s, 'p, 'w) environment \<Rightarrow> PeerId \<Rightarrow> u64 \<Rightarrow> bytes list \<Rightarrow> ('s, 'p, 'w) Transceiver \<Rightarrow>
     VoidResult \<times> ('s, 'p, 'w) Transceiver" where
  "send_raw_batch env peer type_id raws = send_batch_impl env peer type_id (map (en_raw_payload env) raws)"

definition send_sole ::
  "('s, 'p, 'w) environment \<Rightarrow> u64 \<Rightarrow> 'p \<Rightarrow> ('s, 'p, 'w) Transceiver \<Rightarrow> VoidResult \<times> ('s, 'p, 'w) Transceiver" where
  "send_sole env type_id payload st =
     (case sole_peer st of Inl e \<Rightarrow> (Inl e, st) | Inr peer \<Rightarrow> send_impl env peer type_id payload st)"

section \<open>Receiving\<close>

text \<open>What one call of \<open>handle_data_received\<close> collects under the locks.\<close>

record ('s, 'p) recv_work =
  rw_session :: 's
  rw_stats :: TransceiverStats
  rw_enqueue :: "'p InboundMessage list"
  rw_logs :: "log_record list"
  rw_errors :: "ErrorEvent list"

definition recv_log_record ::
  "('s, 'p, 'w) environment \<Rightarrow> ('s, 'p, 'w) Transceiver \<Rightarrow> 's PeerContext \<Rightarrow> 's \<Rightarrow> nat \<Rightarrow> 'p DecodedMessage \<Rightarrow> log_record" where
  "recv_log_record env st c s frame_bytes msg =
     \<lparr>lr_direction = [], lr_peer_name = pc_name c, lr_remote_endpoint = pc_remote_endpoint c,
      lr_type_name = dm_type_name msg, lr_byte_count = frame_bytes,
      lr_message_content = (if mlc_include_message_content (tcf_message_log (tc_config st))
                            then si_format_message (en_session env) s (dm_type_id msg) (dm_payload msg) else []),
      lr_protocol = si_protocol_name (en_session env) (pc_session c),
      lr_transport = tr_transport_type (tc_objects st ! pc_transport c),
      lr_raw_bytes = (if mlc_include_raw_bytes (tcf_message_log (tc_config st)) \<and> dm_raw msg \<noteq> []
                      then dm_raw msg else [])\<rparr>"

definition log_decoded_messages ::
  "('s, 'p, 'w) environment \<Rightarrow> ('s, 'p, 'w) Transceiver \<Rightarrow> 's PeerContext \<Rightarrow> 's \<Rightarrow> nat \<Rightarrow> 'p DecodedMessage list \<Rightarrow>
     log_record list" where
  "log_decoded_messages env st c s frame_bytes msgs =
     (if tc_message_log st = None \<or> si_defers_message_logging (en_session env) s then []
      else map (recv_log_record env st c s frame_bytes) msgs)"

definition defer_error :: "PeerId \<Rightarrow> 's PeerContext \<Rightarrow> error \<Rightarrow> ('s, 'p) recv_work \<Rightarrow> ('s, 'p) recv_work" where
  "defer_error peer c e w =
     w\<lparr>rw_errors := rw_errors w @
         [\<lparr>ee_peer = peer, ee_peer_name = pc_name c, ee_remote_endpoint = pc_remote_endpoint c, ee_error = e\<rparr>],
       rw_stats := (rw_stats w)\<lparr>ts_decode_errors := ts_decode_errors (rw_stats w) + 1\<rparr>\<rparr>"

definition decode_one ::
  "('s, 'p, 'w) environment \<Rightarrow> ('s, 'p, 'w) Transceiver \<Rightarrow> PeerId \<Rightarrow> 's PeerContext \<Rightarrow> bytes \<Rightarrow>
     ('s, 'p) recv_work \<Rightarrow> ('s, 'p) recv_work" where
  "decode_one env st peer c frame w =
     (case si_decode_frame (en_session env) frame (rw_session w) of
        (Inl e, s) \<Rightarrow> defer_error peer c (with_context ''decode'' e) (w\<lparr>rw_session := s\<rparr>)
      | (Inr msgs, s) \<Rightarrow>
          w\<lparr>rw_session := s,
            rw_logs := rw_logs w @ log_decoded_messages env st c s (length frame) msgs,
            rw_stats := (rw_stats w)\<lparr>ts_messages_received :=
                          ts_messages_received (rw_stats w) + of_nat (length msgs)\<rparr>,
            rw_enqueue := rw_enqueue w @ map (\<lambda>m. \<lparr>im_peer = peer, im_decoded = m\<rparr>) msgs\<rparr>)"

definition decode_data ::
  "('s, 'p, 'w) environment \<Rightarrow> ('s, 'p, 'w) Transceiver \<Rightarrow> PeerId \<Rightarrow> 's PeerContext \<Rightarrow> bytes \<Rightarrow>
     's PeerContext \<times> ('s, 'p) recv_work" where
  "decode_data env st peer c data =
     (let w = \<lparr>rw_session = pc_session c, rw_stats = tc_stats st, rw_enqueue = [], rw_logs = [], rw_errors = []\<rparr>
      in case pc_framer c of
           Some f \<Rightarrow>
             (case push_data (si_framing (en_session env) (pc_session c)) data f of
                (Inl e, f) \<Rightarrow>
                  (c\<lparr>pc_framer := Some (framer_reset f)\<rparr>, defer_error peer c (with_context ''framing'' e) w)
              | (Inr frames, f) \<Rightarrow>
                  let w = fold (decode_one env st peer c) frames w
                  in (c\<lparr>pc_framer := Some f, pc_session := rw_session w\<rparr>, w))
         | None \<Rightarrow>
             let w = decode_one env st peer c data w
             in (c\<lparr>pc_session := rw_session w\<rparr>, w))"

definition queue_drop_error :: "u64 \<Rightarrow> error" where
  "queue_drop_error type_id =
     mk_error QueueFull (''dispatch queue dropped message type_id='' @ to_string (unat type_id))"

fun enqueue_all ::
  "PeerId \<Rightarrow> 'p InboundMessage list \<Rightarrow> ('s, 'p, 'w) Transceiver \<Rightarrow> ('s, 'p, 'w) Transceiver option" where
  "enqueue_all peer [] st = Some st"
| "enqueue_all peer (m # ms) st =
     (case tc_dispatch_queue st of
        None \<Rightarrow> None
      | Some q \<Rightarrow>
          (case push m q of
             None \<Rightarrow> None
           | Some (pushed_ok, q) \<Rightarrow>
               let st = st\<lparr>tc_dispatch_queue := Some q\<rparr>
               in enqueue_all peer ms
                    (if pushed_ok then st
                     else fire_error peer (queue_drop_error (dm_type_id (im_decoded m)))
                            (st\<lparr>tc_stats := (tc_stats st)\<lparr>ts_messages_dropped := ts_messages_dropped (tc_stats st) + 1\<rparr>\<rparr>))))"

text \<open>
  \<open>fill\<close> is a quotient of two \<open>double\<close>s.  With a configured capacity of zero it is infinite, or not a
  number when the queue is empty.
\<close>

definition fill_reaches :: "nat \<Rightarrow> nat \<Rightarrow> rat \<Rightarrow> bool" where
  "fill_reaches n capacity threshold =
     (if capacity = 0 then n > 0 else threshold \<le> fl_div (fl (of_nat n)) (fl (of_nat capacity)))"

definition fill_below :: "nat \<Rightarrow> nat \<Rightarrow> rat \<Rightarrow> bool" where
  "fill_below n capacity bound =
     (capacity \<noteq> 0 \<and> fl_div (fl (of_nat n)) (fl (of_nat capacity)) < bound)"

definition back_pressure :: "PeerId \<Rightarrow> ('s, 'p, 'w) Transceiver \<Rightarrow> ('s, 'p, 'w) Transceiver" where
  "back_pressure peer st =
     (case (qc_back_pressure_threshold (tcf_rx_queue (tc_config st)), tc_dispatch_queue st) of
        (Some threshold, Some q) \<Rightarrow>
          if threshold > 0 \<and> fill_reaches (bq_size q) (qc_capacity (tcf_rx_queue (tc_config st))) threshold
          then case peer_context st peer of
                 None \<Rightarrow> st
               | Some c \<Rightarrow> st\<lparr>tc_world := tr_pause (tc_objects st ! pc_transport c) (tc_world st)\<rparr>
          else st
      | _ \<Rightarrow> st)"

definition handle_data_received ::
  "('s, 'p, 'w) environment \<Rightarrow> PeerId \<Rightarrow> bytes \<Rightarrow> ('s, 'p, 'w) Transceiver \<Rightarrow> ('s, 'p, 'w) Transceiver option" where
  "handle_data_received env peer data st =
     (let st = st\<lparr>tc_stats := (tc_stats st)\<lparr>ts_bytes_received := ts_bytes_received (tc_stats st) + of_nat (length data)\<rparr>\<rparr>
      in case find_peer st peer of
           None \<Rightarrow> Some st
         | Some a \<Rightarrow>
             (case tc_contexts st a of
                None \<Rightarrow> Some st
              | Some c \<Rightarrow>
                  let (c, w) = decode_data env st peer c data;
                      st = (set_context a c st)\<lparr>tc_stats := rw_stats w\<rparr>;
                      st = fold fire_error_event (rw_errors w) st;
                      st = fold (log_message env log_recv) (rw_logs w) st
                  in map_option (back_pressure peer) (enqueue_all peer (rw_enqueue w) st)))"

section \<open>Connections\<close>

definition handle_state_changed ::
  "('s, 'p, 'w) environment \<Rightarrow> PeerId \<Rightarrow> ConnectionState \<Rightarrow> ('s, 'p, 'w) Transceiver \<Rightarrow> ('s, 'p, 'w) Transceiver" where
  "handle_state_changed env peer s st =
     (let st = (case find_peer st peer of
                  None \<Rightarrow> st
                | Some a \<Rightarrow>
                    (case tc_contexts st a of
                       None \<Rightarrow> st
                     | Some c \<Rightarrow>
                         let c = (if s = Connected
                                  then c\<lparr>pc_session := si_reset (en_session env) (pc_session c),
                                         pc_framer := map_option framer_reset (pc_framer c)\<rparr>
                                  else c)
                         in set_context a (c\<lparr>pc_state := s\<rparr>) st))
      in run_state_callbacks peer s st)"

fun context_with :: "('s PeerContext \<Rightarrow> bool) \<Rightarrow> (nat \<rightharpoonup> 's PeerContext) \<Rightarrow> nat list \<Rightarrow> (nat \<times> 's PeerContext) option" where
  "context_with P contexts [] = None"
| "context_with P contexts (a # as) =
     (case contexts a of
        Some c \<Rightarrow> if P c then Some (a, c) else context_with P contexts as
      | None \<Rightarrow> context_with P contexts as)"

fun bump_child :: "nat \<Rightarrow> ('s, 'w) MultiPeerEntry list \<Rightarrow> ('s, 'w) MultiPeerEntry list" where
  "bump_child t [] = []"
| "bump_child t (e # es) =
     (if me_transport e = t then e\<lparr>me_next_child := me_next_child e + 1\<rparr> # es else e # bump_child t es)"

definition assign_name :: "string \<Rightarrow> PeerId \<Rightarrow> (string \<times> PeerId) list \<Rightarrow> (string \<times> PeerId) list" where
  "assign_name name peer names =
     (if map_of names name = None then (name, peer) # names
      else map (\<lambda>(n, p). (n, if n = name then peer else p)) names)"

definition handle_peer_connected ::
  "('s, 'p, 'w) environment \<Rightarrow> nat \<Rightarrow> string \<Rightarrow> ('s, 'p, 'w) Transceiver \<Rightarrow> PeerId \<times> ('s, 'p, 'w) Transceiver" where
  "handle_peer_connected env t endpoint st =
     (if \<not> tr_is_multi_peer (tc_objects st ! t) then
        (case context_with (\<lambda>c. pc_transport c = t) (tc_contexts st) (tc_peers st) of
           Some (a, c) \<Rightarrow> (pc_id c, set_context a (c\<lparr>pc_remote_endpoint := endpoint\<rparr>) st)
         | None \<Rightarrow> (no_peer, st))
      else
        (case find_multi_peer_entry t st of
           None \<Rightarrow> (no_peer, st)
         | Some e \<Rightarrow>
             let (peer, st) = next_peer_id st;
                 (session, w) = me_session_factory e (tc_world st);
                 st = st\<lparr>tc_world := w\<rparr>
             in case session of
                  None \<Rightarrow>
                    (no_peer, fire_error_event
                       \<lparr>ee_peer = no_peer, ee_peer_name = me_name e, ee_remote_endpoint = [],
                        ee_error = mk_error InternalError ''session factory returned null''\<rparr> st)
                | Some s \<Rightarrow>
                    let name = me_name e @ ''/'' @ to_string (unat (me_next_child e));
                        c = \<lparr>pc_id = peer, pc_name = name, pc_remote_endpoint = endpoint, pc_session = s,
                             pc_framer = (if tr_is_stream_oriented (tc_objects st ! t)
                                          then Some (mk_framer default_max_buffer_size) else None),
                             pc_transport = me_transport e, pc_state = Connected\<rparr>;
                        st = st\<lparr>tc_multi_peer_entries := bump_child t (tc_multi_peer_entries st)\<rparr>;
                        st = add_context c st;
                        st = st\<lparr>tc_name_to_peer := assign_name name peer (tc_name_to_peer st)\<rparr>
                    in (peer, handle_state_changed env peer Connected st)))"

fun erase_peer_name :: "PeerId \<Rightarrow> (string \<times> PeerId) list \<Rightarrow> (string \<times> PeerId) list" where
  "erase_peer_name peer [] = []"
| "erase_peer_name peer (e # es) = (if snd e = peer then es else e # erase_peer_name peer es)"

definition handle_peer_disconnected :: "PeerId \<Rightarrow> ('s, 'p, 'w) Transceiver \<Rightarrow> ('s, 'p, 'w) Transceiver" where
  "handle_peer_disconnected peer st =
     (let st = (case find_peer st peer of
                  None \<Rightarrow> st
                | Some a \<Rightarrow>
                    (case tc_contexts st a of
                       None \<Rightarrow> st
                     | Some c \<Rightarrow> set_context a (c\<lparr>pc_state := Disconnected\<rparr>) st));
          st = (case context_with (\<lambda>c. pc_id c = peer) (tc_contexts st) (tc_peers st) of
                  None \<Rightarrow> st
                | Some (a, c) \<Rightarrow>
                    (case find_multi_peer_entry (pc_transport c) st of
                       None \<Rightarrow> st
                     | Some e \<Rightarrow>
                         st\<lparr>tc_name_to_peer := erase_peer_name peer (tc_name_to_peer st),
                            tc_peer_map := (tc_peer_map st)(peer_value peer := None),
                            tc_peers := remove1 a (tc_peers st),
                            tc_contexts := (tc_contexts st)(a := None),
                            tc_handlers := remove_peer peer (tc_handlers st)\<rparr>))
      in run_state_callbacks peer Disconnected st)"

section \<open>Workers\<close>

definition count_result ::
  "PeerId \<Rightarrow> u64 \<Rightarrow> DispatchResult \<Rightarrow> ('s, 'p, 'w) Transceiver \<Rightarrow> ('s, 'p, 'w) Transceiver" where
  "count_result peer type_id result st =
     (case result of
        Handled \<Rightarrow> st\<lparr>tc_stats := (tc_stats st)\<lparr>ts_messages_dispatched := ts_messages_dispatched (tc_stats st) + 1\<rparr>\<rparr>
      | DispatchError \<Rightarrow>
          fire_error peer
            (mk_error InternalError (''handler threw exception for type_id='' @ to_string (unat type_id)))
            (st\<lparr>tc_stats := (tc_stats st)\<lparr>ts_handler_errors := ts_handler_errors (tc_stats st) + 1\<rparr>\<rparr>)
      | NotFound \<Rightarrow> st)"

text \<open>\<open>elapsed\<close> is the time the handler took, in nanoseconds; the timeout is in milliseconds.\<close>

definition check_timeout :: "PeerId \<Rightarrow> u64 \<Rightarrow> nat \<Rightarrow> ('s, 'p, 'w) Transceiver \<Rightarrow> ('s, 'p, 'w) Transceiver" where
  "check_timeout peer type_id elapsed st =
     (let timeout = wc_handler_timeout (tcf_worker (tc_config st))
      in if timeout > 0 \<and> int elapsed > timeout * 1000000
         then fire_error peer
                (mk_error Timeout (''handler exceeded timeout for type_id='' @ to_string (unat type_id) @ '' ('' @
                   to_string (elapsed div 1000000) @ ''ms > '' @ to_string_int timeout @ ''ms)''))
                (st\<lparr>tc_stats := (tc_stats st)\<lparr>ts_handler_timeouts := ts_handler_timeouts (tc_stats st) + 1\<rparr>\<rparr>)
         else st)"

definition resume_transports :: "('s, 'p, 'w) Transceiver \<Rightarrow> ('s, 'p, 'w) Transceiver" where
  "resume_transports st =
     (case (qc_back_pressure_threshold (tcf_rx_queue (tc_config st)), tc_dispatch_queue st) of
        (Some threshold, Some q) \<Rightarrow>
          if threshold > 0 \<and>
             fill_below (bq_size q) (qc_capacity (tcf_rx_queue (tc_config st))) (fl_mult threshold (fl (8 / 10)))
          then st\<lparr>tc_world := fold (\<lambda>t. tr_resume (tc_objects st ! t)) (tc_transports st) (tc_world st)\<rparr>
          else st
      | _ \<Rightarrow> st)"

definition process_message :: "nat \<Rightarrow> 'p InboundMessage \<Rightarrow> ('s, 'p, 'w) Transceiver \<Rightarrow> ('s, 'p, 'w) Transceiver" where
  "process_message elapsed msg st =
     (let d = im_decoded msg;
          (result, w) = dispatch_raw (tc_handlers st) (im_peer msg) (dm_type_id d) (dm_payload d) (dm_raw d) (tc_world st);
          st = st\<lparr>tc_world := w\<rparr>;
          st = check_timeout (im_peer msg) (dm_type_id d) elapsed st;
          st = count_result (im_peer msg) (dm_type_id d) result st
      in resume_transports st)"

definition worker_enter :: "('s, 'p, 'w) Transceiver \<Rightarrow> ('s, 'p, 'w) Transceiver option" where
  "worker_enter st =
     (if tc_pending_workers st = 0 then None
      else Some (st\<lparr>tc_pending_workers := tc_pending_workers st - 1, tc_active_workers := tc_active_workers st + 1\<rparr>))"

definition worker_iteration :: "nat \<Rightarrow> ('s, 'p, 'w) Transceiver \<Rightarrow> ('s, 'p, 'w) Transceiver option" where
  "worker_iteration elapsed st =
     (if tc_active_workers st = 0 then None
      else case tc_dispatch_queue st of
        None \<Rightarrow> None
      | Some q \<Rightarrow>
          (case pop q of
             None \<Rightarrow> None
           | Some (None, q) \<Rightarrow>
               Some (st\<lparr>tc_dispatch_queue := Some q, tc_active_workers := tc_active_workers st - 1\<rparr>)
           | Some (Some msg, q) \<Rightarrow> Some (process_message elapsed msg (st\<lparr>tc_dispatch_queue := Some q\<rparr>))))"

section \<open>Lifecycle\<close>

definition stop_transports :: "('s, 'p, 'w) Transceiver \<Rightarrow> ('s, 'p, 'w) Transceiver" where
  "stop_transports st =
     st\<lparr>tc_world := fold (\<lambda>t. tr_stop (tc_objects st ! t)) (tc_transports st) (tc_world st)\<rparr>"

definition close_queue :: "('s, 'p, 'w) Transceiver \<Rightarrow> ('s, 'p, 'w) Transceiver" where
  "close_queue st = st\<lparr>tc_dispatch_queue := map_option queue_close (tc_dispatch_queue st)\<rparr>"

text \<open>
  \<open>stop\<close> up to the point where it waits for the workers, with whether the transceiver was running;
  \<open>join_workers\<close> is the rest, possible once every worker has left its loop.  A transceiver that was not
  running stops its transports only after the wait.  \<open>start\<close> ends the same way when a transport fails.
\<close>

definition stop_request :: "('s, 'p, 'w) Transceiver \<Rightarrow> bool \<times> ('s, 'p, 'w) Transceiver" where
  "stop_request st =
     (if tc_running st then (True, close_queue (stop_transports (st\<lparr>tc_running := False\<rparr>)))
      else (False, close_queue st))"

definition join_workers :: "bool \<Rightarrow> ('s, 'p, 'w) Transceiver \<Rightarrow> ('s, 'p, 'w) Transceiver option" where
  "join_workers was_running st =
     (if tc_pending_workers st = 0 \<and> tc_active_workers st = 0
      then Some (if was_running then st else stop_transports st) else None)"

fun start_transports ::
  "nat list \<Rightarrow> ('s, 'p, 'w) Transceiver \<Rightarrow> VoidResult \<times> ('s, 'p, 'w) Transceiver" where
  "start_transports [] st = (Inr (), st)"
| "start_transports (t # ts) st =
     (let (result, w) = tr_start (tc_objects st ! t) (tc_world st); st = st\<lparr>tc_world := w\<rparr>
      in case result of
           Inl e \<Rightarrow> (Inl e, snd (stop_request st))
         | Inr u \<Rightarrow> start_transports ts st)"

definition blank_message :: "('s, 'p, 'w) environment \<Rightarrow> 'p InboundMessage" where
  "blank_message env = \<lparr>im_peer = no_peer,
     im_decoded = \<lparr>dm_type_id = 0, dm_type_name = [], dm_payload = en_no_payload env, dm_raw = []\<rparr>\<rparr>"

definition threshold_ok :: "rat option \<Rightarrow> bool" where
  "threshold_ok bp = (case bp of None \<Rightarrow> False | Some x \<Rightarrow> 0 \<le> x \<and> x \<le> 1)"

definition start ::
  "('s, 'p, 'w) environment \<Rightarrow> ('s, 'p, 'w) Transceiver \<Rightarrow> VoidResult \<times> ('s, 'p, 'w) Transceiver" where
  "start env st =
     (let bp = qc_back_pressure_threshold (tcf_rx_queue (tc_config st))
      in if tc_running st then (Inl (mk_error AlreadyRunning ''Transceiver is already running''), st)
         else if \<not> threshold_ok bp
         then (Inl (mk_error InvalidArgument
                (''back_pressure_threshold must be in [0.0, 1.0], got '' @ en_format_double env bp)), st)
         else
           let q = mk_queue (blank_message env) (qc_capacity (tcf_rx_queue (tc_config st)))
                     (qc_drop_policy (tcf_rx_queue (tc_config st)));
               thread_count = wc_thread_count (tcf_worker (tc_config st));
               thread_count = (if thread_count = 0 then 1 else thread_count);
               st = st\<lparr>tc_dispatch_queue := Some q, tc_running := True,
                       tc_pending_workers := tc_pending_workers st + thread_count\<rparr>
           in start_transports (tc_transports st) st)"

end
