(* ===== verification/Transceiver_Safety.thy ===== *)
theory Transceiver_Safety
  imports Transceiver_Model
begin

text \<open>
  What holds in every state a transceiver can reach.  \<open>perform\<close> runs one event: a call of a public
  member function, a callback from a transport, or a step of a worker thread; \<open>reach\<close> is any
  interleaving of them.  The invariant \<open>tc_ok\<close> says that the peer table has no dangling pointer, that
  the dispatch queue is well formed and within its capacity, and that every framer is within its limit;
  \<open>ids_ok\<close> that ids are unique and never zero, which needs fewer than 255 peers at a time.
\<close>

section \<open>Events\<close>

datatype ('s, 'p, 'w) event =
    New_transport "'w ITransport"
  | Add_session string "'s option" nat
  | Add_factory string "('s, 'w) SessionFactory" nat
  | Config_queue QueueConfig
  | Config_worker WorkerConfig
  | Config_log MessageLogConfig
  | Config_shutdown int
  | Handlers "('p, 'w) reg_call"
  | Listen_state "'w ConnectionStateCallback"
  | Unlisten_state u32
  | Listen_error "'w ErrorCallback"
  | Unlisten_error u32
  | Start
  | Stop
  | Join bool
  | Worker_enters
  | Worker_works nat
  | Send PeerId u64 'p
  | Send_batch PeerId u64 "'p list"
  | Log_recv PeerId string nat string bytes
  | Log_send PeerId string nat string bytes
  | Reset_statistics
  | Data PeerId bytes
  | Peer_connects nat string
  | Peer_disconnects PeerId
  | State_changes PeerId ConnectionState

primrec perform ::
  "('s, 'p, 'w) environment \<Rightarrow> ('s, 'p, 'w) event \<Rightarrow> ('s, 'p, 'w) Transceiver \<Rightarrow> ('s, 'p, 'w) Transceiver option" where
  "perform env (New_transport t) st = Some (st\<lparr>tc_objects := tc_objects st @ [t]\<rparr>)"
| "perform env (Add_session name s t) st =
     (if t < length (tc_objects st) then Some (snd (add_peer_session name s (Some t) st)) else None)"
| "perform env (Add_factory name f t) st =
     (if t < length (tc_objects st) then Some (snd (add_peer_factory name f (Some t) st)) else None)"
| "perform env (Config_queue c) st = Some (set_queue_config c st)"
| "perform env (Config_worker c) st = Some (set_worker_config c st)"
| "perform env (Config_log c) st = Some (set_message_log_config c st)"
| "perform env (Config_shutdown t) st = Some (set_shutdown_timeout t st)"
| "perform env (Handlers c) st = Some (st\<lparr>tc_handlers := do_reg c (tc_handlers st)\<rparr>)"
| "perform env (Listen_state cb) st = Some (snd (on_state_change cb st))"
| "perform env (Unlisten_state i) st = Some (snd (remove_state_change i st))"
| "perform env (Listen_error cb) st = Some (snd (on_error cb st))"
| "perform env (Unlisten_error i) st = Some (snd (remove_error_callback i st))"
| "perform env Start st = Some (snd (start env st))"
| "perform env Stop st = Some (snd (stop_request st))"
| "perform env (Join was_running) st = join_workers was_running st"
| "perform env Worker_enters st = worker_enter st"
| "perform env (Worker_works elapsed) st = worker_iteration elapsed st"
| "perform env (Send peer type_id payload) st = Some (snd (send_impl env peer type_id payload st))"
| "perform env (Send_batch peer type_id payloads) st = Some (snd (send_batch_impl env peer type_id payloads st))"
| "perform env (Log_recv peer n k content raw) st = Some (log_recv_message env peer n k content raw st)"
| "perform env (Log_send peer n k content raw) st = Some (log_send_message env peer n k content raw st)"
| "perform env Reset_statistics st = Some (st\<lparr>tc_stats := transceiver_stats_reset (tc_stats st)\<rparr>)"
| "perform env (Data peer data) st = handle_data_received env peer data st"
| "perform env (Peer_connects t endpoint) st =
     (if t < length (tc_objects st) then Some (snd (handle_peer_connected env t endpoint st)) else None)"
| "perform env (Peer_disconnects peer) st = Some (handle_peer_disconnected peer st)"
| "perform env (State_changes peer s) st = Some (handle_state_changed env peer s st)"

text \<open>Runs in which the number of peers stays below a bound before every step.\<close>

inductive reach ::
  "('s, 'p, 'w) environment \<Rightarrow> nat \<Rightarrow> ('s, 'p, 'w) Transceiver \<Rightarrow> ('s, 'p, 'w) Transceiver \<Rightarrow> bool"
  for env :: "('s, 'p, 'w) environment" and bound :: nat and st0 :: "('s, 'p, 'w) Transceiver" where
  reach_init: "reach env bound st0 st0"
| reach_step: "reach env bound st0 st \<Longrightarrow> length (tc_peers st) < bound \<Longrightarrow> perform env e st = Some st' \<Longrightarrow>
     reach env bound st0 st'"

section \<open>The invariant\<close>

definition peers_ok :: "('s, 'p, 'w) Transceiver \<Rightarrow> bool" where
  "peers_ok st \<longleftrightarrow>
     set (tc_peers st) = dom (tc_contexts st) \<and> distinct (tc_peers st) \<and>
     (\<forall>a \<in> dom (tc_contexts st). a < tc_next_context st) \<and>
     (\<forall>i a. tc_peer_map st i = Some a \<longrightarrow> (\<exists>c. tc_contexts st a = Some c \<and> peer_value (pc_id c) = i))"

definition framers_ok :: "('s, 'p, 'w) Transceiver \<Rightarrow> bool" where
  "framers_ok st \<longleftrightarrow> (\<forall>a c f. tc_contexts st a = Some c \<longrightarrow> pc_framer c = Some f \<longrightarrow> framer_ok f)"

definition dispatch_queue_ok :: "('s, 'p, 'w) Transceiver \<Rightarrow> bool" where
  "dispatch_queue_ok st \<longleftrightarrow> (\<forall>q. tc_dispatch_queue st = Some q \<longrightarrow> queue_ok q)"

definition tc_ok :: "('s, 'p, 'w) Transceiver \<Rightarrow> bool" where
  "tc_ok st \<longleftrightarrow> peers_ok st \<and> framers_ok st \<and> dispatch_queue_ok st"

definition ids_ok :: "('s, 'p, 'w) Transceiver \<Rightarrow> bool" where
  "ids_ok st \<longleftrightarrow> tc_peer_map st 0 = None \<and>
     (\<forall>a c. tc_contexts st a = Some c \<longrightarrow> tc_peer_map st (peer_value (pc_id c)) = Some a)"

text \<open>Steps that touch neither the peer table nor the queue.\<close>

definition quiet :: "('s, 'p, 'w) Transceiver \<Rightarrow> ('s, 'p, 'w) Transceiver \<Rightarrow> bool" where
  "quiet st st' \<longleftrightarrow> tc_contexts st' = tc_contexts st \<and> tc_next_context st' = tc_next_context st \<and>
     tc_peers st' = tc_peers st \<and> tc_peer_map st' = tc_peer_map st"

lemma quiet_refl [simp]: "quiet st st"
  by (simp add: quiet_def)

lemma quiet_trans: "quiet st st' \<Longrightarrow> quiet st' st'' \<Longrightarrow> quiet st st''"
  by (simp add: quiet_def)

lemma quiet_keeps:
  "quiet st st' \<Longrightarrow> peers_ok st' = peers_ok st" "quiet st st' \<Longrightarrow> framers_ok st' = framers_ok st"
  "quiet st st' \<Longrightarrow> ids_ok st' = ids_ok st"
  by (simp_all add: quiet_def peers_ok_def framers_ok_def ids_ok_def)

named_theorems quiet_rules \<open>operations that leave the peer table alone\<close>

lemma quiet_effects [quiet_rules]:
  "quiet st (fire_error_event ev st)" "quiet st (fire_error p e st)" "quiet st (run_state_callbacks p s st)"
  "quiet st (log_message env wr r st)" "quiet st (log_recv_message env p n k txt raw st)"
  "quiet st (log_send_message env p n k txt raw st)" "quiet st (log_sent env c ty bs txt st)"
  "quiet st (snd (transport_send t p bs st))" "quiet st (back_pressure p st)" "quiet st (resume_transports st)"
  "quiet st (check_timeout p ty k st)" "quiet st (count_result p ty res st)" "quiet st (stop_transports st)"
  "quiet st (close_queue st)" "quiet st (track_transport t st)" "quiet st (snd (next_peer_id st))"
  by (auto simp: quiet_def fire_error_event_def fire_error_def run_state_callbacks_def log_message_def
      log_recv_message_def log_send_message_def log_sent_def transport_send_def back_pressure_def
      resume_transports_def check_timeout_def count_result_def stop_transports_def close_queue_def
      track_transport_def next_peer_id_def Let_def split: option.splits DispatchResult.splits prod.splits)

lemma queue_kept [simp]:
  "tc_dispatch_queue (fire_error_event ev st) = tc_dispatch_queue st"
  "tc_dispatch_queue (fire_error p e st) = tc_dispatch_queue st"
  "tc_dispatch_queue (run_state_callbacks p s st) = tc_dispatch_queue st"
  "tc_dispatch_queue (log_message env wr r st) = tc_dispatch_queue st"
  "tc_dispatch_queue (log_recv_message env p n k txt raw st) = tc_dispatch_queue st"
  "tc_dispatch_queue (log_send_message env p n k txt raw st) = tc_dispatch_queue st"
  "tc_dispatch_queue (log_sent env c ty bs txt st) = tc_dispatch_queue st"
  "tc_dispatch_queue (snd (transport_send t p bs st)) = tc_dispatch_queue st"
  "tc_dispatch_queue (back_pressure p st) = tc_dispatch_queue st"
  "tc_dispatch_queue (resume_transports st) = tc_dispatch_queue st"
  "tc_dispatch_queue (check_timeout p ty k st) = tc_dispatch_queue st"
  "tc_dispatch_queue (count_result p ty res st) = tc_dispatch_queue st"
  "tc_dispatch_queue (stop_transports st) = tc_dispatch_queue st"
  "tc_dispatch_queue (track_transport t st) = tc_dispatch_queue st"
  "tc_dispatch_queue (snd (next_peer_id st)) = tc_dispatch_queue st"
  "tc_dispatch_queue (set_context a c st) = tc_dispatch_queue st"
  "tc_dispatch_queue (add_context c st) = tc_dispatch_queue st"
  by (auto simp: fire_error_event_def fire_error_def run_state_callbacks_def log_message_def
      log_recv_message_def log_send_message_def log_sent_def transport_send_def back_pressure_def
      resume_transports_def check_timeout_def count_result_def stop_transports_def
      track_transport_def next_peer_id_def set_context_def add_context_def Let_def
      split: option.splits DispatchResult.splits prod.splits)

section \<open>Identifiers\<close>

lemma next_peer_id_loop_cases:
  "(\<exists>k < n. fst (next_peer_id_loop n m c) = PeerId (c + of_nat k) \<and> c + of_nat k \<noteq> 0 \<and> m (c + of_nat k) = None) \<or>
   (\<forall>k < n. c + of_nat k = 0 \<or> m (c + of_nat k) \<noteq> None)"
proof (induction n arbitrary: c)
  case (Suc n)
  show ?case
  proof (cases "c \<noteq> 0 \<and> m c = None")
    case True
    then show ?thesis by (intro disjI1 exI [of _ 0]) auto
  next
    case False
    have shift: "c + 1 + of_nat k = c + of_nat (Suc k)" for k by simp
    have "next_peer_id_loop (Suc n) m c = next_peer_id_loop n m (c + 1)" using False by auto
    with Suc.IH [of "c + 1"] show ?thesis unfolding shift
    proof (elim disjE exE)
      fix k
      assume "k < n \<and> fst (next_peer_id_loop n m (c + 1)) = PeerId (c + of_nat (Suc k)) \<and>
        c + of_nat (Suc k) \<noteq> 0 \<and> m (c + of_nat (Suc k)) = None"
      with \<open>next_peer_id_loop (Suc n) m c = _\<close> show ?thesis by (intro disjI1 exI [of _ "Suc k"]) simp
    next
      assume all: "\<forall>k < n. c + of_nat (Suc k) = 0 \<or> m (c + of_nat (Suc k)) \<noteq> None"
      have "c + of_nat k = 0 \<or> m (c + of_nat k) \<noteq> None" if "k < Suc n" for k
        using that all False by (cases k) auto
      then show ?thesis by blast
    qed
  qed
qed simp

lemma next_peer_id_loop_fresh:
  assumes "finite (dom m)" and "card (dom m) + 1 < n" and "n \<le> 2 ^ 32"
  shows "peer_valid (fst (next_peer_id_loop n m c)) \<and> m (peer_value (fst (next_peer_id_loop n m c))) = None"
proof (rule ccontr)
  assume "\<not> ?thesis"
  with next_peer_id_loop_cases [of n m c]
  have "\<forall>k < n. c + of_nat k \<in> insert 0 (dom m)" by (auto simp: peer_valid_def)
  then have "(\<lambda>k. c + of_nat k) ` {..<n} \<subseteq> insert 0 (dom m)" by auto
  moreover have "inj_on (\<lambda>k. c + (of_nat k :: u32)) {..<n}"
  proof (rule inj_onI)
    fix j k assume "j \<in> {..<n}" "k \<in> {..<n}" and "c + (of_nat j :: u32) = c + of_nat k"
    with assms(3) show "j = k" by (auto simp: word_of_nat_eq_iff take_bit_eq_mod)
  qed
  ultimately have "n \<le> card (insert 0 (dom m))"
    using assms(1) card_image card_mono by (metis card_lessThan finite_insert)
  also have "\<dots> \<le> card (dom m) + 1" using assms(1) by (simp add: card_insert_if)
  finally show False using assms(2) by simp
qed

lemma peer_map_small:
  assumes "peers_ok st"
  shows "finite (dom (tc_peer_map st))" "card (dom (tc_peer_map st)) \<le> length (tc_peers st)"
proof -
  let ?f = "\<lambda>i. the (tc_peer_map st i)"
  have known: "\<exists>c. tc_contexts st a = Some c \<and> peer_value (pc_id c) = i" if "tc_peer_map st i = Some a" for i a
    using assms that by (simp add: peers_ok_def)
  have inj: "inj_on ?f (dom (tc_peer_map st))"
  proof (rule inj_onI)
    fix i j assume "i \<in> dom (tc_peer_map st)" "j \<in> dom (tc_peer_map st)" "?f i = ?f j"
    then obtain a where "tc_peer_map st i = Some a" "tc_peer_map st j = Some a" by auto
    from known [OF this(1)] known [OF this(2)] show "i = j" by auto
  qed
  have "a \<in> dom (tc_contexts st)" if "tc_peer_map st i = Some a" for i a using known [OF that] by auto
  moreover have "dom (tc_contexts st) = set (tc_peers st)" using assms by (simp add: peers_ok_def)
  ultimately have sub: "?f ` dom (tc_peer_map st) \<subseteq> set (tc_peers st)" by auto
  show "finite (dom (tc_peer_map st))" using inj sub by (meson finite_imageD finite_set finite_subset)
  have "card (dom (tc_peer_map st)) = card (?f ` dom (tc_peer_map st))" using inj by (simp add: card_image)
  also have "\<dots> \<le> card (set (tc_peers st))" using sub by (simp add: card_mono)
  finally show "card (dom (tc_peer_map st)) \<le> length (tc_peers st)" using card_length le_trans by blast
qed

lemma next_peer_id_fresh_small:
  assumes "peers_ok st" and "length (tc_peers st) < 255" and "next_peer_id st = (p, st')"
  shows "peer_value p \<noteq> 0" "tc_peer_map st (peer_value p) = None"
proof -
  have "p = fst (next_peer_id_loop 256 (tc_peer_map st) (tc_next_peer_id st))"
    using assms(3) by (auto simp: next_peer_id_def split: prod.splits)
  moreover have small: "card (dom (tc_peer_map st)) + 1 < 256"
    using peer_map_small(2) [OF assms(1)] assms(2) by linarith
  have "(256 :: nat) \<le> 2 ^ 32" by simp
  note next_peer_id_loop_fresh [OF peer_map_small(1) [OF assms(1)] small this, of "tc_next_peer_id st"]
  ultimately show "peer_value p \<noteq> 0" "tc_peer_map st (peer_value p) = None"
    unfolding peer_valid_def by (simp_all only: not_False_eq_True)
qed

section \<open>Preservation\<close>

definition keeps :: "('s, 'p, 'w) Transceiver \<Rightarrow> ('s, 'p, 'w) Transceiver \<Rightarrow> bool" where
  "keeps st st' \<longleftrightarrow> (tc_ok st \<longrightarrow> tc_ok st' \<and> (ids_ok st \<longrightarrow> length (tc_peers st) < 255 \<longrightarrow> ids_ok st'))"

text \<open>Steps that keep ids unique however many peers there are: they allocate none.\<close>

definition steady :: "('s, 'p, 'w) Transceiver \<Rightarrow> ('s, 'p, 'w) Transceiver \<Rightarrow> bool" where
  "steady st st' \<longleftrightarrow> (tc_ok st \<longrightarrow> tc_ok st' \<and> (ids_ok st \<longrightarrow> ids_ok st'))"

lemma steady_keeps: "steady st st' \<Longrightarrow> keeps st st'"
  by (auto simp: keeps_def steady_def)

lemma keeps_steady: "keeps st st' \<Longrightarrow> steady st' st'' \<Longrightarrow> keeps st st''"
  by (auto simp: keeps_def steady_def)

lemma steady_then:
  assumes "steady st st'" and "quiet st' st''" and "tc_dispatch_queue st'' = tc_dispatch_queue st'"
  shows "steady st st''"
proof -
  have "dispatch_queue_ok st'' = dispatch_queue_ok st'" unfolding dispatch_queue_ok_def assms(3) ..
  then show ?thesis using quiet_keeps [OF assms(2)] assms(1) unfolding steady_def tc_ok_def by blast
qed

lemma quiet_keeps_all:
  assumes "quiet st st'" and "dispatch_queue_ok st \<Longrightarrow> dispatch_queue_ok st'"
  shows "keeps st st'"
  using quiet_keeps [OF assms(1)] assms(2) unfolding keeps_def tc_ok_def by blast

lemma keeps_quiet:
  assumes "keeps st st'" and "quiet st' st''" and "dispatch_queue_ok st' \<Longrightarrow> dispatch_queue_ok st''"
  shows "keeps st st''"
  using quiet_keeps [OF assms(2)] assms(1,3) unfolding keeps_def tc_ok_def by blast

lemma quiet_then_keeps:
  assumes "quiet st st'" and "dispatch_queue_ok st \<Longrightarrow> dispatch_queue_ok st'" and "keeps st' st''"
  shows "keeps st st''"
proof -
  have "tc_peers st' = tc_peers st" using assms(1) by (simp add: quiet_def)
  then show ?thesis using quiet_keeps [OF assms(1)] assms(2,3) unfolding keeps_def tc_ok_def by simp
qed

lemma set_context_sel [simp]:
  "tc_contexts (set_context a c st) = (tc_contexts st)(a \<mapsto> c)" "tc_peers (set_context a c st) = tc_peers st"
  "tc_peer_map (set_context a c st) = tc_peer_map st" "tc_next_context (set_context a c st) = tc_next_context st"
  by (simp_all add: set_context_def)

lemma peers_okD:
  assumes "peers_ok st"
  shows "set (tc_peers st) = dom (tc_contexts st)" "distinct (tc_peers st)"
    "tc_contexts st a = Some c \<Longrightarrow> a < tc_next_context st"
    "tc_peer_map st i = Some a \<Longrightarrow> \<exists>c. tc_contexts st a = Some c \<and> peer_value (pc_id c) = i"
  using assms unfolding peers_ok_def by (blast+)

lemma peers_okI:
  assumes "set (tc_peers st) = dom (tc_contexts st)" and "distinct (tc_peers st)"
    and "\<And>a c. tc_contexts st a = Some c \<Longrightarrow> a < tc_next_context st"
    and "\<And>i a. tc_peer_map st i = Some a \<Longrightarrow> \<exists>c. tc_contexts st a = Some c \<and> peer_value (pc_id c) = i"
  shows "peers_ok st"
  using assms unfolding peers_ok_def by blast

lemma ids_okD: "ids_ok st \<Longrightarrow> tc_contexts st a = Some c \<Longrightarrow> tc_peer_map st (peer_value (pc_id c)) = Some a"
  unfolding ids_ok_def by blast

lemma ids_okI:
  "tc_peer_map st 0 = None \<Longrightarrow>
   (\<And>a c. tc_contexts st a = Some c \<Longrightarrow> tc_peer_map st (peer_value (pc_id c)) = Some a) \<Longrightarrow> ids_ok st"
  unfolding ids_ok_def by blast

lemma set_context_peers:
  assumes "tc_contexts st a = Some c0" and "pc_id c = pc_id c0"
  shows "peers_ok st \<Longrightarrow> peers_ok (set_context a c st)" "ids_ok st \<Longrightarrow> ids_ok (set_context a c st)"
proof -
  show "peers_ok (set_context a c st)" if ok: "peers_ok st"
  proof (rule peers_okI)
    show "set (tc_peers (set_context a c st)) = dom (tc_contexts (set_context a c st))"
      using peers_okD(1) [OF ok] assms(1) by (simp add: domI insert_absorb)
    show "distinct (tc_peers (set_context a c st))" using peers_okD(2) [OF ok] by simp
    fix x d assume "tc_contexts (set_context a c st) x = Some d"
    then show "x < tc_next_context (set_context a c st)"
      using peers_okD(3) [OF ok] assms(1) by (cases "x = a") auto
  next
    fix i x assume "tc_peer_map (set_context a c st) i = Some x"
    then obtain c' where "tc_contexts st x = Some c'" "peer_value (pc_id c') = i"
      using peers_okD(4) [OF ok, of i x] by auto
    then show "\<exists>c'. tc_contexts (set_context a c st) x = Some c' \<and> peer_value (pc_id c') = i"
      using assms by (cases "x = a") auto
  qed
  show "ids_ok (set_context a c st)" if "ids_ok st"
  proof (rule ids_okI)
    show "tc_peer_map (set_context a c st) 0 = None" using that by (simp add: ids_ok_def)
    fix x d assume "tc_contexts (set_context a c st) x = Some d"
    then show "tc_peer_map (set_context a c st) (peer_value (pc_id d)) = Some x"
      using ids_okD [OF that, of x d] ids_okD [OF that assms(1)] assms(2) by (cases "x = a") auto
  qed
qed

lemma set_context_steady:
  assumes "tc_contexts st a = Some c0" and "pc_id c = pc_id c0"
    and "\<And>f. framers_ok st \<Longrightarrow> pc_framer c = Some f \<Longrightarrow> framer_ok f"
  shows "steady st (set_context a c st)"
proof -
  have "framer_ok f" if "framers_ok st" and "((tc_contexts st)(a \<mapsto> c)) x = Some d" and "pc_framer d = Some f" for x d f
  proof (cases "x = a")
    case True
    then show ?thesis using assms(3) [OF that(1)] that(2,3) by simp
  next
    case False
    then show ?thesis using that unfolding framers_ok_def by (metis fun_upd_other)
  qed
  then have "framers_ok (set_context a c st)" if "framers_ok st"
    using that unfolding framers_ok_def [of "set_context a c st"] set_context_sel by blast
  then show ?thesis using set_context_peers [OF assms(1,2)]
    by (simp add: steady_def tc_ok_def dispatch_queue_ok_def)
qed

lemmas set_context_keeps = steady_keeps [OF set_context_steady]

lemma fresh_context:
  assumes "peers_ok st"
  shows "tc_contexts st (tc_next_context st) = None" "tc_next_context st \<notin> set (tc_peers st)"
    "tc_peer_map st i \<noteq> Some (tc_next_context st)"
proof -
  show none: "tc_contexts st (tc_next_context st) = None"
    using assms unfolding peers_ok_def by (metis domIff less_irrefl option.distinct(1))
  then show "tc_next_context st \<notin> set (tc_peers st)" using assms by (auto simp: peers_ok_def)
  show "tc_peer_map st i \<noteq> Some (tc_next_context st)"
    using assms none unfolding peers_ok_def by (metis option.distinct(1))
qed

lemma add_context_peers:
  assumes "peers_ok st"
  shows "peers_ok (add_context c st)"
proof -
  have "\<exists>c'. tc_contexts (add_context c st) a = Some c' \<and> peer_value (pc_id c') = i"
    if "tc_peer_map (add_context c st) i = Some a" for i a
  proof (cases "i = peer_value (pc_id c)")
    case True
    then show ?thesis using that by (auto simp: add_context_def Let_def)
  next
    case False
    then have "tc_peer_map st i = Some a" using that by (simp add: add_context_def Let_def)
    moreover from this have "a \<noteq> tc_next_context st" using fresh_context(3) [OF assms] by metis
    ultimately show ?thesis using assms by (simp add: add_context_def Let_def peers_ok_def)
  qed
  moreover have "\<forall>a \<in> dom (tc_contexts (add_context c st)). a < Suc (tc_next_context st)"
    using assms by (auto simp: add_context_def Let_def peers_ok_def less_Suc_eq)
  ultimately show ?thesis using assms fresh_context(2) [OF assms]
    by (simp add: peers_ok_def) (simp add: add_context_def Let_def)
qed

lemma add_context_ids:
  assumes "peers_ok st" and "ids_ok st" and "peer_value (pc_id c) \<noteq> 0"
    and "tc_peer_map st (peer_value (pc_id c)) = None"
  shows "ids_ok (add_context c st)"
  using assms(2-4) by (auto simp: ids_ok_def add_context_def Let_def) (metis option.distinct(1))

lemma add_context_keeps:
  assumes "length (tc_peers st) < 255 \<Longrightarrow> peers_ok st \<Longrightarrow>
      peer_value (pc_id c) \<noteq> 0 \<and> tc_peer_map st (peer_value (pc_id c)) = None"
    and "\<And>f. pc_framer c = Some f \<Longrightarrow> framer_ok f"
  shows "keeps st (add_context c st)"
proof -
  have "framers_ok (add_context c st)" if "framers_ok st"
    using that assms(2) by (auto simp: framers_ok_def add_context_def Let_def)
  then show ?thesis using add_context_peers [of st c] add_context_ids [of st c] assms(1)
    by (auto simp: keeps_def tc_ok_def dispatch_queue_ok_def)
qed

section \<open>Each operation\<close>

lemma push_data_ok: "framer_ok f \<Longrightarrow> framer_ok (snd (push_data ses data f))"
  using push_data_scan [of f data ses] push_data_overflow [of f data ses]
  by (cases "length (unread f) + length data \<le> sf_max_buffer_size f") auto

lemma framer_reset_ok: "framer_ok (framer_reset f)"
  by (simp add: framer_ok_def framer_reset_def)

lemma queue_close_ok: "queue_ok q \<Longrightarrow> queue_ok (queue_close q)"
  by (simp add: queue_ok_def queue_close_def slot_def)

lemma push_ok: "queue_ok q \<Longrightarrow> push x q = Some (b, q') \<Longrightarrow> queue_ok q'"
  using try_push_refines(1) [of q x b q'] push_eq_try_push [of q x] by (simp split: if_splits)

lemma pop_ok: "queue_ok q \<Longrightarrow> pop q = Some (r, q') \<Longrightarrow> queue_ok q'"
  using try_pop_refines(1) [of q r q'] pop_eq_try_pop [of q] by (simp split: if_splits)

lemma keeps_same_queue: "quiet st st' \<Longrightarrow> tc_dispatch_queue st' = tc_dispatch_queue st \<Longrightarrow> keeps st st'"
  by (rule quiet_keeps_all) (simp_all add: dispatch_queue_ok_def)

lemma keeps_refl [simp]: "keeps st st"
  by (simp add: keeps_def)

lemma keeps_then: "keeps st st' \<Longrightarrow> quiet st' st'' \<Longrightarrow> tc_dispatch_queue st'' = tc_dispatch_queue st' \<Longrightarrow> keeps st st''"
  by (erule keeps_quiet) (simp_all add: dispatch_queue_ok_def)

lemma settings_keep:
  "keeps st (set_queue_config qc st)" "keeps st (set_worker_config wc st)" "keeps st (set_message_log_config lc st)"
  "keeps st (set_shutdown_timeout t st)" "keeps st (snd (on_state_change scb st))"
  "keeps st (snd (remove_state_change i st))" "keeps st (snd (on_error ecb st))"
  "keeps st (snd (remove_error_callback i st))"
  by (rule keeps_same_queue; simp add: quiet_def set_queue_config_def set_worker_config_def
      set_message_log_config_def set_shutdown_timeout_def on_state_change_def remove_state_change_def
      on_error_def remove_error_callback_def Let_def case_prod_beta)+

lemma next_peer_id_sel [simp]:
  "tc_contexts (snd (next_peer_id st)) = tc_contexts st" "tc_peers (snd (next_peer_id st)) = tc_peers st"
  "tc_peer_map (snd (next_peer_id st)) = tc_peer_map st" "tc_objects (snd (next_peer_id st)) = tc_objects st"
  "tc_next_context (snd (next_peer_id st)) = tc_next_context st"
  by (simp_all add: next_peer_id_def case_prod_beta)

lemma admit_keeps:
  assumes "pc_id c = fst (next_peer_id st)" and "pred_option framer_ok (pc_framer c)"
    and "quiet (snd (next_peer_id st)) st1" and "tc_dispatch_queue st1 = tc_dispatch_queue st"
  shows "keeps st (add_context c st1)"
proof -
  have q: "quiet st st1" using quiet_effects(16) assms(3) by (rule quiet_trans)
  have same: "tc_peers st1 = tc_peers st" "tc_peer_map st1 = tc_peer_map st" "peers_ok st1 = peers_ok st"
    using q quiet_keeps(1) [OF q] by (simp_all add: quiet_def)
  have "keeps st1 (add_context c st1)"
  proof (rule add_context_keeps)
    assume "length (tc_peers st1) < 255" "peers_ok st1"
    then show "peer_value (pc_id c) \<noteq> 0 \<and> tc_peer_map st1 (peer_value (pc_id c)) = None"
      using next_peer_id_fresh_small [of st "fst (next_peer_id st)" "snd (next_peer_id st)"] same assms(1) by simp
  qed (use assms(2) in simp)
  with q show ?thesis by (intro quiet_then_keeps [of st st1]) (simp_all add: dispatch_queue_ok_def assms(4))
qed

lemma admitted_keeps:
  assumes "pc_id c = fst (next_peer_id st)" and "pred_option framer_ok (pc_framer c)"
  shows "keeps st (track_transport t ((add_context c (snd (next_peer_id st)))\<lparr>tc_name_to_peer := ns\<rparr>))"
  by (rule keeps_then [OF admit_keeps [OF assms quiet_refl]]) (simp_all add: quiet_def track_transport_def)

lemma add_peer_session_keeps: "keeps st (snd (add_peer_session name s t st))"
  unfolding add_peer_session_def Let_def case_prod_beta
  by (simp add: keeps_same_queue quiet_effects admitted_keeps split: option.split)

lemma add_peer_factory_keeps: "keeps st (snd (add_peer_factory name f t st))"
  unfolding add_peer_factory_def Let_def case_prod_beta
  by (auto split: option.split intro!: keeps_same_queue quiet_effects simp: quiet_def track_transport_def)

lemma stop_keeps: "keeps st (snd (stop_request st))"
proof -
  have "dispatch_queue_ok st' \<Longrightarrow> dispatch_queue_ok (close_queue st')" for st' :: "('a, 'b, 'c) Transceiver"
    by (auto simp: dispatch_queue_ok_def close_queue_def queue_close_ok)
  moreover have "quiet st (st\<lparr>tc_running := False\<rparr>)" by (simp add: quiet_def)
  ultimately show ?thesis unfolding stop_request_def
    by (auto intro!: quiet_keeps_all quiet_effects(14) intro: quiet_trans [OF quiet_effects(13)] quiet_trans
        simp: quiet_def close_queue_def stop_transports_def dispatch_queue_ok_def queue_close_ok)
qed

lemma start_transports_keeps: "keeps st (snd (start_transports ts st))"
proof (induction ts st rule: start_transports.induct)
  case (2 t ts st)
  obtain r w where r: "tr_start (tc_objects st ! t) (tc_world st) = (r, w)" by fastforce
  have q: "quiet st (st\<lparr>tc_world := w\<rparr>)" by (simp add: quiet_def)
  show ?case
  proof (cases r)
    case (Inl e)
    then show ?thesis using r quiet_then_keeps [OF q _ stop_keeps] by (simp add: dispatch_queue_ok_def)
  next
    case (Inr u)
    then show ?thesis
      using r quiet_then_keeps [OF q _ "2.IH" [OF refl r [symmetric] refl Inr]] by (simp add: dispatch_queue_ok_def)
  qed
qed simp

lemma start_keeps: "keeps st (snd (start env st))"
proof -
  have "keeps st (snd (start_transports ts
      (st\<lparr>tc_dispatch_queue := Some (mk_queue b c p), tc_running := True, tc_pending_workers := n\<rparr>)))" for ts b c p n
    by (rule quiet_then_keeps [OF _ _ start_transports_keeps])
      (simp_all add: quiet_def dispatch_queue_ok_def mk_queue_ok)
  then show ?thesis by (simp add: start_def Let_def)
qed

lemma join_keeps: "join_workers b st = Some st' \<Longrightarrow> keeps st st'"
  by (auto simp: join_workers_def stop_transports_def quiet_def intro!: keeps_same_queue split: if_splits)

lemma worker_enter_keeps: "worker_enter st = Some st' \<Longrightarrow> keeps st st'"
  by (auto simp: worker_enter_def quiet_def intro!: keeps_same_queue split: if_splits)

lemma process_message_quiet:
  "quiet st (process_message n m st)" "tc_dispatch_queue (process_message n m st) = tc_dispatch_queue st"
proof -
  have w: "quiet st (st\<lparr>tc_world := w\<rparr>)" for w by (simp add: quiet_def)
  show "quiet st (process_message n m st)" unfolding process_message_def Let_def case_prod_beta
    by (rule quiet_trans [OF quiet_trans [OF quiet_trans [OF w quiet_effects(11)] quiet_effects(12)] quiet_effects(10)])
  show "tc_dispatch_queue (process_message n m st) = tc_dispatch_queue st"
    by (simp add: process_message_def Let_def case_prod_beta)
qed

lemma worker_iteration_keeps:
  assumes "worker_iteration n st = Some st'"
  shows "keeps st st'"
proof -
  obtain q r q' where q: "tc_dispatch_queue st = Some q" "pop q = Some (r, q')"
    using assms by (auto simp: worker_iteration_def split: if_splits option.splits)
  have pq: "quiet st (st\<lparr>tc_dispatch_queue := Some q', tc_active_workers := k\<rparr>)" for k by (simp add: quiet_def)
  have ok: "dispatch_queue_ok st \<Longrightarrow> queue_ok q'" using q pop_ok by (simp add: dispatch_queue_ok_def)
  show ?thesis
  proof (cases r)
    case None
    then have "st' = st\<lparr>tc_dispatch_queue := Some q', tc_active_workers := tc_active_workers st - 1\<rparr>"
      using assms q by (simp add: worker_iteration_def split: if_splits)
    then show ?thesis using pq ok by (auto intro!: quiet_keeps_all simp: dispatch_queue_ok_def)
  next
    case (Some m)
    let ?st = "st\<lparr>tc_dispatch_queue := Some q'\<rparr>"
    from Some have st': "st' = process_message n m ?st"
      using assms q by (simp add: worker_iteration_def split: if_splits)
    have "quiet st ?st" by (simp add: quiet_def)
    then have "quiet st st'" unfolding st' using process_message_quiet(1) by (rule quiet_trans)
    then show ?thesis using ok unfolding st'
      by (auto intro!: quiet_keeps_all simp: dispatch_queue_ok_def process_message_quiet(2))
  qed
qed

lemma set_session_keeps:
  assumes "tc_contexts st a = Some c"
  shows "keeps st (set_context a (c\<lparr>pc_session := s\<rparr>) st)"
  by (rule set_context_keeps [OF assms]) (use assms in \<open>auto simp: framers_ok_def\<close>)

lemma deliver_quiet:
  "quiet st (snd (transport_send t p bs (log_sent env c ty bs' tx st)))"
  "tc_dispatch_queue (snd (transport_send t p bs (log_sent env c ty bs' tx st))) = tc_dispatch_queue st"
  by (rule quiet_trans [OF quiet_effects(7) quiet_effects(8)]) simp

lemma send_impl_keeps: "keeps st (snd (send_impl env p t x st))"
proof -
  have "keeps st (snd (transport_send t' p bs (log_sent env c' ty bs' tx (set_context a (c\<lparr>pc_session := s\<rparr>) st))))"
    if "tc_contexts st a = Some c" for t' bs c' ty bs' tx a c s
    using keeps_then [OF set_session_keeps [OF that] deliver_quiet] .
  then show ?thesis unfolding send_impl_def Let_def case_prod_beta
    by (auto simp: set_session_keeps split: option.split sum.split)
qed

lemma send_batch_impl_keeps: "keeps st (snd (send_batch_impl env p t xs st))"
proof -
  have "keeps st (snd (transport_send t' p bs (log_sent env c' ty bs' tx (set_context a (c\<lparr>pc_session := s\<rparr>) st))))"
    if "tc_contexts st a = Some c" for t' bs c' ty bs' tx a c s
    using keeps_then [OF set_session_keeps [OF that] deliver_quiet] .
  then show ?thesis unfolding send_batch_impl_def Let_def case_prod_beta
    by (auto simp: set_session_keeps split: option.split sum.split)
qed

lemma fold_quiet:
  assumes "\<And>x st. quiet st (g x st)" and "\<And>x st. tc_dispatch_queue (g x st) = tc_dispatch_queue st"
  shows "quiet st (fold g xs st)" "tc_dispatch_queue (fold g xs st) = tc_dispatch_queue st"
proof -
  show "quiet st (fold g xs st)"
  proof (induction xs arbitrary: st)
    case (Cons x xs)
    show ?case using quiet_trans [OF assms(1) Cons.IH] by simp
  qed simp
  show "tc_dispatch_queue (fold g xs st) = tc_dispatch_queue st"
    by (induction xs arbitrary: st) (simp_all add: assms(2))
qed

lemma enqueue_all_quiet:
  assumes "enqueue_all p ms st = Some st'"
  shows "quiet st st' \<and> (dispatch_queue_ok st \<longrightarrow> dispatch_queue_ok st')"
  using assms
proof (induction p ms st rule: enqueue_all.induct)
  case (2 p m ms st)
  from "2.prems" obtain q ok q' where q: "tc_dispatch_queue st = Some q" "push m q = Some (ok, q')"
    by (auto split: option.splits)
  define st1 where "st1 = st\<lparr>tc_dispatch_queue := Some q'\<rparr>"
  define st2 where "st2 = (if ok then st1 else fire_error p (queue_drop_error (dm_type_id (im_decoded m)))
     (st1\<lparr>tc_stats := (tc_stats st1)\<lparr>ts_messages_dropped := ts_messages_dropped (tc_stats st1) + 1\<rparr>\<rparr>))"
  have "quiet st st1" by (simp add: quiet_def st1_def)
  moreover have "quiet st1 st2" unfolding st2_def
    by (simp, rule impI, rule quiet_trans [OF _ quiet_effects(2)], simp add: quiet_def)
  ultimately have "quiet st st2" by (rule quiet_trans)
  moreover have "dispatch_queue_ok st \<longrightarrow> dispatch_queue_ok st2"
    using q push_ok by (auto simp: dispatch_queue_ok_def st2_def st1_def)
  moreover have "enqueue_all p ms st2 = Some st'" using "2.prems" q
    by (cases ok) (simp_all add: st2_def st1_def Let_def)
  moreover have "quiet st2 st' \<and> (dispatch_queue_ok st2 \<longrightarrow> dispatch_queue_ok st')"
    using "2.IH" [OF q(1) q(2) refl st1_def] calculation(3) unfolding st2_def by simp
  ultimately show ?case using quiet_trans by blast
qed simp

lemma decode_data_context:
  assumes "decode_data env st p c data = (c', w)"
  shows "pc_id c' = pc_id c" and "pred_option framer_ok (pc_framer c) \<Longrightarrow> pred_option framer_ok (pc_framer c')"
proof -
  have "framer_ok f \<Longrightarrow> push_data ses data f = (r, f') \<Longrightarrow> framer_ok f'" for ses f r f'
    using push_data_ok [of f ses data] by simp
  then show "pc_id c' = pc_id c" and "pred_option framer_ok (pc_framer c) \<Longrightarrow> pred_option framer_ok (pc_framer c')"
    using assms by (auto simp: decode_data_def Let_def framer_reset_ok split: option.splits sum.splits prod.splits)
qed

lemma handle_data_received_keeps:
  assumes "handle_data_received env p data st = Some st'"
  shows "keeps st st'"
proof -
  define st1 where "st1 = st\<lparr>tc_stats := (tc_stats st)\<lparr>ts_bytes_received := ts_bytes_received (tc_stats st) + of_nat (length data)\<rparr>\<rparr>"
  have q1: "quiet st st1" "tc_dispatch_queue st1 = tc_dispatch_queue st" by (simp_all add: quiet_def st1_def)
  have k1: "keeps st st1" using q1 by (rule keeps_same_queue)
  consider "st' = st1" | a c c' w st2 where "tc_contexts st1 a = Some c" "decode_data env st1 p c data = (c', w)"
      "enqueue_all p (rw_enqueue w) (fold (log_message env log_recv) (rw_logs w)
        (fold fire_error_event (rw_errors w) ((set_context a c' st1)\<lparr>tc_stats := rw_stats w\<rparr>))) = Some st2"
      "st' = back_pressure p st2"
    using assms unfolding handle_data_received_def st1_def [symmetric] Let_def
    by (auto split: option.splits prod.splits)
  then show ?thesis
  proof cases
    case 1
    then show ?thesis using k1 by simp
  next
    case (2 a c c' w st2)
    note ctx = decode_data_context [OF 2(2)]
    have k2: "keeps st1 (set_context a c' st1)"
    proof (rule set_context_keeps [OF 2(1) ctx(1)])
      fix f assume "framers_ok st1" "pc_framer c' = Some f"
      then show "framer_ok f" using ctx(2) 2(1) by (cases "pc_framer c") (auto simp: framers_ok_def)
    qed
    define st3 where "st3 = (set_context a c' st1)\<lparr>tc_stats := rw_stats w\<rparr>"
    define st4 where "st4 = fold (log_message env log_recv) (rw_logs w) (fold fire_error_event (rw_errors w) st3)"
    have "keeps st1 st3" unfolding st3_def by (rule keeps_then [OF k2]) (simp_all add: quiet_def)
    moreover have "quiet st3 st4" unfolding st4_def
      by (rule quiet_trans [OF fold_quiet(1) fold_quiet(1)]) (simp_all add: quiet_effects)
    moreover have "tc_dispatch_queue st4 = tc_dispatch_queue st3"
      unfolding st4_def by (simp add: fold_quiet(2) quiet_effects)
    ultimately have "keeps st1 st4" by (rule keeps_then)
    moreover have "enqueue_all p (rw_enqueue w) st4 = Some st2" using 2(3) by (simp add: st4_def st3_def)
    then have "quiet st4 st2" "dispatch_queue_ok st4 \<Longrightarrow> dispatch_queue_ok st2"
      using enqueue_all_quiet by blast+
    ultimately have "keeps st1 st2" by (rule keeps_quiet)
    then have "keeps st1 st'" unfolding 2(4) by (rule keeps_then) (simp_all add: quiet_effects)
    with q1(1) show ?thesis by (intro quiet_then_keeps [of st st1]) (simp_all add: dispatch_queue_ok_def q1(2))
  qed
qed

lemma handle_state_changed_steady: "steady st (handle_state_changed env p s st)"
proof -
  have "steady st (set_context a (d\<lparr>pc_state := s\<rparr>) st)"
    if "tc_contexts st a = Some c" and
      "d = (if s = Connected then c\<lparr>pc_session := si_reset (en_session env) (pc_session c),
                                    pc_framer := map_option framer_reset (pc_framer c)\<rparr> else c)" for a c d
    by (rule set_context_steady [OF that(1)])
      (use that in \<open>auto simp: framers_ok_def framer_reset_ok split: if_splits\<close>)
  then have "steady st (run_state_callbacks p s (set_context a (d\<lparr>pc_state := s\<rparr>) st))"
    if "tc_contexts st a = Some c" and
      "d = (if s = Connected then c\<lparr>pc_session := si_reset (en_session env) (pc_session c),
                                    pc_framer := map_option framer_reset (pc_framer c)\<rparr> else c)" for a c d
    by (rule steady_then [OF _ quiet_effects(3)]) (use that in simp_all)
  moreover have "steady st (run_state_callbacks p s st)"
    by (rule steady_then [OF _ quiet_effects(3)]) (simp_all add: steady_def)
  ultimately show ?thesis unfolding handle_state_changed_def Let_def
    by (cases "find_peer st p"; cases "tc_contexts st (the (find_peer st p))") (simp_all split: option.split)
qed

lemma context_with_Some:
  "context_with P cs as = Some (a, c) \<Longrightarrow> cs a = Some c \<and> P c \<and> a \<in> set as"
  by (induction P cs as rule: context_with.induct) (auto split: option.splits if_splits)

lemma bump_quiet:
  "quiet st (st\<lparr>tc_world := w\<rparr>)" "quiet st (st\<lparr>tc_world := w, tc_multi_peer_entries := es\<rparr>)"
  by (simp_all add: quiet_def)

lemma handle_peer_connected_keeps: "keeps st (snd (handle_peer_connected env t ep st))"
proof -
  define st1 where "st1 = snd (next_peer_id st)"
  have set: "keeps st (set_context a (c\<lparr>pc_remote_endpoint := ep\<rparr>) st)" if "tc_contexts st a = Some c" for a c
    by (rule set_context_keeps [OF that]) (use that in \<open>auto simp: framers_ok_def\<close>)
  have fail: "keeps st (fire_error_event ev (st1\<lparr>tc_world := w\<rparr>))" for ev w
    using quiet_trans [OF quiet_trans [OF quiet_effects(16) bump_quiet(1)] quiet_effects(1)]
    unfolding st1_def by (rule keeps_same_queue) simp
  have new: "keeps st (handle_state_changed env (fst (next_peer_id st)) Connected
      ((add_context c (st1\<lparr>tc_world := w, tc_multi_peer_entries := es\<rparr>))\<lparr>tc_name_to_peer := ns\<rparr>))"
    if "pc_id c = fst (next_peer_id st)" and "pred_option framer_ok (pc_framer c)" for c w es ns
  proof (rule keeps_steady [OF _ handle_state_changed_steady], rule keeps_then [OF admit_keeps [OF that]])
    show "quiet (snd (next_peer_id st)) (st1\<lparr>tc_world := w, tc_multi_peer_entries := es\<rparr>)"
      unfolding st1_def by (rule bump_quiet(2))
  qed (simp_all add: st1_def quiet_def)
  show ?thesis unfolding handle_peer_connected_def Let_def case_prod_beta st1_def [symmetric]
    using set fail
    by (auto simp: new st1_def [symmetric] dest: context_with_Some split: option.split)
qed

lemma erase_context_steady:
  assumes "tc_contexts st a = Some c"
  shows "steady st (st\<lparr>tc_name_to_peer := ns, tc_peer_map := (tc_peer_map st)(peer_value (pc_id c) := None),
    tc_peers := remove1 a (tc_peers st), tc_contexts := (tc_contexts st)(a := None), tc_handlers := h\<rparr>)"
    (is "steady st ?st")
proof -
  have "peers_ok ?st" if ok: "peers_ok st"
  proof (rule peers_okI)
    show "set (tc_peers ?st) = dom (tc_contexts ?st)" using peers_okD(1,2) [OF ok] by (simp add: set_remove1_eq)
    show "distinct (tc_peers ?st)" using peers_okD(2) [OF ok] by simp
    show "x < tc_next_context ?st" if "tc_contexts ?st x = Some d" for x d
      using that peers_okD(3) [OF ok] by (simp split: if_splits)
    show "\<exists>d. tc_contexts ?st x = Some d \<and> peer_value (pc_id d) = i" if "tc_peer_map ?st i = Some x" for i x
      using that peers_okD(4) [OF ok, of i x] assms by (auto split: if_splits)
  qed
  moreover have "ids_ok ?st" if ok: "ids_ok st"
  proof (rule ids_okI)
    show "tc_peer_map ?st 0 = None" using ok by (simp add: ids_ok_def)
    fix x d assume "tc_contexts ?st x = Some d"
    then show "tc_peer_map ?st (peer_value (pc_id d)) = Some x"
      using ids_okD [OF ok, of x d] ids_okD [OF ok assms] by (auto split: if_splits)
  qed
  moreover have "framers_ok ?st" if "framers_ok st"
  proof -
    have "framer_ok f" if "((tc_contexts st)(a := None)) x = Some d" and "pc_framer d = Some f" for x d f
      using that \<open>framers_ok st\<close> unfolding framers_ok_def by (metis fun_upd_apply option.distinct(1))
    then show ?thesis unfolding framers_ok_def by simp
  qed
  ultimately show ?thesis by (simp add: steady_def tc_ok_def dispatch_queue_ok_def)
qed

lemma handle_peer_disconnected_keeps: "keeps st (handle_peer_disconnected p st)"
proof -
  define st1 where "st1 = (case find_peer st p of
      None \<Rightarrow> st
    | Some a \<Rightarrow> (case tc_contexts st a of
                 None \<Rightarrow> st
               | Some c \<Rightarrow> set_context a (c\<lparr>pc_state := Disconnected\<rparr>) st))"
  have "keeps st (set_context a (c\<lparr>pc_state := Disconnected\<rparr>) st)" if "tc_contexts st a = Some c" for a c
    by (rule set_context_keeps [OF that]) (use that in \<open>auto simp: framers_ok_def\<close>)
  then have k1: "keeps st st1" unfolding st1_def by (simp split: option.split)
  have "steady st1 (st1\<lparr>tc_name_to_peer := erase_peer_name p (tc_name_to_peer st1),
      tc_peer_map := (tc_peer_map st1)(peer_value p := None), tc_peers := remove1 a (tc_peers st1),
      tc_contexts := (tc_contexts st1)(a := None), tc_handlers := remove_peer p (tc_handlers st1)\<rparr>)"
    if "tc_contexts st1 a = Some c" and "pc_id c = p" for a c
    using erase_context_steady [OF that(1)] that(2) by simp
  then have "steady st1 (case context_with (\<lambda>c. pc_id c = p) (tc_contexts st1) (tc_peers st1) of
      None \<Rightarrow> st1
    | Some (a, c) \<Rightarrow>
        (case find_multi_peer_entry (pc_transport c) st1 of
           None \<Rightarrow> st1
         | Some e \<Rightarrow> st1\<lparr>tc_name_to_peer := erase_peer_name p (tc_name_to_peer st1),
             tc_peer_map := (tc_peer_map st1)(peer_value p := None), tc_peers := remove1 a (tc_peers st1),
             tc_contexts := (tc_contexts st1)(a := None), tc_handlers := remove_peer p (tc_handlers st1)\<rparr>))"
    by (auto dest: context_with_Some simp: steady_def split: option.split)
  from keeps_then [OF keeps_steady [OF k1 this] quiet_effects(3)]
  show ?thesis unfolding handle_peer_disconnected_def st1_def [symmetric] Let_def by simp
qed

section \<open>Every event\<close>

lemma passthrough_keep:
  "keeps st (log_recv_message env p n k tx raw st)" "keeps st (log_send_message env p n k tx raw st)"
  by (rule keeps_same_queue [OF quiet_effects(5)], simp) (rule keeps_same_queue [OF quiet_effects(6)], simp)

lemma bookkeeping_keep:
  "keeps st (st\<lparr>tc_objects := os\<rparr>)" "keeps st (st\<lparr>tc_handlers := h\<rparr>)" "keeps st (st\<lparr>tc_stats := ss\<rparr>)"
  by (rule keeps_same_queue; simp add: quiet_def)+

lemmas events_keep = settings_keep passthrough_keep bookkeeping_keep add_peer_session_keeps
  add_peer_factory_keeps stop_keeps start_keeps send_impl_keeps send_batch_impl_keeps
  handle_peer_connected_keeps handle_peer_disconnected_keeps steady_keeps [OF handle_state_changed_steady]

lemma perform_keeps:
  assumes "perform env e st = Some st'"
  shows "keeps st st'"
proof (cases e)
  case (Data p data)
  then show ?thesis using assms by (simp add: handle_data_received_keeps)
next
  case (Worker_works n)
  then show ?thesis using assms by (simp add: worker_iteration_keeps)
next
  case Worker_enters
  then show ?thesis using assms by (simp add: worker_enter_keeps)
next
  case (Join b)
  then show ?thesis using assms by (simp add: join_keeps)
qed (use assms in \<open>auto simp: events_keep split: if_splits\<close>)

end
