(* ===== verification/Transceiver_Runs.thy ===== *)
theory Transceiver_Runs
  imports Transceiver_Safety
begin

text \<open>
  What a run of the transceiver does, from its construction on: the invariant of \<open>Transceiver_Safety\<close>
  holds initially and so for ever; bytes that arrive in any chunks reach the dispatch queue as the messages
  they encode; stopping drains the queue in bounded time; a disconnected peer is forgotten.
\<close>

section \<open>Construction\<close>

lemma empty_ok: "tc_ok (empty_transceiver config w)" "ids_ok (empty_transceiver config w)"
  by (simp_all add: tc_ok_def ids_ok_def peers_ok_def framers_ok_def dispatch_queue_ok_def empty_transceiver_def)

lemma make_transport_keeps: "keeps st (snd (make_transport env c st))"
  by (simp add: make_transport_def bookkeeping_keep)

lemma world_keeps: "keeps st (st\<lparr>tc_world := w\<rparr>)"
  by (rule keeps_same_queue) (simp_all add: quiet_def)

lemma peers_grow:
  "length (tc_peers (snd (make_transport env c st))) = length (tc_peers st)"
  "length (tc_peers (snd (add_peer_factory name f t st))) = length (tc_peers st)"
  "length (tc_peers (snd (add_peer_session name s t st))) \<le> Suc (length (tc_peers st))"
  by (auto simp: make_transport_def add_peer_factory_def add_peer_session_def add_context_def
      track_transport_def Let_def case_prod_beta split: option.split)

lemma materialize_ok:
  assumes "materialize_config_peers env cs st = (r, st')" and "tc_ok st"
  shows "tc_ok st'" "ids_ok st \<Longrightarrow> length (tc_peers st) + length cs \<le> 255 \<Longrightarrow> ids_ok st'"
proof -
  have "tc_ok st' \<and> (ids_ok st \<longrightarrow> length (tc_peers st) + length cs \<le> 255 \<longrightarrow> ids_ok st')"
    using assms
  proof (induction cs arbitrary: st)
    case (Cons c cs)
    define t st1 where "t = fst (make_transport env (pcfg_transport c) st)"
      and "st1 = snd (make_transport env (pcfg_transport c) st)"
    define stf where "stf f = snd (add_peer_factory (pcfg_name c) f (Some t) st1)" for f
    define stw where "stw w = st1\<lparr>tc_world := w\<rparr>" for w
    define sts where "sts s w = snd (add_peer_session (pcfg_name c) s (Some t) (stw w))" for s w
    have k: "keeps st st1" "\<And>f. keeps st1 (stf f)" "\<And>w. keeps st1 (stw w)" "\<And>s w. keeps (stw w) (sts s w)"
      unfolding st1_def stf_def stw_def sts_def
      by (rule make_transport_keeps add_peer_factory_keeps world_keeps add_peer_session_keeps)+
    have len1: "length (tc_peers st1) = length (tc_peers st)" unfolding st1_def by (rule peers_grow(1))
    have lenf: "length (tc_peers (stf f)) = length (tc_peers st)" for f unfolding stf_def peers_grow(2) by (rule len1)
    have lens: "length (tc_peers (sts s w)) \<le> Suc (length (tc_peers st))" for s w
      using peers_grow(3) [of "pcfg_name c" s "Some t" "stw w"] len1 unfolding sts_def by (simp add: stw_def)
    have mt: "make_transport env (pcfg_transport c) st = (t, st1)" by (simp add: t_def st1_def)
    have af: "add_peer_factory (pcfg_name c) f (Some t) st1 = (rf, st2) \<Longrightarrow> st2 = stf f" for f rf st2
      by (simp add: stf_def)
    have as: "add_peer_session (pcfg_name c) s (Some t) (st1\<lparr>tc_world := w\<rparr>) = (rs, st2) \<Longrightarrow> st2 = sts s w" for s w rs st2
      by (simp add: sts_def stw_def)
    have "st' = st1 \<or> (\<exists>f. st' = stf f \<or> materialize_config_peers env cs (stf f) = (r, st')) \<or> (\<exists>s w. st' = stw w \<or> st' = sts s w \<or>
        materialize_config_peers env cs (sts s w) = (r, st'))"
      using Cons.prems(1) unfolding materialize_config_peers.simps mt
      by (auto simp: Let_def dest!: af as split: option.splits sum.splits prod.splits if_splits)
        (auto simp: stw_def)
    then consider "st' = st1" | f where "st' = stf f" | w where "st' = stw w" | s w where "st' = sts s w"
      | s w where "materialize_config_peers env cs (sts s w) = (r, st')" | f where "materialize_config_peers env cs (stf f) = (r, st')"
      by blast
    then show ?case
    proof cases
      case 5
      have "tc_ok (sts s w)" "ids_ok st \<Longrightarrow> length (tc_peers st) < 255 \<Longrightarrow> ids_ok (sts s w)"
        using k Cons.prems(2) len1 by (auto simp: keeps_def stw_def)
      then show ?thesis using Cons.IH [OF 5] lens [of s w] by auto
    next
      case 6
      have "tc_ok (stf f)" "ids_ok st \<Longrightarrow> length (tc_peers st) < 255 \<Longrightarrow> ids_ok (stf f)"
        using k Cons.prems(2) len1 by (auto simp: keeps_def)
      then show ?thesis using Cons.IH [OF 6] lenf [of f] by auto
    qed (use k Cons.prems(2) len1 in \<open>auto simp: keeps_def stw_def\<close>)
  qed simp
  then show "tc_ok st'" "ids_ok st \<Longrightarrow> length (tc_peers st) + length cs \<le> 255 \<Longrightarrow> ids_ok st'" by auto
qed

lemma constructed_ok:
  assumes "mk_transceiver env config w = Inr st0"
  shows "tc_ok st0" "length (tcf_peers config) \<le> 255 \<Longrightarrow> ids_ok st0"
proof -
  obtain u where m: "materialize_config_peers env (tcf_peers config) (empty_transceiver config w) = (Inr (Inr u), st0)"
    using assms by (auto simp: mk_transceiver_def split: prod.splits sum.splits)
  show "tc_ok st0" using materialize_ok(1) [OF m empty_ok(1)] .
  have "tc_peers (empty_transceiver config w :: ('a, 'b, 'c) Transceiver) = []" by (simp add: empty_transceiver_def)
  then show "length (tcf_peers config) \<le> 255 \<Longrightarrow> ids_ok st0"
    using materialize_ok(2) [OF m empty_ok(1) empty_ok(2)] by simp
qed

lemma reach_ok:
  assumes "reach env bound st0 st" and "tc_ok st0"
  shows "tc_ok st" "bound \<le> 255 \<Longrightarrow> ids_ok st0 \<Longrightarrow> ids_ok st"
proof -
  have "tc_ok st \<and> (bound \<le> 255 \<longrightarrow> ids_ok st0 \<longrightarrow> ids_ok st)"
    using assms
  proof (induction rule: reach.induct)
    case (reach_step st e st')
    then show ?case using perform_keeps [OF reach_step.hyps(3)] by (auto simp: keeps_def)
  qed simp
  then show "tc_ok st" "bound \<le> 255 \<Longrightarrow> ids_ok st0 \<Longrightarrow> ids_ok st" by auto
qed

section \<open>A small instance\<close>

text \<open>
  One message type with a payload of one byte, framed as \<open>AA 55 04\<close> and the payload; the world is the list
  of byte strings handed to a transport.
\<close>

definition tiny_session :: "(nat, u8) ISession" where
  "tiny_session =
     \<lparr>si_decode_frame = (\<lambda>f s. (Inr [\<lparr>dm_type_id = 1, dm_type_name = ''M'', dm_payload = f ! 3, dm_raw = f\<rparr>], Suc s)),
      si_encode_wrap = (\<lambda>t x s. (Inr \<lparr>er_bytes = [0xAA, 0x55, 4, x], er_auto_fields = []\<rparr>, Suc s)),
      si_framing = (\<lambda>s. example_session), si_type_name = (\<lambda>s t. ''M''), si_encode_batch = default_encode_batch,
      si_is_receive_only = (\<lambda>s t. t = 9), si_reset = (\<lambda>s. 0), si_format_message = (\<lambda>s t x. ''m''),
      si_format_outbound = default_format_outbound (\<lambda>s t x. ''m''), si_protocol_name = (\<lambda>s. ''tiny''),
      si_defers_message_logging = (\<lambda>s. False)\<rparr>"

definition tiny_transport :: "bool \<Rightarrow> bytes list ITransport" where
  "tiny_transport many =
     \<lparr>tr_is_stream_oriented = True, tr_is_multi_peer = many, tr_transport_type = ''tiny'',
      tr_start = (\<lambda>w. (Inr (), w)), tr_stop = (\<lambda>w. w), tr_send = (\<lambda>p bs w. (Inr (), w @ [bs])),
      tr_pause = (\<lambda>w. w), tr_resume = (\<lambda>w. w)\<rparr>"

definition tiny_env :: "(nat, u8, bytes list) environment" where
  "tiny_env =
     \<lparr>en_session = tiny_session, en_no_payload = 0, en_raw_payload = hd,
      en_transport_io = (\<lambda>c. \<lparr>tio_start = (\<lambda>w. (Inr (), w)), tio_stop = (\<lambda>w. w), tio_send = (\<lambda>p bs w. (Inr (), w @ [bs]))\<rparr>),
      en_can_open = (\<lambda>f. True), en_timestamp = (\<lambda>n. []), en_format_double = (\<lambda>x. [])\<rparr>"

definition tiny_config :: "(nat, bytes list) TransceiverConfig" where
  "tiny_config =
     \<lparr>tcf_rx_queue = \<lparr>qc_capacity = 2, qc_drop_policy = DropOldest, qc_back_pressure_threshold = Some 0\<rparr>,
      tcf_worker = \<lparr>wc_thread_count = 1, wc_handler_timeout = 0\<rparr>, tcf_peers = [], tcf_shutdown_timeout = 0,
      tcf_message_log = default_log_config\<rparr>"

text \<open>The events a run performs, from a freshly constructed transceiver.\<close>

fun performs ::
  "('s, 'p, 'w) environment \<Rightarrow> ('s, 'p, 'w) event list \<Rightarrow> ('s, 'p, 'w) Transceiver \<Rightarrow> ('s, 'p, 'w) Transceiver option" where
  "performs env [] st = Some st"
| "performs env (e # es) st =
     (if length (tc_peers st) < 255 then case perform env e st of None \<Rightarrow> None | Some st \<Rightarrow> performs env es st else None)"

lemma performs_reach:
  assumes "reach env 255 st0 st" and "performs env es st = Some st'"
  shows "reach env 255 st0 st'"
  using assms
  by (induction es arbitrary: st) (auto split: if_splits option.splits dest: reach_step)

definition tiny_start :: "(nat, u8, bytes list) Transceiver" where
  "tiny_start = empty_transceiver tiny_config []"

lemma tiny_constructed: "mk_transceiver tiny_env tiny_config [] = Inr tiny_start"
  by (simp add: mk_transceiver_def tiny_start_def tiny_config_def)

lemmas tiny_defs = tiny_env_def tiny_session_def tiny_transport_def tiny_config_def example_session_def

definition tiny_ready :: "(nat, u8, bytes list) Transceiver" where
  "tiny_ready = snd (start tiny_env (snd (add_peer_session ''a'' (Some 0) (Some 0)
     (tiny_start\<lparr>tc_objects := [tiny_transport False]\<rparr>))))"

lemma tiny_ready_reached: "reach tiny_env 255 tiny_start tiny_ready"
proof (rule performs_reach [OF reach_init])
  show "performs tiny_env [New_transport (tiny_transport False), Add_session ''a'' (Some 0) 0, Start] tiny_start = Some tiny_ready"
    by (simp add: tiny_start_def empty_transceiver_def add_peer_session_def next_peer_id_def Let_def
        tiny_ready_def tiny_transport_def eval_nat_numeral add_context_def track_transport_def)
qed

lemma tiny_ready_eq:
  "tc_contexts tiny_ready = [0 \<mapsto> \<lparr>pc_id = PeerId 1, pc_name = ''a'', pc_remote_endpoint = [], pc_session = 0,
     pc_framer = Some (mk_framer default_max_buffer_size), pc_transport = 0, pc_state = Disconnected\<rparr>]"
  "tc_peer_map tiny_ready = [1 \<mapsto> 0]" "tc_running tiny_ready" "tc_peers tiny_ready = [0]"
  "tc_dispatch_queue tiny_ready = Some (mk_queue (blank_message tiny_env) 2 DropOldest)"
  "tc_pending_workers tiny_ready = 1" "tc_active_workers tiny_ready = 0" "tc_objects tiny_ready = [tiny_transport False]"
  by (simp_all add: tiny_start_def empty_transceiver_def add_peer_session_def next_peer_id_def Let_def
        tiny_ready_def tiny_defs eval_nat_numeral add_context_def track_transport_def start_def threshold_ok_def)

definition tiny_server :: "(nat, u8, bytes list) Transceiver" where
  "tiny_server = snd (handle_peer_connected tiny_env 0 ''x'' (snd (start tiny_env (snd (add_peer_factory ''s''
     (Some (\<lambda>w. (Some 0, w))) (Some 0) (tiny_start\<lparr>tc_objects := [tiny_transport True]\<rparr>))))))"

lemmas tiny_server_defs = tiny_server_def tiny_start_def empty_transceiver_def add_peer_factory_def next_peer_id_def Let_def
  tiny_transport_def eval_nat_numeral track_transport_def

lemma tiny_server_reached: "reach tiny_env 255 tiny_start tiny_server"
proof (rule performs_reach [OF reach_init])
  show "performs tiny_env [New_transport (tiny_transport True), Add_factory ''s'' (Some (\<lambda>w. (Some 0, w))) 0, Start,
      Peer_connects 0 ''x''] tiny_start = Some tiny_server"
    by (simp add: tiny_server_defs start_def threshold_ok_def tiny_config_def)
qed

lemma tiny_server_eq:
  "tc_contexts tiny_server = [0 \<mapsto> \<lparr>pc_id = PeerId 2, pc_name = ''s/'' @ to_string 1, pc_remote_endpoint = ''x'', pc_session = 0,
     pc_framer = Some (mk_framer default_max_buffer_size), pc_transport = 0, pc_state = Connected\<rparr>]"
  "\<exists>e. find_multi_peer_entry 0 tiny_server = Some e" "tc_running tiny_server"
  by (simp_all add: tiny_server_defs tiny_defs start_def threshold_ok_def handle_peer_connected_def find_multi_peer_entry_def
      add_context_def handle_state_changed_def find_peer_def set_context_def run_state_callbacks_def framer_reset_def
      mk_framer_def)

section \<open>Draining\<close>

text \<open>
  What can still happen once the queue is closed: workers enter their loop and take messages, and transports
  deliver late data.  A run is described by the number of worker steps and the messages they took.
\<close>

definition taken_message :: "('s, 'p, 'w) Transceiver \<Rightarrow> 'p InboundMessage list" where
  "taken_message st =
     (case tc_dispatch_queue st of
        None \<Rightarrow> []
      | Some q \<Rightarrow> (case pop q of Some (Some m, q') \<Rightarrow> [m] | _ \<Rightarrow> []))"

inductive drain ::
  "('s, 'p, 'w) environment \<Rightarrow> ('s, 'p, 'w) Transceiver \<Rightarrow> nat \<Rightarrow> 'p InboundMessage list \<Rightarrow> ('s, 'p, 'w) Transceiver \<Rightarrow> bool"
  for env :: "('s, 'p, 'w) environment" and st :: "('s, 'p, 'w) Transceiver" where
  drain_none: "drain env st 0 [] st"
| drain_enter: "drain env st n ms st' \<Longrightarrow> worker_enter st' = Some st'' \<Longrightarrow> drain env st (Suc n) ms st''"
| drain_work: "drain env st n ms st' \<Longrightarrow> worker_iteration k st' = Some st'' \<Longrightarrow>
    drain env st (Suc n) (ms @ taken_message st') st''"
| drain_data: "drain env st n ms st' \<Longrightarrow> handle_data_received env p d st' = Some st'' \<Longrightarrow> drain env st n ms st''"

definition same_workers :: "('s, 'p, 'w) Transceiver \<Rightarrow> ('s, 'p, 'w) Transceiver \<Rightarrow> bool" where
  "same_workers st st' \<longleftrightarrow> tc_pending_workers st' = tc_pending_workers st \<and> tc_active_workers st' = tc_active_workers st"

lemma same_workers_refl [simp]: "same_workers st st"
  by (simp add: same_workers_def)

lemma same_workers_trans: "same_workers st st' \<Longrightarrow> same_workers st' st'' \<Longrightarrow> same_workers st st''"
  by (simp add: same_workers_def)

lemma same_workers_effects:
  "same_workers st (fire_error_event ev st)" "same_workers st (fire_error p e st)"
  "same_workers st (log_message env wr r st)" "same_workers st (back_pressure p st)"
  "same_workers st (resume_transports st)" "same_workers st (set_context a c st)"
  by (auto simp: same_workers_def fire_error_event_def fire_error_def log_message_def back_pressure_def
      resume_transports_def set_context_def Let_def split: option.splits prod.splits)

lemma same_workers_results:
  "same_workers st (check_timeout p ty k st)" "same_workers st (count_result p ty res st)"
  by (auto simp: same_workers_def check_timeout_def count_result_def fire_error_def fire_error_event_def Let_def
      case_prod_beta split: DispatchResult.split)

lemma same_workers_process: "same_workers st (process_message k m st)"
proof -
  have w: "same_workers st (st\<lparr>tc_world := w\<rparr>)" for w by (simp add: same_workers_def)
  show ?thesis unfolding process_message_def Let_def case_prod_beta
    by (rule same_workers_trans [OF same_workers_trans [OF same_workers_trans
        [OF w same_workers_results(1)] same_workers_results(2)] same_workers_effects(5)])
qed

lemma same_workers_fold:
  assumes "\<And>x st. same_workers st (g x st)"
  shows "same_workers st (fold g xs st)"
proof (induction xs arbitrary: st)
  case (Cons x xs)
  show ?case using same_workers_trans [OF assms Cons.IH] by simp
qed simp

text \<open>A closed queue refuses what it is offered.\<close>

lemma push_closed: "bq_closed q \<Longrightarrow> push x q = Some (False, q)"
  by (simp add: push_def)

lemma enqueue_all_closed:
  assumes "tc_dispatch_queue st = Some q" and "bq_closed q" and "enqueue_all p ms st = Some st'"
  shows "tc_dispatch_queue st' = Some q \<and> same_workers st st'"
  using assms
proof (induction ms arbitrary: st)
  case (Cons m ms)
  define st1 where "st1 = fire_error p (queue_drop_error (dm_type_id (im_decoded m)))
     (st\<lparr>tc_dispatch_queue := Some q,
       tc_stats := (tc_stats st)\<lparr>ts_messages_dropped := ts_messages_dropped (tc_stats st) + 1\<rparr>\<rparr>)"
  have "enqueue_all p ms st1 = Some st'" using Cons.prems by (simp add: push_closed Let_def st1_def)
  moreover have "tc_dispatch_queue st1 = Some q" by (simp add: st1_def)
  moreover have "same_workers st st1" unfolding st1_def
    by (rule same_workers_trans [OF _ same_workers_effects(2)]) (simp add: same_workers_def)
  ultimately show ?case using Cons.IH Cons.prems(2) same_workers_trans by blast
qed simp

text \<open>The steps of \<open>handle_data_received\<close> before the first message is queued.\<close>

definition count_bytes :: "bytes \<Rightarrow> ('s, 'p, 'w) Transceiver \<Rightarrow> ('s, 'p, 'w) Transceiver" where
  "count_bytes d st =
     st\<lparr>tc_stats := (tc_stats st)\<lparr>ts_bytes_received := ts_bytes_received (tc_stats st) + of_nat (length d)\<rparr>\<rparr>"

definition noted ::
  "('s, 'p, 'w) environment \<Rightarrow> nat \<Rightarrow> 's PeerContext \<Rightarrow> ('s, 'p) recv_work \<Rightarrow> ('s, 'p, 'w) Transceiver \<Rightarrow> ('s, 'p, 'w) Transceiver" where
  "noted env a c w st = fold (log_message env log_recv) (rw_logs w)
     (fold fire_error_event (rw_errors w) ((set_context a c st)\<lparr>tc_stats := rw_stats w\<rparr>))"

lemma handle_data_received_eq:
  "handle_data_received env p d st =
     (case find_peer st p of
        None \<Rightarrow> Some (count_bytes d st)
      | Some a \<Rightarrow>
          (case tc_contexts st a of
             None \<Rightarrow> Some (count_bytes d st)
           | Some c \<Rightarrow>
               (case decode_data env (count_bytes d st) p c d of
                  (c1, w) \<Rightarrow> map_option (back_pressure p)
                    (enqueue_all p (rw_enqueue w) (noted env a c1 w (count_bytes d st))))))"
proof -
  have "find_peer (count_bytes d st) p = find_peer st p" "tc_contexts (count_bytes d st) = tc_contexts st"
    by (simp_all add: count_bytes_def find_peer_def)
  then show ?thesis
    unfolding handle_data_received_def Let_def count_bytes_def [symmetric] noted_def by (simp split: option.split)
qed

lemma count_bytes_sel [simp]:
  "tc_dispatch_queue (count_bytes d st) = tc_dispatch_queue st" "tc_contexts (count_bytes d st) = tc_contexts st"
  "tc_peer_map (count_bytes d st) = tc_peer_map st" "same_workers st (count_bytes d st)"
  by (simp_all add: count_bytes_def same_workers_def)

lemma noted_sel [simp]:
  "tc_dispatch_queue (noted env a c w st) = tc_dispatch_queue st"
  "tc_contexts (noted env a c w st) = (tc_contexts st)(a \<mapsto> c)" "tc_peer_map (noted env a c w st) = tc_peer_map st"
  "same_workers st (noted env a c w st)"
proof -
  let ?s0 = "(set_context a c st)\<lparr>tc_stats := rw_stats w\<rparr>" and ?s1 = "fold fire_error_event (rw_errors w)"
  note e = fold_quiet [of fire_error_event, OF quiet_effects(1) queue_kept(1), where st = ?s0 and xs = "rw_errors w"]
    and l = fold_quiet [of "log_message env log_recv", OF quiet_effects(4) queue_kept(4), where st = "?s1 ?s0" and xs = "rw_logs w"]
  show "tc_dispatch_queue (noted env a c w st) = tc_dispatch_queue st" unfolding noted_def l(2) e(2) by simp
  have "quiet ?s0 (noted env a c w st)" unfolding noted_def using e(1) l(1) by (rule quiet_trans)
  then show "tc_contexts (noted env a c w st) = (tc_contexts st)(a \<mapsto> c)" "tc_peer_map (noted env a c w st) = tc_peer_map st"
    by (simp_all add: quiet_def set_context_def)
  have "same_workers st ?s0" by (simp add: same_workers_def set_context_def)
  then show "same_workers st (noted env a c w st)" unfolding noted_def
    by (rule same_workers_trans [OF same_workers_trans [OF _ same_workers_fold [OF same_workers_effects(1)]]
        same_workers_fold [OF same_workers_effects(3)]])
qed

lemma handle_data_received_closed:
  assumes "tc_dispatch_queue st = Some q" and "bq_closed q" and "handle_data_received env p d st = Some st'"
  shows "tc_dispatch_queue st' = Some q \<and> same_workers st st'"
proof -
  consider "st' = count_bytes d st" | a c w st1 where
      "enqueue_all p (rw_enqueue w) (noted env a c w (count_bytes d st)) = Some st1" "st' = back_pressure p st1"
    using assms(3) unfolding handle_data_received_eq by (auto split: option.splits prod.splits)
  then show ?thesis
  proof cases
    case 2
    have "tc_dispatch_queue st1 = Some q \<and> same_workers (noted env a c w (count_bytes d st)) st1"
      by (rule enqueue_all_closed [OF _ assms(2) 2(1)]) (simp add: assms(1))
    moreover have "same_workers st (noted env a c w (count_bytes d st))"
      by (rule same_workers_trans [OF count_bytes_sel(4) noted_sel(4)])
    ultimately have "tc_dispatch_queue st1 = Some q" "same_workers st st1" using same_workers_trans by blast+
    then show ?thesis unfolding 2(2) using same_workers_trans [OF _ same_workers_effects(4)] by simp
  qed (simp add: assms(1))
qed

text \<open>Every worker step uses up one unit of work; late data adds none.\<close>

definition work_left :: "('s, 'p, 'w) Transceiver \<Rightarrow> 'p InboundMessage BoundedQueue \<Rightarrow> nat" where
  "work_left st q = 2 * tc_pending_workers st + tc_active_workers st + bq_size q"

definition idle :: "('s, 'p, 'w) Transceiver \<Rightarrow> bool" where
  "idle st \<longleftrightarrow> tc_pending_workers st = 0 \<and> tc_active_workers st = 0"

lemma pop_closed:
  assumes "queue_ok q" and "bq_closed q"
  shows "\<exists>q'. queue_ok q' \<and> bq_closed q' \<and>
    pop q = Some (if contents q = [] then None else Some (hd (contents q)), q') \<and> contents q' = tl (contents q)"
proof -
  obtain r q' where p: "try_pop q = (r, q')" by fastforce
  then have "pop q = Some (r, q')" using assms(2) by (simp add: pop_eq_try_pop)
  then show ?thesis using try_pop_refines [OF assms(1) p] assms(2) by (cases r) auto
qed

lemma worker_enter_step:
  assumes "worker_enter st = Some st'" and "tc_dispatch_queue st = Some q"
  shows "tc_dispatch_queue st' = Some q" "Suc (work_left st' q) = work_left st q" "\<not> idle st" "\<not> idle st'"
  using assms by (auto simp: worker_enter_def work_left_def idle_def split: if_splits)

lemma worker_iteration_step:
  assumes "worker_iteration k st = Some st'" and "tc_dispatch_queue st = Some q" and "queue_ok q" and "bq_closed q"
  obtains q' where "tc_dispatch_queue st' = Some q'" "queue_ok q'" "bq_closed q'" "Suc (work_left st' q') = work_left st q"
    "contents q = taken_message st @ contents q'" "\<not> idle st" "idle st' \<Longrightarrow> contents q' = []"
proof -
  obtain q' where q': "queue_ok q'" "bq_closed q'" "contents q' = tl (contents q)"
    and p: "pop q = Some (if contents q = [] then None else Some (hd (contents q)), q')"
    using pop_closed [OF assms(3,4)] by blast
  have size: "bq_size q' = bq_size q - 1" using arg_cong [OF q'(3), of length] by simp
  have act: "tc_active_workers st > 0" using assms(1) by (simp add: worker_iteration_def split: if_splits)
  show ?thesis
  proof (cases "contents q = []")
    case True
    have st': "st' = st\<lparr>tc_dispatch_queue := Some q', tc_active_workers := tc_active_workers st - 1\<rparr>"
      using assms(1,2) p act True by (simp add: worker_iteration_def)
    have "bq_size q = 0" using True length_contents [of q] by simp
    then show ?thesis using that [of q'] q' size act True p assms(2)
      by (simp add: st' work_left_def idle_def taken_message_def)
  next
    case False
    have st': "st' = process_message k (hd (contents q)) (st\<lparr>tc_dispatch_queue := Some q'\<rparr>)"
      using assms(1,2) p act False by (simp add: worker_iteration_def)
    have w: "tc_pending_workers st' = tc_pending_workers st" "tc_active_workers st' = tc_active_workers st"
      using same_workers_process [of "st\<lparr>tc_dispatch_queue := Some q'\<rparr>" k "hd (contents q)"]
      by (simp_all add: st' same_workers_def)
    have dq: "tc_dispatch_queue st' = Some q'" by (simp add: st' process_message_quiet(2))
    have "bq_size q > 0" using False length_contents [of q] by (metis length_greater_0_conv)
    moreover have "contents q = taken_message st @ contents q'" using False p assms(2) q'(3) by (simp add: taken_message_def)
    ultimately show ?thesis using that [OF dq q'(1,2)] size act w by (simp add: work_left_def idle_def)
  qed
qed

lemma drain_step:
  assumes "drain env st n ms st'" and "tc_dispatch_queue st = Some q" and "queue_ok q" and "bq_closed q"
  shows "\<exists>q'. tc_dispatch_queue st' = Some q' \<and> queue_ok q' \<and> bq_closed q' \<and> n + work_left st' q' = work_left st q \<and>
    contents q = ms @ contents q' \<and> (\<not> idle st \<longrightarrow> idle st' \<longrightarrow> contents q' = []) \<and> (idle st \<longrightarrow> idle st')"
  using assms
proof (induction rule: drain.induct)
  case (drain_enter n ms st' st'')
  then show ?case using worker_enter_step [OF drain_enter.hyps(2)] by (metis add_Suc add_Suc_right)
next
  case (drain_work n ms st' k st'')
  from drain_work.IH [OF drain_work.prems] obtain q' where q': "tc_dispatch_queue st' = Some q'" "queue_ok q'" "bq_closed q'"
    "n + work_left st' q' = work_left st q" "contents q = ms @ contents q'" "idle st \<longrightarrow> idle st'" by blast
  from worker_iteration_step [OF drain_work.hyps(2) q'(1,2,3)] obtain q'' where
    "tc_dispatch_queue st'' = Some q''" "queue_ok q''" "bq_closed q''" "Suc (work_left st'' q'') = work_left st' q'"
    "contents q' = taken_message st' @ contents q''" "\<not> idle st'" "idle st'' \<Longrightarrow> contents q'' = []" by metis
  then show ?case using q'(4,5,6) by auto
next
  case (drain_data n ms st' p d st'')
  then obtain q' where q': "tc_dispatch_queue st' = Some q'" "queue_ok q'" "bq_closed q'" "n + work_left st' q' = work_left st q"
    "contents q = ms @ contents q'" "\<not> idle st \<longrightarrow> idle st' \<longrightarrow> contents q' = []" "idle st \<longrightarrow> idle st'" by blast
  have "tc_dispatch_queue st'' = Some q'" "same_workers st' st''"
    using handle_data_received_closed [OF q'(1,3) drain_data.hyps(2)] by simp_all
  then show ?case using q' by (auto simp: same_workers_def work_left_def idle_def)
qed auto

lemma worker_can_step:
  assumes "\<not> idle st" and "tc_dispatch_queue st = Some q" and "queue_ok q" and "bq_closed q"
  shows "worker_enter st \<noteq> None \<or> worker_iteration k st \<noteq> None"
  using assms pop_closed [OF assms(3,4)] by (auto simp: idle_def worker_enter_def worker_iteration_def)

section \<open>Streams\<close>

text \<open>What a session makes of a list of frames; a frame it cannot decode gives no message.\<close>

fun decode_all :: "('s, 'p) ISession \<Rightarrow> bytes list \<Rightarrow> 's \<Rightarrow> 'p DecodedMessage list \<times> 's" where
  "decode_all S [] s = ([], s)"
| "decode_all S (f # fs) s =
     (case si_decode_frame S f s of
        (Inl e, s) \<Rightarrow> decode_all S fs s
      | (Inr ms, s) \<Rightarrow> apfst ((@) ms) (decode_all S fs s))"

lemma decode_all_append:
  "decode_all S (fs @ gs) s = (case decode_all S fs s of (ms, s) \<Rightarrow> apfst ((@) ms) (decode_all S gs s))"
  by (induction fs arbitrary: s) (auto simp: case_prod_beta apfst_def map_prod_def split: sum.split prod.split)

definition inbound :: "PeerId \<Rightarrow> 'p DecodedMessage list \<Rightarrow> 'p InboundMessage list" where
  "inbound p ms = map (\<lambda>m. \<lparr>im_peer = p, im_decoded = m\<rparr>) ms"

lemma fold_decode_one:
  "rw_session (fold (decode_one env st p c) fs w) = snd (decode_all (en_session env) fs (rw_session w)) \<and>
   rw_enqueue (fold (decode_one env st p c) fs w) =
     rw_enqueue w @ inbound p (fst (decode_all (en_session env) fs (rw_session w)))"
proof (induction fs arbitrary: w)
  case (Cons f fs)
  obtain r s where d: "si_decode_frame (en_session env) f (rw_session w) = (r, s)" by fastforce
  have "rw_session (decode_one env st p c f w) = s \<and> rw_enqueue (decode_one env st p c f w) =
      rw_enqueue w @ inbound p (case r of Inl e \<Rightarrow> [] | Inr ms \<Rightarrow> ms)"
    using d by (cases r) (simp_all add: decode_one_def defer_error_def inbound_def)
  then show ?case using Cons.IH [of "decode_one env st p c f w"] d by (cases r) (simp_all add: inbound_def)
qed (simp add: inbound_def)

lemma enqueue_all_room:
  assumes "tc_dispatch_queue st = Some q" and "queue_ok q" and "\<not> bq_closed q" and "bq_size q + length ms \<le> bq_capacity q"
  shows "\<exists>q'. enqueue_all p ms st = Some (st\<lparr>tc_dispatch_queue := Some q'\<rparr>) \<and> queue_ok q' \<and> \<not> bq_closed q' \<and>
    bq_capacity q' = bq_capacity q \<and> contents q' = contents q @ ms"
  using assms
proof (induction ms arbitrary: st q)
  case Nil
  then show ?case by (intro exI [of _ q]) simp
next
  case (Cons m ms)
  obtain b q1 where t: "try_push m q = (b, q1)" by fastforce
  note r = try_push_refines [OF Cons.prems(2) t]
  have room: "length (contents q) < bq_capacity q" using Cons.prems(4) by simp
  then have b: "b" "contents q1 = contents q @ [m]" using r(4) Cons.prems(3) by (simp_all add: spec_push_def)
  have p: "push m q = Some (True, q1)" using t b room Cons.prems(2) by (simp add: push_eq_try_push queue_full_def)
  have "bq_size q1 = Suc (bq_size q)" using arg_cong [OF b(2), of length] by simp
  then have "bq_size q1 + length ms \<le> bq_capacity q1" using Cons.prems(4) r(2) by (simp add: same_setup_def)
  from Cons.IH [of "st\<lparr>tc_dispatch_queue := Some q1\<rparr>" q1, OF _ r(1) _ this] r(3) Cons.prems(3)
  obtain q' where "enqueue_all p ms (st\<lparr>tc_dispatch_queue := Some q1\<rparr>) = Some (st\<lparr>tc_dispatch_queue := Some q'\<rparr>)"
    "queue_ok q'" "\<not> bq_closed q'" "bq_capacity q' = bq_capacity q1" "contents q' = contents q1 @ ms" by auto
  then show ?case using p Cons.prems(1) b(2) r(2) by (intro exI [of _ q']) (simp add: same_setup_def)
qed

text \<open>The data of one peer, chunk by chunk.\<close>

fun receive_all ::
  "('s, 'p, 'w) environment \<Rightarrow> PeerId \<Rightarrow> bytes list \<Rightarrow> ('s, 'p, 'w) Transceiver \<Rightarrow> ('s, 'p, 'w) Transceiver option" where
  "receive_all env p [] st = Some st"
| "receive_all env p (d # ds) st =
     (case handle_data_received env p d st of None \<Rightarrow> None | Some st \<Rightarrow> receive_all env p ds st)"

text \<open>A peer in the middle of a stream: \<open>fs\<close> are the frames whose last byte has not arrived.\<close>

definition streaming ::
  "('s, 'p, 'w) Transceiver \<Rightarrow> PeerId \<Rightarrow> nat \<Rightarrow> 's PeerContext \<Rightarrow> StreamFramer \<Rightarrow> 'p InboundMessage BoundedQueue \<Rightarrow> bool" where
  "streaming st p a c f q \<longleftrightarrow> find_peer st p = Some a \<and> tc_contexts st a = Some c \<and> pc_framer c = Some f \<and> framer_ok f \<and>
     tc_dispatch_queue st = Some q \<and> queue_ok q \<and> \<not> bq_closed q"

lemma back_pressure_sel [simp]:
  "tc_contexts (back_pressure p st) = tc_contexts st" "tc_peer_map (back_pressure p st) = tc_peer_map st"
  using quiet_effects(9) [of st p] by (simp_all add: quiet_def)

lemma receive_frames:
  assumes "streaming st p a c f q"
    and "push_data (si_framing (en_session env) (pc_session c)) d f = (Inr fs, f')" and "framer_ok f'"
    and "decode_all (en_session env) fs (pc_session c) = (ms, s)" and "bq_size q + length ms \<le> bq_capacity q"
  shows "\<exists>st' q' c'. handle_data_received env p d st = Some st' \<and> streaming st' p a c' f' q' \<and> pc_session c' = s \<and>
    bq_capacity q' = bq_capacity q \<and> contents q' = contents q @ inbound p ms"
proof -
  note st = assms(1) [unfolded streaming_def]
  let ?w0 = "\<lparr>rw_session = pc_session c, rw_stats = tc_stats (count_bytes d st), rw_enqueue = [], rw_logs = [], rw_errors = []\<rparr>"
  define w where "w = fold (decode_one env (count_bytes d st) p c) fs ?w0"
  define c' where "c' = c\<lparr>pc_framer := Some f', pc_session := s\<rparr>"
  have w: "rw_session w = s" "rw_enqueue w = inbound p ms"
    using fold_decode_one [of env "count_bytes d st" p c fs ?w0] assms(4) by (simp_all add: w_def)
  have dd: "decode_data env (count_bytes d st) p c d = (c', w)"
    using st assms(2) w(1) by (simp add: decode_data_def c'_def w_def Let_def)
  define st1 where "st1 = noted env a c' w (count_bytes d st)"
  have st1: "tc_dispatch_queue st1 = Some q" "tc_contexts st1 = (tc_contexts st)(a \<mapsto> c')" "tc_peer_map st1 = tc_peer_map st"
    using st by (simp_all add: st1_def)
  have room: "bq_size q + length (inbound p ms) \<le> bq_capacity q" using assms(5) by (simp add: inbound_def)
  from enqueue_all_room [OF st1(1) _ _ room] st obtain q' where q':
    "enqueue_all p (inbound p ms) st1 = Some (st1\<lparr>tc_dispatch_queue := Some q'\<rparr>)" "queue_ok q'" "\<not> bq_closed q'"
    "bq_capacity q' = bq_capacity q" "contents q' = contents q @ inbound p ms" by blast
  have "handle_data_received env p d st = Some (back_pressure p (st1\<lparr>tc_dispatch_queue := Some q'\<rparr>))"
    unfolding handle_data_received_eq using st dd q'(1) w(2) by (simp add: st1_def)
  moreover have "streaming (back_pressure p (st1\<lparr>tc_dispatch_queue := Some q'\<rparr>)) p a c' f' q'"
    unfolding streaming_def using st st1 q'(2,3) assms(3) by (simp add: find_peer_def c'_def)
  moreover have "pc_session c' = s" by (simp add: c'_def)
  ultimately show ?thesis using q'(4,5) by blast
qed

lemma frames_complete:
  assumes "list_all (good_frame ses m) fs" and "u = concat fs" and "u \<noteq> [] \<longrightarrow> fs \<noteq> [] \<and> length u < length (hd fs)"
  shows "fs = []"
proof (cases fs)
  case (Cons f gs)
  then have "length f > 0" using assms(1) header_size_pos [of ses] by (auto simp: good_frame_def)
  then show ?thesis using assms(2,3) Cons by auto
qed

lemma receive_stream:
  assumes "\<forall>s. si_framing (en_session env) s = ses" and "length (fs_sync_pattern ses) \<le> header_size ses"
  shows "streaming st p a c f q \<Longrightarrow> list_all (good_frame ses (sf_max_buffer_size f)) fs \<Longrightarrow>
    \<forall>g \<in> set fs. length g \<le> L \<Longrightarrow> \<forall>d \<in> set ds. L + length d \<le> sf_max_buffer_size f \<Longrightarrow>
    unread f @ concat ds = concat fs \<Longrightarrow> unread f \<noteq> [] \<longrightarrow> fs \<noteq> [] \<and> length (unread f) < length (hd fs) \<Longrightarrow>
    decode_all (en_session env) fs (pc_session c) = (ms, s) \<Longrightarrow> bq_size q + length ms \<le> bq_capacity q \<Longrightarrow>
    \<exists>st' c' f' q'. receive_all env p ds st = Some st' \<and> streaming st' p a c' f' q' \<and> unread f' = [] \<and>
      pc_session c' = s \<and> contents q' = contents q @ inbound p ms"
proof (induction ds arbitrary: st c f q fs ms)
  case Nil
  have "fs = []" using frames_complete [OF Nil.prems(2) _ Nil.prems(6)] Nil.prems(5) by simp
  then show ?case using Nil.prems by (auto simp: inbound_def)
next
  case (Cons d ds)
  have fok: "framer_ok f" using Cons.prems(1) by (simp add: streaming_def)
  have stream: "unread f @ d @ concat ds = concat fs" using Cons.prems(5) by simp
  have "length (unread f) \<le> L" using Cons.prems(3,6) by (cases fs) auto
  then have "length (unread f) + length d \<le> sf_max_buffer_size f" using Cons.prems(4) by auto
  from push_data_stream [OF fok Cons.prems(2) stream this assms(2)] obtain k f' where
    f': "push_data ses d f = (Inr (take k fs), f')" "framer_ok f'" "sf_max_buffer_size f' = sf_max_buffer_size f"
    "unread f' @ concat ds = concat (drop k fs)" "unread f' \<noteq> [] \<longrightarrow> k < length fs \<and> length (unread f') < length (fs ! k)"
    by blast
  obtain ms1 s1 where d1: "decode_all (en_session env) (take k fs) (pc_session c) = (ms1, s1)" by fastforce
  obtain ms2 where d2: "decode_all (en_session env) (drop k fs) s1 = (ms2, s)" "ms = ms1 @ ms2"
    using decode_all_append [of "en_session env" "take k fs" "drop k fs" "pc_session c"] d1 Cons.prems(7)
    by (cases "decode_all (en_session env) (drop k fs) s1") auto
  have room: "bq_size q + length ms1 \<le> bq_capacity q" using Cons.prems(8) d2(2) by simp
  from receive_frames [OF Cons.prems(1) _ f'(2) d1 room] assms(1) f'(1) obtain st1 q1 c1 where st1:
    "handle_data_received env p d st = Some st1" "streaming st1 p a c1 f' q1" "pc_session c1 = s1"
    "bq_capacity q1 = bq_capacity q" "contents q1 = contents q @ inbound p ms1" by metis
  have good: "list_all (good_frame ses (sf_max_buffer_size f')) (drop k fs)" "\<forall>g \<in> set (drop k fs). length g \<le> L"
    using Cons.prems(2,3) f'(3) by (auto simp: list_all_iff dest: in_set_dropD)
  have next_frame: "unread f' \<noteq> [] \<longrightarrow> drop k fs \<noteq> [] \<and> length (unread f') < length (hd (drop k fs))"
    using f'(5) by (auto simp: hd_drop_conv_nth)
  have "bq_size q1 = bq_size q + length ms1" using arg_cong [OF st1(5), of length] by (simp add: inbound_def)
  then have "bq_size q1 + length ms2 \<le> bq_capacity q1" using Cons.prems(8) d2(2) st1(4) by simp
  moreover have "\<forall>d \<in> set ds. L + length d \<le> sf_max_buffer_size f'" using Cons.prems(4) f'(3) by simp
  ultimately show ?case
    using Cons.IH [OF st1(2) good _ f'(4) next_frame, of ms2] st1 d2 by (auto simp: inbound_def)
qed

section \<open>Disconnection\<close>

lemma context_with_exists:
  "a \<in> set as \<Longrightarrow> cs a = Some c \<Longrightarrow> P c \<Longrightarrow> \<exists>b d. context_with P cs as = Some (b, d)"
  by (induction P cs as rule: context_with.induct) (auto split: option.split)

lemma disconnect_erases:
  assumes "peers_ok st" and "ids_ok st" and "tc_contexts st a = Some c" and "find_multi_peer_entry (pc_transport c) st = Some e"
  shows "tc_contexts (handle_peer_disconnected (pc_id c) st) = (tc_contexts st)(a := None)"
    "tc_peer_map (handle_peer_disconnected (pc_id c) st) = (tc_peer_map st)(peer_value (pc_id c) := None)"
    "tc_peers (handle_peer_disconnected (pc_id c) st) = remove1 a (tc_peers st)"
    "tc_handlers (handle_peer_disconnected (pc_id c) st) = remove_peer (pc_id c) (tc_handlers st)"
    "tc_running (handle_peer_disconnected (pc_id c) st) = tc_running st"
proof -
  let ?d = "c\<lparr>pc_state := Disconnected\<rparr>" and ?P = "\<lambda>d. pc_id d = pc_id c"
  define st1 where "st1 = set_context a ?d st"
  have here: "a \<in> set (tc_peers st1)" "tc_contexts st1 a = Some ?d"
    using peers_okD(1) [OF assms(1)] assms(3) by (auto simp: st1_def set_context_def)
  obtain b d where bd: "context_with ?P (tc_contexts st1) (tc_peers st1) = Some (b, d)"
    using context_with_exists [of a "tc_peers st1" "tc_contexts st1" ?d ?P] here by auto
  then have "tc_contexts st1 b = Some d" "pc_id d = pc_id c" by (auto dest: context_with_Some)
  then have "b = a" using ids_okD [OF assms(2), of b d] ids_okD [OF assms(2,3)]
    by (auto simp: st1_def set_context_def split: if_splits)
  with \<open>tc_contexts st1 b = Some d\<close> here(2) have ad: "b = a" "d = ?d" by auto
  have first: "(case find_peer st (pc_id c) of None \<Rightarrow> st | Some a \<Rightarrow> (case tc_contexts st a of None \<Rightarrow> st
      | Some c \<Rightarrow> set_context a (c\<lparr>pc_state := Disconnected\<rparr>) st)) = st1"
    using ids_okD [OF assms(2,3)] assms(3) by (simp add: find_peer_def st1_def)
  have ent: "find_multi_peer_entry (pc_transport ?d) st1 = Some e"
    using assms(4) by (simp add: st1_def set_context_def find_multi_peer_entry_def)
  show "tc_contexts (handle_peer_disconnected (pc_id c) st) = (tc_contexts st)(a := None)"
    "tc_peer_map (handle_peer_disconnected (pc_id c) st) = (tc_peer_map st)(peer_value (pc_id c) := None)"
    "tc_peers (handle_peer_disconnected (pc_id c) st) = remove1 a (tc_peers st)"
    "tc_handlers (handle_peer_disconnected (pc_id c) st) = remove_peer (pc_id c) (tc_handlers st)"
    "tc_running (handle_peer_disconnected (pc_id c) st) = tc_running st"
    unfolding handle_peer_disconnected_def first Let_def bd ad
    using ent by (simp_all add: run_state_callbacks_def st1_def set_context_def)
qed

section \<open>Properties\<close>

text \<open>
  C3: no sequence of calls, transport callbacks and worker steps leaves a dangling pointer in the peer
  table or lets a buffer outgrow its limit: in every state reachable from a constructed transceiver the
  addresses in the peer list are exactly the live contexts, every entry of the id map leads to a live
  context with that id, the dispatch queue is within its capacity and every framer within its own.
\<close>

theorem reachable_safe:
  assumes "mk_transceiver env config w = Inr st0" and "reach env bound st0 st"
  shows "set (tc_peers st) = dom (tc_contexts st) \<and>
    (\<forall>i a. tc_peer_map st i = Some a \<longrightarrow> (\<exists>c. tc_contexts st a = Some c \<and> peer_value (pc_id c) = i)) \<and>
    (\<forall>q. tc_dispatch_queue st = Some q \<longrightarrow> bq_size q \<le> bq_capacity q) \<and>
    (\<forall>a c f. tc_contexts st a = Some c \<longrightarrow> pc_framer c = Some f \<longrightarrow> buffered_bytes f \<le> sf_max_buffer_size f)"
proof -
  have "tc_ok st" using reach_ok(1) [OF assms(2) constructed_ok(1) [OF assms(1)]] .
  then have ok: "peers_ok st" "framers_ok st" "dispatch_queue_ok st" by (simp_all add: tc_ok_def)
  show ?thesis
  proof (intro conjI allI impI)
    show "set (tc_peers st) = dom (tc_contexts st)" by (rule peers_okD(1) [OF ok(1)])
    show "\<exists>c. tc_contexts st a = Some c \<and> peer_value (pc_id c) = i" if "tc_peer_map st i = Some a" for i a
      using that by (rule peers_okD(4) [OF ok(1)])
    show "bq_size q \<le> bq_capacity q" if "tc_dispatch_queue st = Some q" for q
      using that ok(3) by (simp add: dispatch_queue_ok_def queue_ok_def)
    show "buffered_bytes f \<le> sf_max_buffer_size f" if "tc_contexts st a = Some c" "pc_framer c = Some f" for a c f
    proof -
      have "framer_ok f" using that ok(2) unfolding framers_ok_def by blast
      then show ?thesis by (auto simp: framer_ok_def buffered_bytes_def)
    qed
  qed
qed

theorem reachable_safe_witness:
  "set (tc_peers tiny_ready) = dom (tc_contexts tiny_ready) \<and>
   (\<exists>c f. tc_contexts tiny_ready 0 = Some c \<and> pc_framer c = Some f \<and> buffered_bytes f \<le> sf_max_buffer_size f)"
proof -
  note safe = reachable_safe [OF tiny_constructed tiny_ready_reached]
  obtain c f where "tc_contexts tiny_ready 0 = Some c" "pc_framer c = Some f" by (simp add: tiny_ready_eq(1))
  then show ?thesis using safe by blast
qed

text \<open>
  C6: as long as there are fewer than 255 peers whenever a step is taken, peer ids are never zero and never
  shared: every live context is the one its id leads to.  Wrap-around of the 32-bit counter does not matter.
\<close>

theorem peer_ids_unique:
  assumes "mk_transceiver env config w = Inr st0" and "length (tcf_peers config) \<le> 255" and "reach env 255 st0 st"
    and "tc_contexts st a = Some c"
  shows "peer_valid (pc_id c) \<and> peer_context st (pc_id c) = Some c \<and>
    (\<forall>b d. tc_contexts st b = Some d \<longrightarrow> pc_id d = pc_id c \<longrightarrow> b = a)"
proof -
  have ids: "ids_ok st" using reach_ok(2) [OF assms(3) constructed_ok(1) [OF assms(1)]] constructed_ok(2) [OF assms(1,2)] by simp
  have found: "tc_peer_map st (peer_value (pc_id c)) = Some a" using ids_okD [OF ids assms(4)] .
  have "peer_value (pc_id c) \<noteq> 0" using found ids by (auto simp: ids_ok_def)
  then have "peer_valid (pc_id c)" by (simp add: peer_valid_def)
  moreover have "peer_context st (pc_id c) = Some c" using found assms(4) by (simp add: peer_context_def find_peer_def)
  moreover have "b = a" if "tc_contexts st b = Some d" "pc_id d = pc_id c" for b d
    using ids_okD [OF ids that(1)] that(2) found by simp
  ultimately show ?thesis by blast
qed

theorem peer_ids_unique_witness:
  "\<exists>c. tc_contexts tiny_ready 0 = Some c \<and> pc_id c = PeerId 1 \<and> peer_context tiny_ready (PeerId 1) = Some c"
proof -
  have "length (tcf_peers tiny_config) \<le> 255" by (simp add: tiny_config_def)
  from peer_ids_unique [OF tiny_constructed this tiny_ready_reached, of 0] show ?thesis
    by (simp add: tiny_ready_eq(1))
qed



text \<open>
  C5: a stream reaches the dispatch queue as the messages it encodes.  Whatever the chunks in which the bytes of
  well-formed frames arrive, and however long the stream is, as long as a frame and a chunk together fit the
  framer's buffer and the messages fit the queue: the messages decoded from the frames, one after the other, are
  appended to the queue in order, none lost, none doubled, and the session has seen exactly these frames.
\<close>

theorem stream_delivery:
  assumes "mk_transceiver env config w = Inr st0" and "reach env bound st0 st"
    and "find_peer st p = Some a" and "tc_contexts st a = Some c" and "pc_framer c = Some f" and "unread f = []"
    and "tc_dispatch_queue st = Some q" and "\<not> bq_closed q"
    and "\<forall>s. si_framing (en_session env) s = ses" and "length (fs_sync_pattern ses) \<le> header_size ses"
    and "list_all (good_frame ses (sf_max_buffer_size f)) fs" and "\<forall>g \<in> set fs. length g \<le> L"
    and "\<forall>d \<in> set ds. L + length d \<le> sf_max_buffer_size f" and "concat ds = concat fs"
    and "decode_all (en_session env) fs (pc_session c) = (ms, s)" and "bq_size q + length ms \<le> bq_capacity q"
  shows "\<exists>st' q' c'. receive_all env p ds st = Some st' \<and> tc_dispatch_queue st' = Some q' \<and>
    contents q' = contents q @ inbound p ms \<and> peer_context st' p = Some c' \<and> pc_session c' = s"
proof -
  have "tc_ok st" using reach_ok(1) [OF assms(2) constructed_ok(1) [OF assms(1)]] .
  then have "queue_ok q" "framer_ok f" using assms(4,5,7) by (auto simp: tc_ok_def dispatch_queue_ok_def framers_ok_def)
  then have "streaming st p a c f q" using assms by (simp add: streaming_def)
  from receive_stream [OF assms(9,10) this assms(11-13) _ _ assms(15,16)] assms(6,14) show ?thesis
    by (fastforce simp: streaming_def peer_context_def)
qed

theorem stream_delivery_witness:
  "\<exists>st' q'. receive_all tiny_env (PeerId 1) [[0xAA, 0x55], [4, 7, 0xAA], [0x55, 4, 8]] tiny_ready = Some st' \<and>
     tc_dispatch_queue st' = Some q' \<and> map (dm_payload \<circ> im_decoded) (contents q') = [7, 8]"
proof -
  let ?fs = "[[0xAA, 0x55, 4, 7], [0xAA, 0x55, 4, 8]]" and ?ds = "[[0xAA, 0x55], [4, 7, 0xAA], [0x55, 4, 8]]"
  let ?f = "mk_framer default_max_buffer_size" and ?m = "\<lambda>x. \<lparr>dm_type_id = 1, dm_type_name = ''M'', dm_payload = x, dm_raw = [0xAA, 0x55, 4, x]\<rparr>"
  let ?q = "mk_queue (blank_message tiny_env) 2 DropOldest"
  let ?c = "\<lparr>pc_id = PeerId 1, pc_name = ''a'', pc_remote_endpoint = [], pc_session = 0, pc_framer = Some ?f,
    pc_transport = 0, pc_state = Disconnected\<rparr>"
  have "find_peer tiny_ready (PeerId 1) = Some 0" "tc_contexts tiny_ready 0 = Some ?c"
    by (simp_all add: find_peer_def tiny_ready_eq)
  note at = this
  have q: "contents ?q = []" "bq_size ?q = 0" "bq_capacity ?q = 2" "\<not> bq_closed ?q" by (rule mk_queue_ok(2)) (simp_all add: mk_queue_def)
  have good: "list_all (good_frame example_session (sf_max_buffer_size ?f)) ?fs"
    by (simp add: good_frame_def example_session_def header_size_def mk_framer_def default_max_buffer_size_def)
  have dec: "decode_all (en_session tiny_env) ?fs (pc_session ?c) =
([?m 7, ?m 8], Suc (Suc 0))"
    by (simp add: tiny_env_def tiny_session_def)
  have ses: "\<forall>s. si_framing (en_session tiny_env) s = example_session" by (simp add: tiny_env_def tiny_session_def)
  have hd: "length (fs_sync_pattern example_session) \<le> header_size example_session"
    by (simp add: example_session_def header_size_def)
  have len: "\<forall>g \<in> set ?fs. length g \<le> 4" "\<forall>d \<in> set ?ds. 4 + length d \<le> sf_max_buffer_size ?f"
    by (simp_all add: mk_framer_def default_max_buffer_size_def)
  have cc: "concat ?ds = concat ?fs" "pc_framer ?c = Some ?f" by simp_all
  have room: "bq_size ?q + length [?m 7, ?m 8] \<le> bq_capacity ?q" by (simp add: q)
  from stream_delivery [OF tiny_constructed tiny_ready_reached at cc(2) mk_framer_ok(2) tiny_ready_eq(5) q(4) ses hd good len cc(1) dec room]
  show ?thesis using q(1) by (auto simp: inbound_def)
qed

text \<open>
  C7: a dynamic peer that disconnects is forgotten and nothing else changes.  Its context and its id are gone and
  its state reads \<open>Disconnected\<close>; sending to it fails and changes nothing; data that still arrives under its id is
  counted and dropped; a message of it left in the queue no longer reaches a handler registered for it.  The
  contexts of the other peers, and the dispatch of their messages, are as before.
\<close>

theorem disconnect_forgets:
  assumes "mk_transceiver env config w = Inr st0" and "length (tcf_peers config) \<le> 255" and "reach env 255 st0 st"
    and "tc_contexts st a = Some c" and "find_multi_peer_entry (pc_transport c) st = Some e"
  defines "st' \<equiv> handle_peer_disconnected (pc_id c) st"
  shows "peer_context st' (pc_id c) = None \<and> peer_state (pc_id c) st' = Disconnected \<and> Suc (peer_count st') = peer_count st \<and>
    (\<exists>er. send_impl env (pc_id c) t x st' = (Inl er, st') \<and> err_code er = (if tc_running st then PeerNotFound else NotRunning)) \<and>
    handle_data_received env (pc_id c) d st' = Some (count_bytes d st') \<and>
    dispatch_raw (tc_handlers st') (pc_id c) t x raw v =
      dispatch_raw ((tc_handlers st)\<lparr>hr_per_peer_handlers := Map.empty, hr_per_peer_catch_all := Map.empty\<rparr>) (pc_id c) t x raw v \<and>
    (p \<noteq> pc_id c \<longrightarrow> peer_context st' p = peer_context st p \<and>
       dispatch_raw (tc_handlers st') p t x raw v = dispatch_raw (tc_handlers st) p t x raw v)"
proof -
  have ids: "ids_ok st" and pk: "peers_ok st"
    using reach_ok [OF assms(3) constructed_ok(1) [OF assms(1)]] constructed_ok(2) [OF assms(1,2)] by (simp_all add: tc_ok_def)
  note er = disconnect_erases [OF pk ids assms(4,5), folded st'_def]
  have at: "tc_peer_map st (peer_value (pc_id c)) = Some a" by (rule ids_okD [OF ids assms(4)])
  have none: "find_peer st' (pc_id c) = None" by (simp add: find_peer_def er(2))
  have "a \<in> set (tc_peers st)" using peers_okD(1) [OF pk] assms(4) by auto
  then have "Suc (peer_count st') = peer_count st"
    by (simp add: peer_count_def er(3) length_remove1) (metis Suc_pred length_pos_if_in_set)
  moreover have "\<exists>er. send_impl env (pc_id c) t x st' = (Inl er, st') \<and> err_code er = (if tc_running st then PeerNotFound else NotRunning)"
    by (simp add: send_impl_def none er(5) mk_error_def)
  moreover have "peer_context st' p = peer_context st p" if "p \<noteq> pc_id c" for p
  proof -
    have "peer_value p \<noteq> peer_value (pc_id c)" using that PeerId.expand by blast
    moreover have "tc_peer_map st (peer_value p) \<noteq> Some a"
      using peers_okD(4) [OF pk, of "peer_value p" a] assms(4) that PeerId.expand by force
    ultimately show ?thesis by (auto simp: peer_context_def find_peer_def er(1,2) split: option.split)
  qed
  ultimately show ?thesis
    by (simp add: peer_context_def peer_state_def none handle_data_received_eq er(4) removed_peer_forgotten)
qed

theorem disconnect_forgets_witness:
  "peer_context (handle_peer_disconnected (PeerId 2) tiny_server) (PeerId 2) = None \<and>
   (\<exists>er. send_impl tiny_env (PeerId 2) 1 7 (handle_peer_disconnected (PeerId 2) tiny_server) =
      (Inl er, handle_peer_disconnected (PeerId 2) tiny_server) \<and> err_code er = PeerNotFound)"
proof -
  obtain e where e: "find_multi_peer_entry 0 tiny_server = Some e" using tiny_server_eq(2) by blast
  have n: "length (tcf_peers tiny_config) \<le> 255" by (simp add: tiny_config_def)
  obtain c where c: "tc_contexts tiny_server 0 = Some c" "pc_id c = PeerId 2" "pc_transport c = 0" by (simp add: tiny_server_eq(1))
  have "find_multi_peer_entry (pc_transport c) tiny_server = Some e" using e c(3) by simp
  from disconnect_forgets [OF tiny_constructed n tiny_server_reached c(1) this] show ?thesis
    unfolding c(2) using tiny_server_eq(3) by simp
qed

end
