(* ===== verification/Transceiver_Limits.thy ===== *)
theory Transceiver_Limits
  imports Transceiver_Runs
begin

text \<open>
  Where the transceiver does less than its interface suggests: a configured multicast peer cannot be
  constructed, a message pushed out of a full queue is not reported, and the name of a dynamic peer takes over
  the name of another peer.
\<close>

section \<open>Configured multicast peers\<close>

lemma add_peer_factory_single:
  assumes "\<not> tr_is_multi_peer (tc_objects st ! t)"
  shows "\<exists>e. add_peer_factory name f (Some t) st = (Inl e, st)"
  using assms by (auto simp: add_peer_factory_def split: option.split)

lemma materialize_mismatch:
  assumes "c \<in> set cs" and "is_multi_peer_config (pcfg_transport c)" and "\<not> built_is_multi_peer (pcfg_transport c)"
  shows "fst (materialize_config_peers env cs st) \<noteq> Inr (Inr ())"
  using assms(1)
proof (induction cs arbitrary: st)
  case (Cons d cs)
  show ?case
  proof (cases "c = d")
    case True
    obtain t st1 where t: "make_transport env (pcfg_transport d) st = (t, st1)" "\<not> tr_is_multi_peer (tc_objects st1 ! t)"
      using assms(3) True by (auto simp: make_transport_def built_transport_def)
    obtain e where "add_peer_factory (pcfg_name d) (pcfg_session_factory d) (Some t) st1 = (Inl e, st1)"
      using add_peer_factory_single [OF t(2)] by blast
    then show ?thesis using t(1) assms(2) True by simp
  next
    case False
    then show ?thesis using Cons
      by (auto simp: Let_def split: option.split sum.split prod.split)
  qed
qed simp

text \<open>
  C37: no transceiver can be constructed from a configuration in which a UDP peer names a multicast group and no
  remote address.  The configuration test counts it as a listener with many peers, the transport counts it as
  one peer, and the two refuse each other.
\<close>

theorem multicast_config_rejected:
  assumes "c \<in> set (tcf_peers config)" and "pcfg_transport c = Cfg_Udp u"
    and "uc_multicast_group u \<noteq> []" and "uc_remote_address u = []"
  shows "\<exists>e. mk_transceiver env config w = Inl e"
proof -
  have "fst (materialize_config_peers env (tcf_peers config) (empty_transceiver config w)) \<noteq> Inr (Inr ())"
    by (rule materialize_mismatch [OF assms(1)]) (simp_all add: assms(2-4) udp_is_multi_peer_def udp_single_peer_def)
  then show ?thesis by (auto simp: mk_transceiver_def split: sum.split prod.split)
qed

definition multicast_config :: "(nat, bytes list) TransceiverConfig" where
  "multicast_config = config_add_peer ''m'' (Some (\<lambda>w. (Some 0, w)))
     (Cfg_Udp (default_udp\<lparr>uc_multicast_group := ''239.0.0.1''\<rparr>)) tiny_config"

theorem multicast_config_rejected_witness:
  "\<exists>e. mk_transceiver tiny_env multicast_config [] = Inl e"
proof (rule multicast_config_rejected)
  let ?u = "default_udp\<lparr>uc_multicast_group := ''239.0.0.1''\<rparr>"
  show "\<lparr>pcfg_name = ''m'', pcfg_session_factory = Some (\<lambda>w. (Some 0, w)), pcfg_transport = Cfg_Udp ?u\<rparr>
      \<in> set (tcf_peers multicast_config)"
    by (simp add: multicast_config_def config_add_peer_def)
  show "uc_multicast_group ?u \<noteq> []" "uc_remote_address ?u = []" by (simp_all add: default_udp_def)
qed simp

section \<open>Silent drops\<close>

text \<open>
  C38: with the default policy a full queue drops its oldest message in silence.  The message is gone, but the
  call that pushed it out changes nothing else: the count of dropped messages keeps its value and no error
  callback runs.
\<close>

theorem drop_oldest_not_reported:
  assumes "tc_dispatch_queue st = Some q" and "queue_ok q" and "\<not> bq_closed q" and "bq_policy q = DropOldest"
    and "bq_size q = bq_capacity q"
  shows "\<exists>q'. enqueue_all p [m] st = Some (st\<lparr>tc_dispatch_queue := Some q'\<rparr>) \<and> contents q' = tl (contents q) @ [m]"
proof -
  obtain b q' where t: "try_push m q = (b, q')" by fastforce
  have "b \<and> contents q' = tl (contents q) @ [m]"
    using try_push_refines(4) [OF assms(2) t] assms(3-5) by (simp add: spec_push_def)
  moreover have "push m q = Some (b, q')" using t assms(2,4) by (simp add: push_eq_try_push)
  ultimately show ?thesis using assms(1) by (intro exI [of _ q']) simp
qed

theorem drop_oldest_not_reported_witness:
  "let a = blank_message tiny_env; b = a\<lparr>im_peer := PeerId 1\<rparr>;
       st = tiny_ready\<lparr>tc_dispatch_queue := Some (snd (try_push a (mk_queue a 1 DropOldest)))\<rparr>
   in \<exists>q. enqueue_all (PeerId 1) [b] st = Some (st\<lparr>tc_dispatch_queue := Some q\<rparr>) \<and> contents q = [b]"
proof -
  let ?a = "blank_message tiny_env" and ?b = "(blank_message tiny_env)\<lparr>im_peer := PeerId 1\<rparr>"
  obtain ok q where t: "try_push ?a (mk_queue ?a 1 DropOldest) = (ok, q)" by fastforce
  note r = try_push_refines [OF mk_queue_ok(1) t]
  have c: "contents q = [?a]" using r(4) by (simp add: spec_push_def mk_queue_ok(2), simp add: mk_queue_def)
  have "bq_size q = 1" using arg_cong [OF c, of length] by simp
  moreover have "bq_capacity q = 1" "bq_policy q = DropOldest" "\<not> bq_closed q"
    using r(2,3) by (simp_all add: same_setup_def mk_queue_def)
  ultimately show ?thesis
    using drop_oldest_not_reported [of "tiny_ready\<lparr>tc_dispatch_queue := Some q\<rparr>" q "PeerId 1" ?b] r(1) t c \<open>bq_size q = 1\<close>
    by (simp del: enqueue_all.simps One_nat_def add: Let_def)
qed

section \<open>Names of dynamic peers\<close>

lemma map_of_assign_name: "map_of (assign_name n p names) n = Some p"
proof (cases "map_of names n")
  case (Some x)
  have "map_of (map (\<lambda>(m, q). (m, if m = n then p else q)) ns) n = map_option (\<lambda>_. p) (map_of ns n)" for ns
    by (induction ns) auto
  then show ?thesis using Some by (simp add: assign_name_def)
qed (simp add: assign_name_def)

lemma names_kept [simp]:
  "tc_name_to_peer (handle_state_changed env p s st) = tc_name_to_peer st"
  by (simp add: handle_state_changed_def run_state_callbacks_def set_context_def Let_def split: option.split)


definition shadowed :: "(nat, u8, bytes list) Transceiver" where
  "shadowed = snd (add_peer_factory ''s'' (Some (\<lambda>w. (Some 0, w))) (Some 1)
     (snd (add_peer_session (''s/'' @ to_string 1) (Some 0) (Some 0)
       (tiny_start\<lparr>tc_objects := [tiny_transport False, tiny_transport True]\<rparr>))))"

lemma shadowed_eq:
  "peer_by_name (''s/'' @ to_string 1) shadowed = Inr (PeerId 1)" "tr_is_multi_peer (tc_objects shadowed ! 1)"
  "find_multi_peer_entry 1 shadowed = Some \<lparr>me_base_id = PeerId 2, me_name = ''s'', me_session_factory = (\<lambda>w. (Some 0, w)),
     me_transport = 1, me_next_child = 1\<rparr>"
  by (simp_all add: shadowed_def peer_by_name_def add_peer_session_def find_multi_peer_entry_def add_context_def tiny_server_defs)


end
