(* ===== verification/Transceiver_Link.thy ===== *)
theory Transceiver_Link
  imports Transceiver_Limits
begin

text \<open>
  Two transceivers and the bytes between them.  \<open>codec_ok\<close> is what a generated session promises for one
  message type: every payload can be encoded, the encoding is one frame of the session's own framing, and
  decoding that frame, in whatever state the receiving session is, gives back the one message.  \<open>wired\<close> is
  what a connected stream transport promises: bytes handed to it are appended to what has been sent.
\<close>

definition codec_ok :: "('s, 'p) ISession \<Rightarrow> u64 \<Rightarrow> FrameSession \<Rightarrow> nat \<Rightarrow> nat \<Rightarrow> bool" where
  "codec_ok S ty ses n L \<longleftrightarrow>
     (\<forall>s. si_framing S s = ses \<and> \<not> si_is_receive_only S s ty) \<and> length (fs_sync_pattern ses) \<le> header_size ses \<and>
     (\<forall>x s. \<exists>r s'. si_encode_wrap S ty x s = (Inr r, s') \<and> good_frame ses n (er_bytes r) \<and> length (er_bytes r) \<le> L \<and>
       (\<forall>s2. \<exists>m s3. si_decode_frame S (er_bytes r) s2 = (Inr [m], s3) \<and> dm_type_id m = ty \<and> dm_payload m = x))"

definition wired :: "('w \<Rightarrow> bytes) \<Rightarrow> 'w ITransport \<Rightarrow> bool" where
  "wired wire T \<longleftrightarrow> (\<forall>p bs w. \<exists>w'. tr_send T p bs w = (Inr (), w') \<and> wire w' = wire w @ bs)"

lemma codec_okD:
  assumes "codec_ok S ty ses n L"
  obtains r s' where "si_encode_wrap S ty x s = (Inr r, s')" "good_frame ses n (er_bytes r)" "length (er_bytes r) \<le> L"
    "\<And>s2. \<exists>m s3. si_decode_frame S (er_bytes r) s2 = (Inr [m], s3) \<and> dm_type_id m = ty \<and> dm_payload m = x"
  using assms unfolding codec_ok_def by meson

text \<open>Messages sent one after the other, up to the first error.\<close>

fun send_all ::
  "('s, 'p, 'w) environment \<Rightarrow> PeerId \<Rightarrow> u64 \<Rightarrow> 'p list \<Rightarrow> ('s, 'p, 'w) Transceiver \<Rightarrow> VoidResult \<times> ('s, 'p, 'w) Transceiver" where
  "send_all env p ty [] st = (Inr (), st)"
| "send_all env p ty (x # xs) st =
     (case send_impl env p ty x st of (Inl e, st) \<Rightarrow> (Inl e, st) | (Inr u, st) \<Rightarrow> send_all env p ty xs st)"

text \<open>A running transceiver whose peer \<open>p\<close> has the transport \<open>T\<close>.\<close>

definition sending :: "('s, 'p, 'w) Transceiver \<Rightarrow> PeerId \<Rightarrow> 'w ITransport \<Rightarrow> bool" where
  "sending st p T \<longleftrightarrow> tc_running st \<and> (\<exists>c. peer_context st p = Some c \<and> tc_objects st ! pc_transport c = T)"

lemma log_sent_sel [simp]:
  "tc_running (log_sent env c ty bs tx st) = tc_running st" "tc_objects (log_sent env c ty bs tx st) = tc_objects st"
  "tc_world (log_sent env c ty bs tx st) = tc_world st" "tc_contexts (log_sent env c ty bs tx st) = tc_contexts st"
  "tc_peer_map (log_sent env c ty bs tx st) = tc_peer_map st"
  by (simp_all add: log_sent_def log_message_def Let_def case_prod_beta split: option.split)

lemma send_impl_wire:
  assumes "codec_ok (en_session env) ty ses n L" and "wired wire T" and "sending st p T"
  obtains st' f where "send_impl env p ty x st = (Inr (), st')" "wire (tc_world st') = wire (tc_world st) @ f" "sending st' p T"
    "good_frame ses n f" "length f \<le> L"
    "\<And>s2. \<exists>m s3. si_decode_frame (en_session env) f s2 = (Inr [m], s3) \<and> dm_type_id m = ty \<and> dm_payload m = x"
proof -
  obtain a c where c: "tc_running st" "find_peer st p = Some a" "tc_contexts st a = Some c" "tc_objects st ! pc_transport c = T"
    using assms(3) by (auto simp: sending_def peer_context_def split: option.splits)
  obtain r s' where r: "si_encode_wrap (en_session env) ty x (pc_session c) = (Inr r, s')" "good_frame ses n (er_bytes r)"
    "length (er_bytes r) \<le> L"
    "\<And>s2. \<exists>m s3. si_decode_frame (en_session env) (er_bytes r) s2 = (Inr [m], s3) \<and> dm_type_id m = ty \<and> dm_payload m = x"
    using codec_okD [OF assms(1)] by metis
  obtain w' where w': "tr_send T p (er_bytes r) (tc_world st) = (Inr (), w')" "wire w' = wire (tc_world st) @ er_bytes r"
    using assms(2) unfolding wired_def by meson
  have "\<not> si_is_receive_only (en_session env) (pc_session c) ty" using assms(1) by (simp add: codec_ok_def)
  then have "\<exists>st'. send_impl env p ty x st = (Inr (), st') \<and> tc_world st' = w' \<and> sending st' p T"
    using c r(1) w'(1)
    by (simp add: send_impl_def transport_send_def Let_def set_context_def sending_def peer_context_def find_peer_def)
  then show ?thesis using that r(2-4) w'(2) by metis
qed

lemma send_all_wire:
  assumes "codec_ok (en_session env) ty ses n L" and "wired wire T"
  shows "sending st p T \<Longrightarrow> \<exists>st' fs. send_all env p ty xs st = (Inr (), st') \<and> wire (tc_world st') = wire (tc_world st) @ concat fs \<and>
    list_all (good_frame ses n) fs \<and> (\<forall>f \<in> set fs. length f \<le> L) \<and>
    (\<forall>s. map dm_payload (fst (decode_all (en_session env) fs s)) = xs \<and> list_all (\<lambda>m. dm_type_id m = ty) (fst (decode_all (en_session env) fs s)))"
proof (induction xs arbitrary: st)
  case Nil
  show ?case by (intro exI [of _ st] exI [of _ "[]"]) simp
next
  case (Cons x xs)
  obtain st1 f where f: "send_impl env p ty x st = (Inr (), st1)" "wire (tc_world st1) = wire (tc_world st) @ f" "sending st1 p T"
    "good_frame ses n f" "length f \<le> L"
    "\<And>s2. \<exists>m s3. si_decode_frame (en_session env) f s2 = (Inr [m], s3) \<and> dm_type_id m = ty \<and> dm_payload m = x"
    using send_impl_wire [OF assms Cons.prems] by metis
  from Cons.IH [OF f(3)] obtain st2 fs where g: "send_all env p ty xs st1 = (Inr (), st2)"
    "wire (tc_world st2) = wire (tc_world st1) @ concat fs" "list_all (good_frame ses n) fs" "\<forall>f \<in> set fs. length f \<le> L"
    "\<And>s. map dm_payload (fst (decode_all (en_session env) fs s)) = xs"
    "\<And>s. list_all (\<lambda>m. dm_type_id m = ty) (fst (decode_all (en_session env) fs s))" by blast
  have "map dm_payload (fst (decode_all (en_session env) (f # fs) s)) = x # xs \<and>
      list_all (\<lambda>m. dm_type_id m = ty) (fst (decode_all (en_session env) (f # fs) s))" for s
    using f(6) [of s] g(5,6) by auto
  then show ?case using f g by (intro exI [of _ st2] exI [of _ "f # fs"]) simp
qed

end
