(* ===== verification/Bgen_Text.thy ===== *)
theory Bgen_Text
  imports Conduit_Prelude
begin

text \<open>
  Characters and numbers as the generator \<open>bgen\<close> reads them: the classification functions of the C library
  in the default locale, \<open>std::from_chars\<close> for \<open>int64_t\<close>, and \<open>parse_literal\<close>
  (\<open>bgen/src/analyzer/parse_utils.hpp\<close>).
\<close>

section \<open>Characters\<close>

definition isdigit :: "char \<Rightarrow> bool" where
  "isdigit c \<longleftrightarrow> 48 \<le> (of_char c :: nat) \<and> (of_char c :: nat) \<le> 57"

definition isupper :: "char \<Rightarrow> bool" where
  "isupper c \<longleftrightarrow> 65 \<le> (of_char c :: nat) \<and> (of_char c :: nat) \<le> 90"

definition islower :: "char \<Rightarrow> bool" where
  "islower c \<longleftrightarrow> 97 \<le> (of_char c :: nat) \<and> (of_char c :: nat) \<le> 122"

definition isalpha :: "char \<Rightarrow> bool" where
  "isalpha c \<longleftrightarrow> isupper c \<or> islower c"

definition isalnum :: "char \<Rightarrow> bool" where
  "isalnum c \<longleftrightarrow> isalpha c \<or> isdigit c"

definition isxdigit :: "char \<Rightarrow> bool" where
  "isxdigit c \<longleftrightarrow> isdigit c \<or> (65 \<le> (of_char c :: nat) \<and> (of_char c :: nat) \<le> 70) \<or>
     (97 \<le> (of_char c :: nat) \<and> (of_char c :: nat) \<le> 102)"

definition isspace :: "char \<Rightarrow> bool" where
  "isspace c \<longleftrightarrow> of_char c = (32 :: nat) \<or> (9 \<le> (of_char c :: nat) \<and> (of_char c :: nat) \<le> 13)"

definition toupper :: "char \<Rightarrow> char" where
  "toupper c = (if islower c then char_of (of_char c - 32 :: nat) else c)"

definition tolower :: "char \<Rightarrow> char" where
  "tolower c = (if isupper c then char_of (of_char c + 32 :: nat) else c)"

lemmas char_classes = isdigit_def isupper_def islower_def isalpha_def isalnum_def isxdigit_def isspace_def

section \<open>Numbers\<close>

definition digit_value :: "char \<Rightarrow> nat" where
  "digit_value c = (if isdigit c then of_char c - 48 else if isupper c then of_char c - 55 else of_char c - 87)"

definition is_digit_of :: "nat \<Rightarrow> char \<Rightarrow> bool" where
  "is_digit_of base c \<longleftrightarrow> isalnum c \<and> digit_value c < base"

definition number_value :: "nat \<Rightarrow> string \<Rightarrow> nat" where
  "number_value base ds = fold (\<lambda>c v. base * v + digit_value c) ds 0"

definition in_int64 :: "int \<Rightarrow> bool" where
  "in_int64 i \<longleftrightarrow> - (2 ^ 63) \<le> i \<and> i < 2 ^ 63"

text \<open>The value and the characters behind it; \<open>None\<close> when there is no digit or the value is out of range.\<close>

definition from_chars :: "nat \<Rightarrow> string \<Rightarrow> (int \<times> string) option" where
  "from_chars base s =
     (let neg = (s \<noteq> [] \<and> hd s = CHR ''-'');
          body = (if neg then tl s else s);
          ds = takeWhile (is_digit_of base) body;
          v = (if neg then - int (number_value base ds) else int (number_value base ds))
      in if ds = [] \<or> \<not> in_int64 v then None else Some (v, dropWhile (is_digit_of base) body))"

text \<open>The value of a string that is a number and nothing else.\<close>

definition whole_number :: "nat \<Rightarrow> string \<Rightarrow> int option" where
  "whole_number base s =
     (case from_chars base s of Some (v, rest) \<Rightarrow> if rest = [] then Some v else None | None \<Rightarrow> None)"

definition hex_prefixed :: "string \<Rightarrow> bool" where
  "hex_prefixed s \<longleftrightarrow> length s > 2 \<and> s ! 0 = CHR ''0'' \<and> (s ! 1 = CHR ''x'' \<or> s ! 1 = CHR ''X'')"

text \<open>\<open>-val\<close> overflows only for \<open>--9223372036854775808\<close>, where it is taken to wrap.\<close>

definition parse_literal :: "string \<Rightarrow> int option" where
  "parse_literal s =
     (if s = [] then None
      else
        let negate = (hd s = CHR ''-''); body = (if negate then tl s else s)
        in case (if hex_prefixed body then whole_number 16 (drop 2 body) else whole_number 10 body) of
             None \<Rightarrow> None
           | Some v \<Rightarrow> Some (if negate then (if v = - (2 ^ 63) then v else - v) else v))"

section \<open>Decimal round trip\<close>

lemma to_string_digits: "c \<in> set (to_string n) \<Longrightarrow> isdigit c"
proof (induction n rule: to_string.induct)
  case (1 n)
  have d: "isdigit (char_of (48 + k))" if "k < 10" for k :: nat using that by (simp add: isdigit_def)
  show ?case
  proof (cases "n < 10")
    case True
    then show ?thesis using "1.prems" d by (simp add: to_string.simps [of n])
  next
    case False
    then show ?thesis using 1 d [of "n mod 10"] by (auto simp: to_string.simps [of n])
  qed
qed

lemma digit_of_10: "is_digit_of 10 c = isdigit c"
  by (auto simp: is_digit_of_def digit_value_def char_classes)

lemma number_value_digits:
  "list_all isdigit ds \<Longrightarrow> number_value 10 ds = digits_value ds"
proof -
  have "list_all isdigit ds \<Longrightarrow> fold (\<lambda>c v. 10 * v + digit_value c) ds a = fold (\<lambda>c v. 10 * v + (of_char c - 48)) ds a" for a
    by (induction ds arbitrary: a) (simp_all add: digit_value_def)
  then show "list_all isdigit ds \<Longrightarrow> number_value 10 ds = digits_value ds" by (simp add: number_value_def)
qed

lemma from_chars_to_string:
  assumes "int n < 2 ^ 63" and "rest = [] \<or> \<not> isdigit (hd rest)"
  shows "from_chars 10 (to_string n @ rest) = Some (int n, rest)"
proof -
  let ?ds = "to_string n"
  have all: "list_all isdigit ?ds" using to_string_digits by (simp add: list_all_iff)
  have "hd (?ds @ rest) \<noteq> CHR ''-''"
    using to_string_digits [of "hd ?ds" n] by (auto simp: isdigit_def)
  moreover have "takeWhile isdigit (?ds @ rest) = ?ds" "dropWhile isdigit (?ds @ rest) = rest"
    using all assms(2) by (cases rest; simp add: list_all_iff takeWhile_append2 dropWhile_append2)+
  moreover have "number_value 10 ?ds = n" using number_value_digits [OF all] digits_value_to_string by simp
  ultimately show ?thesis using assms(1) by (simp add: from_chars_def digit_of_10 [abs_def] Let_def in_int64_def)
qed

lemma from_chars_range: "from_chars base s = Some (v, rest) \<Longrightarrow> in_int64 v"
  by (auto simp: from_chars_def Let_def split: if_splits)

end
