(* ===== verification/Bgen_Ast.thy ===== *)
theory Bgen_Ast
  imports Complex_Main Bgen_Text
begin

text \<open>
  The syntax tree of a message description: \<open>bgen/src/model/ast.hpp\<close>.  A recursive \<open>struct\<close> is a datatype
  whose constructors carry a record of the members that are not recursive and the lists of children; the tree
  has the source's shape and names.  Numbers of type \<open>double\<close> are rationals.  Source locations are kept as the
  strings they print as, where a pass reports them.  Members that no
  modelled pass reads are left out: documentation strings, the raw text of \<open>auto\<close> attributes, the flag
  \<open>type_is_inline\<close> and the annotations of nodes other than types, fields and messages.
\<close>

section \<open>Enumerations\<close>

datatype PrimitiveBase = Base_Uint | Base_Int | Base_Float | Base_Bool | Base_Bytes | Base_String
datatype ModelEndian = Endian_Big | Endian_Little
datatype StringEncoding = Enc_Ascii | Enc_Utf8 | Enc_Ia5 | Enc_Ebcdic
datatype StringPadding = Pad_Null | Pad_Space | Pad_None
datatype StringTrim = Trim_Left | Trim_Right | Trim_Both | Trim_None
datatype DisplayFormat = Fmt_Decimal | Fmt_Hex | Fmt_Octal | Fmt_Binary
datatype ValidateTiming = Val_Immediate | Val_Deferred
datatype Direction = Dir_Both | Dir_Send | Dir_Receive
datatype WireEncoding = Wire_Default | Wire_CB2 | Wire_BNR | Wire_BNR_S | Wire_BCD | Wire_BCD_S
datatype AutoKind = Auto_Id | Auto_Length | Auto_Count | Auto_Increment | Auto_Config | Auto_Timestamp
datatype ArithOp = Arith_None | Arith_Add | Arith_Sub | Arith_Mul | Arith_Div | Arith_Mod

record ArithModifier =
  am_op :: ArithOp
  am_literal :: int
  am_field_ref :: string

definition no_modifier :: ArithModifier where
  "no_modifier = \<lparr>am_op = Arith_None, am_literal = 0, am_field_ref = []\<rparr>"

definition has_modifier :: "ArithModifier \<Rightarrow> bool" where
  "has_modifier m \<longleftrightarrow> am_op m \<noteq> Arith_None"

definition is_field_operand :: "ArithModifier \<Rightarrow> bool" where
  "is_field_operand m \<longleftrightarrow> am_field_ref m \<noteq> []"

record AutoExpr =
  ae_kind :: AutoKind
  ae_field_ref :: string
  ae_key :: string
  ae_modifier :: ArithModifier

definition new_auto_expr :: AutoExpr where
  "new_auto_expr = \<lparr>ae_kind = Auto_Id, ae_field_ref = [], ae_key = [], ae_modifier = no_modifier\<rparr>"

section \<open>Expressions\<close>

datatype BinaryOp =
    Op_Add | Op_Sub | Op_Mul | Op_Div | Op_Mod
  | Op_BitAnd | Op_BitOr | Op_BitXor | Op_ShiftLeft | Op_ShiftRight
  | Op_Eq | Op_Neq | Op_Lt | Op_Lte | Op_Gt | Op_Gte
  | Op_LogAnd | Op_LogOr

datatype UnaryOp = Op_Negate | Op_BitNot | Op_LogNot

datatype Expr =
    NumberLit int
  | BoolLit bool
  | FieldRef string
  | ConstantRef string
  | Remaining
  | Binary BinaryOp Expr Expr
  | Unary UnaryOp Expr

section \<open>Types and fields\<close>

record Constraint =
  con_equals :: "string option"
  con_min :: "string option"
  con_max :: "string option"
  con_validate :: ValidateTiming

record EnumValue =
  ev_name :: string
  ev_id :: int

record FlagDef =
  fl_name :: string
  fl_bit :: int

record Annotation =
  an_name :: string
  an_value :: string

record TypeDef =
  td_name :: string
  td_base :: PrimitiveBase
  td_bits :: int
  td_endian :: ModelEndian
  td_endian_explicit :: bool
  td_format :: DisplayFormat
  td_format_explicit :: bool
  td_wire_encoding :: WireEncoding
  td_wire_encoding_explicit :: bool
  td_scale :: "rat option"
  td_offset :: "rat option"
  td_unit :: "string option"
  td_enum_values :: "EnumValue list"
  td_flags :: "FlagDef list"
  td_constraint :: "Constraint option"
  td_length :: "int option"
  td_encoding :: StringEncoding
  td_encoding_explicit :: bool
  td_padding :: StringPadding
  td_padding_explicit :: bool
  td_trim :: StringTrim
  td_trim_explicit :: bool
  td_terminated :: "string option"
  td_max_length :: "int option"
  td_char_bits :: "int option"
  td_annotations :: "Annotation list"
  td_loc :: string

record Field =
  fd_name :: string
  fd_type_ref :: string
  fd_bits :: "int option"
  fd_bytes_attr :: "int option"
  fd_is_signed :: bool
  fd_base :: "PrimitiveBase option"
  fd_scale :: "rat option"
  fd_offset :: "rat option"
  fd_unit :: "string option"
  fd_enum_values :: "EnumValue list"
  fd_flags :: "FlagDef list"
  fd_constraint :: "Constraint option"
  fd_bit :: "int option"
  fd_present_when :: "Expr option"
  fd_length :: "int option"
  fd_length_star :: bool
  fd_length_from :: "Expr option"
  fd_length_prefix :: "string option"
  fd_length_includes_prefix :: bool
  fd_encoding :: "StringEncoding option"
  fd_padding :: "StringPadding option"
  fd_trim :: "StringTrim option"
  fd_terminated :: "string option"
  fd_max_length :: "int option"
  fd_char_bits :: "int option"
  fd_endian :: ModelEndian
  fd_endian_explicit :: bool
  fd_format :: DisplayFormat
  fd_format_explicit :: bool
  fd_wire_encoding :: "WireEncoding option"
  fd_is_inline :: bool
  fd_default_value :: "string option"
  fd_auto_expr :: "AutoExpr option"
  fd_annotations :: "Annotation list"
  fd_loc :: string

section \<open>Structures\<close>

record StructInfo =
  sd_name :: string
  sd_is_bitmap :: bool
  sd_bitmap_bits :: int
  sd_bitmap_ext :: "int option"
  sd_bitmap_endian :: ModelEndian
  sd_bit :: "int option"
  sd_present_when :: "Expr option"
  sd_type_override :: "string option"
  sd_has_explicit_empty :: bool
  sd_loc :: string

record ArrayInfo =
  ai_name :: string
  ai_type_ref :: string
  ai_fixed_count :: "int option"
  ai_count_from :: "Expr option"
  ai_count_star :: bool
  ai_count_fx :: bool
  ai_length :: "int option"
  ai_length_from :: "Expr option"
  ai_bit :: "int option"
  ai_present_when :: "Expr option"
  ai_type_override :: "string option"
  ai_loc :: string

record CaseInfo =
  ci_name :: string
  ci_type_ref :: string
  ci_value :: "string option"
  ci_range :: "string option"
  ci_direction :: Direction
  ci_type_override :: "string option"
  ci_loc :: string

record OtherwiseInfo =
  oi_name :: string
  oi_type_ref :: string
  oi_type_override :: "string option"
  oi_loc :: string

record ChoiceInfo =
  chi_name :: string
  chi_switch_expr :: "Expr option"
  chi_length :: "int option"
  chi_length_from :: "Expr option"
  chi_bit :: "int option"
  chi_present_when :: "Expr option"
  chi_type_override :: "string option"
  chi_loc :: string

datatype StructChild =
    Child_Field Field
  | Child_Struct StructInfo "StructChild list"
  | Child_Array ArrayInfo "StructChild list"
  | Child_Choice ChoiceInfo "(CaseInfo \<times> StructChild list) list" "(OtherwiseInfo \<times> StructChild list) option"
  | Child_Fx "StructChild list"
  | Child_Reserved int
  | Child_Align int

type_synonym StructDef = "StructInfo \<times> StructChild list"

section \<open>Definitions of a protocol\<close>

record ConstDef =
  cd_name :: string
  cd_type_ref :: string
  cd_value :: string
  cd_loc :: string

record MessageDef =
  md_name :: string
  md_children :: "StructChild list"
  md_id :: string
  md_direction :: Direction
  md_has_explicit_empty :: bool
  md_annotations :: "Annotation list"
  md_loc :: string

record ImportDef =
  imp_href :: string
  imp_ns :: "string option"
  imp_loc :: string

record Defaults =
  df_endian :: ModelEndian
  df_string_encoding :: StringEncoding
  df_string_padding :: StringPadding
  df_string_trim :: StringTrim
  df_namespace :: "string option"

definition BUILTIN_DEFAULTS :: Defaults where
  "BUILTIN_DEFAULTS = \<lparr>df_endian = Endian_Big, df_string_encoding = Enc_Ascii, df_string_padding = Pad_Null,
     df_string_trim = Trim_Right, df_namespace = None\<rparr>"

record PayloadDef =
  pd_is_array :: bool
  pd_length_from :: "Expr option"

record FrameDef =
  fr_name :: string
  fr_header_fields :: "StructChild list"
  fr_payload :: PayloadDef
  fr_footer_fields :: "StructChild list"
  fr_loc :: string

record BmdlFile =
  bf_file_path :: string
  bf_bmdl_version :: string
  bf_has_protocol :: bool
  bf_protocol_name :: string
  bf_protocol_version :: string
  bf_defaults :: Defaults
  bf_imports :: "ImportDef list"
  bf_constants :: "ConstDef list"
  bf_types :: "TypeDef list"
  bf_structs :: "StructDef list"
  bf_messages :: "MessageDef list"
  bf_frames :: "FrameDef list"
  bf_warnings :: "(string \<times> string) list"
  bf_loc :: string

record Protocol =
  pr_name :: string
  pr_version :: string
  pr_bmdl_version :: string
  pr_defaults :: Defaults
  pr_imports :: "ImportDef list"
  pr_constants :: "ConstDef list"
  pr_types :: "TypeDef list"
  pr_structs :: "StructDef list"
  pr_messages :: "MessageDef list"
  pr_frames :: "FrameDef list"
  pr_warnings :: "(string \<times> string) list"
  pr_loc :: string

end
