(* ===== verification/Bgen_Expr.thy ===== *)
theory Bgen_Expr
  imports Bgen_Ast
begin

text \<open>
  The expression language of message descriptions: \<open>bgen/src/parser/expression_parser.cpp\<close>.

  The lexer reads the input from a position; \<open>tokenize\<close> collects its tokens up to the first \<open>Eof\<close>, behind
  which the parser never looks.  The parser is the source's recursive descent on that list: the current token
  is its head and \<open>advance\<close> drops it.  The source has one function per precedence level, from \<open>parse_or\<close>
  (level 0) to \<open>parse_mul\<close> (level 8), which differ in their operators only; they are \<open>parse_level\<close>, with
  \<open>parse_loop\<close> for the loop in each, and level 2, the comparison, takes at most one operator.  \<open>depth\<close> is the
  value of \<open>depth_\<close> when the function is entered.  Errors carry the position of the token they are reported
  at; the positions stored in the tree are left out.
\<close>

section \<open>Lexer\<close>

datatype TokenKind =
    TK_Number | TK_True | TK_False | TK_Remaining
  | TK_Identifier
  | TK_Plus | TK_Minus | TK_Star | TK_Slash | TK_Percent
  | TK_Amp | TK_Pipe | TK_Caret | TK_Tilde
  | TK_ShiftLeft | TK_ShiftRight
  | TK_Eq | TK_Neq | TK_Lt | TK_Lte | TK_Gt | TK_Gte
  | TK_Bang
  | TK_And | TK_Or | TK_Not
  | TK_LParen | TK_RParen | TK_Dot
  | TK_Eof

record Token =
  tk_kind :: TokenKind
  tk_text :: string
  tk_number :: int
  tk_pos :: nat
  tk_has_error :: bool

definition token :: "TokenKind \<Rightarrow> string \<Rightarrow> nat \<Rightarrow> Token" where
  "token k s p = \<lparr>tk_kind = k, tk_text = s, tk_number = 0, tk_pos = p, tk_has_error = False\<rparr>"

definition skip_whitespace :: "string \<Rightarrow> nat" where
  "skip_whitespace rest = length (takeWhile isspace rest)"

text \<open>The text of a number that starts \<open>rest\<close>.\<close>

definition number_text :: "string \<Rightarrow> string" where
  "number_text rest =
     (if length rest > 1 \<and> rest ! 0 = CHR ''0'' \<and> (rest ! 1 = CHR ''x'' \<or> rest ! 1 = CHR ''X'')
      then take 2 rest @ takeWhile isxdigit (drop 2 rest)
      else takeWhile isdigit rest)"

definition lex_number :: "string \<Rightarrow> nat \<Rightarrow> Token" where
  "lex_number rest start =
     (let s = number_text rest
      in case (if hex_prefixed s then from_chars 16 (drop 2 s) else from_chars 10 s) of
           None \<Rightarrow> \<lparr>tk_kind = TK_Number, tk_text = s, tk_number = 0, tk_pos = start, tk_has_error = True\<rparr>
         | Some (v, r) \<Rightarrow> \<lparr>tk_kind = TK_Number, tk_text = s, tk_number = v, tk_pos = start, tk_has_error = False\<rparr>)"

definition name_char :: "char \<Rightarrow> bool" where
  "name_char c \<longleftrightarrow> isalnum c \<or> c = CHR ''_''"

fun identifier_text :: "string \<Rightarrow> string" where
  "identifier_text [] = []"
| "identifier_text (c # cs) =
     (if name_char c then c # identifier_text cs
      else if c = CHR ''-'' \<and> cs \<noteq> [] \<and> name_char (hd cs) then c # identifier_text cs
      else [])"

definition keyword_kind :: "string \<Rightarrow> TokenKind" where
  "keyword_kind s =
     (if s = ''true'' then TK_True else if s = ''false'' then TK_False
      else if s = ''remaining'' then TK_Remaining else if s = ''and'' then TK_And
      else if s = ''or'' then TK_Or else if s = ''not'' then TK_Not else TK_Identifier)"

definition lex_identifier :: "string \<Rightarrow> nat \<Rightarrow> Token" where
  "lex_identifier rest start = (let s = identifier_text rest in token (keyword_kind s) s start)"

definition two_char_kind :: "char \<Rightarrow> char \<Rightarrow> TokenKind option" where
  "two_char_kind c c2 =
     (if c = CHR ''<'' \<and> c2 = CHR ''<'' then Some TK_ShiftLeft
      else if c = CHR ''>'' \<and> c2 = CHR ''>'' then Some TK_ShiftRight
      else if c = CHR ''='' \<and> c2 = CHR ''='' then Some TK_Eq
      else if c = CHR ''!'' \<and> c2 = CHR ''='' then Some TK_Neq
      else if c = CHR ''<'' \<and> c2 = CHR ''='' then Some TK_Lte
      else if c = CHR ''>'' \<and> c2 = CHR ''='' then Some TK_Gte
      else None)"

definition one_char_kind :: "char \<Rightarrow> TokenKind option" where
  "one_char_kind c =
     map_of [(CHR ''+'', TK_Plus), (CHR ''-'', TK_Minus), (CHR ''*'', TK_Star), (CHR ''/'', TK_Slash),
             (CHR ''%'', TK_Percent), (CHR ''&'', TK_Amp), (CHR ''|'', TK_Pipe), (CHR ''^'', TK_Caret),
             (CHR ''~'', TK_Tilde), (CHR ''<'', TK_Lt), (CHR ''>'', TK_Gt), (CHR ''!'', TK_Bang),
             (CHR ''('', TK_LParen), (CHR '')'', TK_RParen), (CHR ''.'', TK_Dot)] c"

text \<open>\<open>next\<close>: the token at a position and the position behind it.\<close>

definition lex_next :: "string \<Rightarrow> nat \<Rightarrow> Token \<times> nat" where
  "lex_next input pos =
     (let pos = pos + skip_whitespace (drop pos input); rest = drop pos input
      in if rest = [] then (token TK_Eof [] pos, pos)
         else
           let c = hd rest
           in if isdigit c then let t = lex_number rest pos in (t, pos + length (tk_text t))
              else if isalpha c \<or> c = CHR ''_''
              then let t = lex_identifier rest pos in (t, pos + length (tk_text t))
              else case (if length rest > 1 then two_char_kind c (rest ! 1) else None) of
                     Some k \<Rightarrow> (token k (take 2 rest) pos, pos + 2)
                   | None \<Rightarrow>
                       (case one_char_kind c of
                          Some k \<Rightarrow> (token k [c] pos, pos + 1)
                        | None \<Rightarrow>
                            ((token TK_Eof [c] pos)\<lparr>tk_has_error := True\<rparr>, pos + 1)))"

lemma number_text_nonempty: "rest \<noteq> [] \<Longrightarrow> isdigit (hd rest) \<Longrightarrow> number_text rest \<noteq> []"
  by (cases rest) (auto simp: number_text_def)

lemma identifier_text_nonempty: "rest \<noteq> [] \<Longrightarrow> isalpha (hd rest) \<or> hd rest = CHR ''_'' \<Longrightarrow> identifier_text rest \<noteq> []"
  by (cases rest) (auto simp: name_char_def isalnum_def)

lemma lex_number_text [simp]: "tk_text (lex_number rest p) = number_text rest" "tk_kind (lex_number rest p) = TK_Number"
  by (simp_all add: lex_number_def Let_def split: option.split prod.split)

lemma lex_identifier_text [simp]: "tk_text (lex_identifier rest p) = identifier_text rest"
  by (simp add: lex_identifier_def token_def Let_def)

lemma lex_next_progress:
  assumes "lex_next input pos = (t, pos')" and "tk_kind t \<noteq> TK_Eof"
  shows "pos < pos' \<and> pos < length input"
proof -
  define p where "p = pos + skip_whitespace (drop pos input)"
  define rest where "rest = drop p input"
  note l = assms(1) [unfolded lex_next_def Let_def, folded p_def, folded rest_def]
  have ne: "rest \<noteq> []" using l assms(2) by (auto simp: token_def)
  then have "pos < length input" by (auto simp: rest_def p_def)
  moreover have "p < pos'"
    using l ne assms(2) number_text_nonempty [OF ne] identifier_text_nonempty [OF ne]
    by (auto simp: token_def split: if_splits option.splits)
  ultimately show ?thesis by (simp add: p_def)
qed

function tokenize :: "string \<Rightarrow> nat \<Rightarrow> Token list" where
  "tokenize input pos =
     (case lex_next input pos of
        (t, pos) \<Rightarrow> if tk_kind t = TK_Eof then [t] else t # tokenize input pos)"
  by pat_completeness auto
termination
  by (relation "measure (\<lambda>(input, pos). length input - pos)") (auto dest!: lex_next_progress [OF sym])

declare tokenize.simps [simp del]

section \<open>Parser\<close>

record ParseError =
  pe_message :: string
  pe_pos :: nat

type_synonym parse_result = "(ParseError + Expr) \<times> Token list"

definition current :: "Token list \<Rightarrow> Token" where
  "current ts = (case ts of [] \<Rightarrow> token TK_Eof [] 0 | t # ts \<Rightarrow> t)"

abbreviation kind :: "Token list \<Rightarrow> TokenKind" where
  "kind ts \<equiv> tk_kind (current ts)"

definition parse_error :: "string \<Rightarrow> Token list \<Rightarrow> parse_result" where
  "parse_error msg ts = (Inl \<lparr>pe_message = msg, pe_pos = tk_pos (current ts)\<rparr>, ts)"

definition MAX_EXPR_DEPTH :: nat where
  "MAX_EXPR_DEPTH = 128"

definition is_constant_name :: "string \<Rightarrow> bool" where
  "is_constant_name name \<longleftrightarrow>
     CHR ''.'' \<notin> set name \<and> list_all (\<lambda>c. c = CHR ''_'' \<or> isupper c \<or> isdigit c) name \<and>
     name \<noteq> [] \<and> isupper (hd name)"

definition make_ref :: "string \<Rightarrow> Expr" where
  "make_ref name = (if is_constant_name name then ConstantRef name else FieldRef name)"

text \<open>The operators of a precedence level.\<close>

definition binary_op :: "nat \<Rightarrow> TokenKind \<Rightarrow> BinaryOp option" where
  "binary_op level k =
     (if level > 8 then None
      else map_of ([[(TK_Or, Op_LogOr)],
              [(TK_And, Op_LogAnd)],
              [(TK_Eq, Op_Eq), (TK_Neq, Op_Neq), (TK_Lt, Op_Lt), (TK_Lte, Op_Lte), (TK_Gt, Op_Gt), (TK_Gte, Op_Gte)],
              [(TK_Pipe, Op_BitOr)],
              [(TK_Caret, Op_BitXor)],
              [(TK_Amp, Op_BitAnd)],
              [(TK_ShiftLeft, Op_ShiftLeft), (TK_ShiftRight, Op_ShiftRight)],
              [(TK_Plus, Op_Add), (TK_Minus, Op_Sub)],
              [(TK_Star, Op_Mul), (TK_Slash, Op_Div), (TK_Percent, Op_Mod)]] ! level) k)"

definition unary_op :: "TokenKind \<Rightarrow> UnaryOp option" where
  "unary_op k =
     (if k = TK_Not \<or> k = TK_Bang then Some Op_LogNot
      else if k = TK_Minus then Some Op_Negate
      else if k = TK_Tilde then Some Op_BitNot
      else None)"

lemma kind_nonempty: "kind ts \<noteq> TK_Eof \<Longrightarrow> 0 < length ts"
  by (auto simp: current_def token_def split: list.splits)

text \<open>The rest of a dotted path; \<open>None\<close> is a missing identifier.\<close>

function parse_path :: "string \<Rightarrow> Token list \<Rightarrow> string option \<times> Token list" where
  "parse_path name ts =
     (if kind ts = TK_Dot then
        if kind (tl ts) \<noteq> TK_Identifier then (None, tl ts)
        else parse_path (name @ ''.'' @ tk_text (current (tl ts))) (tl (tl ts))
      else (Some name, ts))"
  by pat_completeness auto
termination
proof (relation "measure (\<lambda>(name, ts). length ts)", goal_cases)
  case (2 name ts)
  then have "0 < length ts" by (intro kind_nonempty) simp
  then show ?case by simp
qed simp

declare parse_path.simps [simp del]

lemma binary_op_kind: "binary_op level k = Some op \<Longrightarrow> k \<noteq> TK_Eof"
  by (auto simp: binary_op_def nth_Cons' split: if_splits)

lemma unary_op_kind: "unary_op k = Some op \<Longrightarrow> k \<noteq> TK_Eof"
  by (auto simp: unary_op_def split: if_splits)

text \<open>The order that the calls of the parser descend.\<close>

definition parse_order :: "((nat \<times> nat \<times> Token list + nat \<times> nat \<times> Expr \<times> Token list) + (nat \<times> Token list + nat \<times> Token list)) \<Rightarrow> nat \<times> nat" where
  "parse_order x = (case x of
       Inl (Inl (d, l, ts)) \<Rightarrow> (length ts, 12 - min l 9)
     | Inl (Inr (d, l, e, ts)) \<Rightarrow> (length ts, 0)
     | Inr (Inl (d, ts)) \<Rightarrow> (length ts, 2)
     | Inr (Inr (d, ts)) \<Rightarrow> (length ts, 1))"

function parse_level :: "nat \<Rightarrow> nat \<Rightarrow> Token list \<Rightarrow> parse_result"
  and parse_loop :: "nat \<Rightarrow> nat \<Rightarrow> Expr \<Rightarrow> Token list \<Rightarrow> parse_result"
  and parse_unary :: "nat \<Rightarrow> Token list \<Rightarrow> parse_result"
  and parse_primary :: "nat \<Rightarrow> Token list \<Rightarrow> parse_result" where
  "parse_level depth level ts =
     (if level > 8 then parse_unary depth ts
      else
        let depth = (if level = 0 then Suc depth else depth)
        in if level = 0 \<and> depth > MAX_EXPR_DEPTH
           then parse_error (''expression nesting too deep (>'' @ to_string MAX_EXPR_DEPTH @ '' levels)'') ts
           else case parse_level depth (Suc level) ts of
                  (Inl e, ts) \<Rightarrow> (Inl e, ts)
                | (Inr left, ts) \<Rightarrow>
                    if level = 2
                    then case binary_op level (kind ts) of
                           None \<Rightarrow> (Inr left, ts)
                         | Some op \<Rightarrow>
                             (case parse_level depth (Suc level) (tl ts) of
                                (Inl e, ts) \<Rightarrow> (Inl e, ts)
                              | (Inr right, ts) \<Rightarrow> (Inr (Binary op left right), ts))
                    else parse_loop depth level left ts)"
| "parse_loop depth level left ts =
     (case binary_op level (kind ts) of
        None \<Rightarrow> (Inr left, ts)
      | Some op \<Rightarrow>
          (case parse_level depth (Suc level) (tl ts) of
             (Inl e, ts) \<Rightarrow> (Inl e, ts)
           | (Inr right, ts) \<Rightarrow> parse_loop depth level (Binary op left right) ts))"
| "parse_unary depth ts =
     (case unary_op (kind ts) of
        Some op \<Rightarrow>
          (case parse_unary depth (tl ts) of
             (Inl e, ts) \<Rightarrow> (Inl e, ts)
           | (Inr operand, ts) \<Rightarrow> (Inr (Unary op operand), ts))
      | None \<Rightarrow> parse_primary depth ts)"
| "parse_primary depth ts =
     (let t = current ts; k = tk_kind t
      in if k = TK_Number then
           (if tk_has_error t then parse_error (''numeric literal too large: '' @ tk_text t) ts
            else (Inr (NumberLit (tk_number t)), tl ts))
         else if k = TK_True then (Inr (BoolLit True), tl ts)
         else if k = TK_False then (Inr (BoolLit False), tl ts)
         else if k = TK_Remaining then (Inr Remaining, tl ts)
         else if k = TK_Identifier then
           (case parse_path (tk_text t) (tl ts) of
              (None, ts) \<Rightarrow> parse_error (''expected identifier after '' @ [CHR 0x27, CHR ''.'', CHR 0x27]) ts
            | (Some name, ts) \<Rightarrow> (Inr (make_ref name), ts))
         else if k = TK_LParen then
           (case parse_level depth 0 (tl ts) of
              (Inl e, ts) \<Rightarrow> (Inl e, ts)
            | (Inr e, ts) \<Rightarrow>
                if kind ts \<noteq> TK_RParen then parse_error (''expected '' @ [CHR 0x27, CHR '')'', CHR 0x27]) ts
                else (Inr e, tl ts))
         else if k = TK_Eof \<and> tk_has_error t then parse_error (''unexpected character: '' @ tk_text t) ts
         else parse_error (''expected expression, got: '' @ (if k = TK_Eof then ''end of input'' else tk_text t)) ts)"
  by pat_completeness auto

lemma parse_path_shorter: "parse_path name ts = (r, ts') \<Longrightarrow> length ts' \<le> length ts"
proof (induction name ts rule: parse_path.induct)
  case (1 name ts)
  show ?case
  proof (cases "kind ts = TK_Dot \<and> kind (tl ts) = TK_Identifier")
    case True
    then have "length ts' \<le> length (tl (tl ts))" using 1 by (simp add: parse_path.simps [of name ts])
    then show ?thesis by simp
  next
    case False
    then show ?thesis using "1.prems" by (auto simp: parse_path.simps [of name ts] split: if_splits)
  qed
qed

lemma parse_error_rest [simp]: "snd (parse_error msg ts) = ts"
  by (simp add: parse_error_def)

lemma parse_shorter_dom:
  "parse_level_parse_loop_parse_unary_parse_primary_dom (Inl (Inl (d, l, ts))) \<Longrightarrow> length (snd (parse_level d l ts)) \<le> length ts"
  "parse_level_parse_loop_parse_unary_parse_primary_dom (Inl (Inr (d, l, x, ts))) \<Longrightarrow> length (snd (parse_loop d l x ts)) \<le> length ts"
  "parse_level_parse_loop_parse_unary_parse_primary_dom (Inr (Inl (d, ts))) \<Longrightarrow> length (snd (parse_unary d ts)) \<le> length ts"
  "parse_level_parse_loop_parse_unary_parse_primary_dom (Inr (Inr (d, ts))) \<Longrightarrow> length (snd (parse_primary d ts)) \<le> length ts"
proof (induction d l ts and d l x ts and d ts and d ts rule: parse_level_parse_loop_parse_unary_parse_primary.pinduct)
  case (1 d l ts)
  define d' where "d' = (if l = 0 then Suc d else d)"
  note IH = "1.IH" [unfolded Let_def, folded d'_def]
  note eq = parse_level.psimps [OF "1.hyps", unfolded Let_def, folded d'_def]
  show ?case
  proof (cases "l > 8 \<or> l = 0 \<and> d' > MAX_EXPR_DEPTH")
    case True
    then show ?thesis using IH(1) by (auto simp: eq)
  next
    case False
    obtain r ts1 where s: "parse_level d' (Suc l) ts = (r, ts1)" by fastforce
    have len: "length ts1 \<le> length ts" using IH(2) False s by auto
    show ?thesis
    proof (cases r)
      case (Inr x)
      have right: "length (snd (parse_level d' (Suc l) (tl ts1))) \<le> length (tl ts1)" if "l = 2" "binary_op l (kind ts1) = Some op" for op
        using IH(3) [OF _ refl _ s [symmetric] Inr] that False by auto
      have loop: "length (snd (parse_loop d' l x ts1)) \<le> length ts1" if "l \<noteq> 2"
        using IH(4) [OF _ refl _ s [symmetric] Inr that] False by auto
      obtain r2 ts2 where t: "parse_level d' (Suc l) (tl ts1) = (r2, ts2)" by fastforce
      have two: "length ts2 \<le> length ts" if "l = 2" "binary_op l (kind ts1) = Some op" for op
        using right [OF that] t len by simp
      have other: "length (snd (parse_loop d' l x ts1)) \<le> length ts" if "l \<noteq> 2"
        using loop [OF that] len by simp
      show ?thesis
      proof (cases "l = 2")
        case True
        show ?thesis
        proof (cases "binary_op l (kind ts1)")
          case None
          then show ?thesis unfolding eq s Inr prod.case sum.case using len True False by simp
        next
          case (Some op)
          show ?thesis using two [OF True Some]
            unfolding eq s Inr prod.case sum.case t Some using True False by (cases r2) simp_all
        qed
      next
        case no: False
        then show ?thesis using other False unfolding eq s Inr prod.case sum.case by simp
      qed
    qed (use False s len in \<open>simp add: eq\<close>)
  qed
next
  case (2 d l x ts)
  note eq = parse_loop.psimps [OF "2.hyps"]
  show ?case
    using "2.IH" by (fastforce simp: eq split: option.splits prod.splits sum.splits intro: le_trans)
next
  case (3 d ts)
  note eq = parse_unary.psimps [OF "3.hyps"]
  show ?case
    using "3.IH" by (fastforce simp: eq split: option.splits prod.splits sum.splits intro: le_trans)
next
  case (4 d ts)
  note eq = parse_primary.psimps [OF "4.hyps"]
  show ?case
  proof (cases "kind ts = TK_LParen")
    case True
    then have "length (snd (parse_level d 0 (tl ts))) \<le> length (tl ts)" by (intro "4.IH") auto
    then show ?thesis unfolding eq using True
      by (auto simp: Let_def parse_error_def split: prod.split sum.split)
  next
    case False
    obtain r ts1 where p: "parse_path (tk_text (current ts)) (tl ts) = (r, ts1)" by fastforce
    then show ?thesis unfolding eq using False parse_path_shorter [OF p]
      by (cases r) (auto simp: Let_def parse_error_def)
  qed
qed

lemma kind_shorter: "kind ts \<noteq> TK_Eof \<Longrightarrow> length (tl ts) < length ts"
  using kind_nonempty [of ts] by simp

lemma op_shorter:
  "binary_op l (kind ts) = Some op \<Longrightarrow> length (tl ts) < length ts"
  "unary_op (kind ts) = Some uop \<Longrightarrow> length (tl ts) < length ts"
  by (rule kind_shorter, erule binary_op_kind, rule kind_shorter, erule unary_op_kind)

lemmas parse_order_simps = parse_order_def in_inv_image in_lex_prod less_than_iff sum.case prod.case

termination parse_level
proof (relation "inv_image (less_than <*lex*> less_than) parse_order", goal_cases)
  case 1
  show ?case by (intro wf_inv_image wf_lex_prod wf_less_than)
next
  case (4 d l ts d' r ts1 x op)
  have "length ts1 \<le> length ts" using parse_shorter_dom(1) [OF 4(8)] 4(4) [symmetric] by simp
  then show ?case using op_shorter(1) [OF 4(7)] unfolding parse_order_simps by linarith
next
  case (5 d l ts d' r ts1 x)
  have "length ts1 \<le> length ts" using parse_shorter_dom(1) [OF 5(7)] 5(4) [symmetric] by simp
  then show ?case using 5(1) unfolding parse_order_simps by (simp add: less_le)
next
  case (6 d l x ts op)
  then show ?case using op_shorter(1) [OF 6] unfolding parse_order_simps by simp
next
  case (7 d l x ts op r ts1 y)
  have "length ts1 \<le> length (tl ts)" using parse_shorter_dom(1) [OF 7(4)] 7(2) [symmetric] by simp
  then show ?case using op_shorter(1) [OF 7(1)] unfolding parse_order_simps by linarith
next
  case (9 d ts op)
  then show ?case using op_shorter(2) [OF 9] unfolding parse_order_simps by simp
next
  case (10 d ts t k)
  then show ?case using kind_shorter [of ts] unfolding parse_order_simps by simp
qed (simp_all add: parse_order_def)

declare parse_level.simps [simp del] parse_loop.simps [simp del] parse_unary.simps [simp del] parse_primary.simps [simp del]

text \<open>\<open>ExprParser::parse\<close> and \<open>parse_expression\<close>.\<close>

definition parse_tokens :: "Token list \<Rightarrow> ParseError + Expr" where
  "parse_tokens ts =
     (case parse_level 0 0 ts of
        (Inl e, ts) \<Rightarrow> Inl e
      | (Inr e, ts) \<Rightarrow>
          if kind ts \<noteq> TK_Eof then fst (parse_error (''unexpected token after expression: '' @ tk_text (current ts)) ts)
          else if tk_has_error (current ts)
          then fst (parse_error (''unexpected character in expression: '' @ tk_text (current ts)) ts)
          else Inr e)"

definition parse_expression :: "string \<Rightarrow> ParseError + Expr" where
  "parse_expression input = parse_tokens (tokenize input 0)"

end
