(* ===== verification/Bgen_Expr_Print.thy ===== *)
theory Bgen_Expr_Print
  imports Bgen_Expr
begin

text \<open>
  The expression parser against a printer.  \<open>print_tokens\<close> writes an expression with as few parentheses as
  the precedence levels of the grammar allow; the parser gives the expression back, so that precedence,
  associativity and the single comparison of level 2 are those of the printer.  \<open>parens\<close> counts the nesting of
  parentheses, which is what the parser's depth limit is about.
\<close>

section \<open>Printer\<close>

definition op_token :: "BinaryOp \<Rightarrow> nat \<times> TokenKind \<times> string" where
  "op_token op =
     (case op of
        Op_LogOr \<Rightarrow> (0, TK_Or, ''or'') | Op_LogAnd \<Rightarrow> (1, TK_And, ''and'')
      | Op_Eq \<Rightarrow> (2, TK_Eq, ''=='') | Op_Neq \<Rightarrow> (2, TK_Neq, ''!='') | Op_Lt \<Rightarrow> (2, TK_Lt, ''<'')
      | Op_Lte \<Rightarrow> (2, TK_Lte, ''<='') | Op_Gt \<Rightarrow> (2, TK_Gt, ''>'') | Op_Gte \<Rightarrow> (2, TK_Gte, ''>='')
      | Op_BitOr \<Rightarrow> (3, TK_Pipe, ''|'') | Op_BitXor \<Rightarrow> (4, TK_Caret, ''^'') | Op_BitAnd \<Rightarrow> (5, TK_Amp, ''&'')
      | Op_ShiftLeft \<Rightarrow> (6, TK_ShiftLeft, ''<<'') | Op_ShiftRight \<Rightarrow> (6, TK_ShiftRight, ''>>'')
      | Op_Add \<Rightarrow> (7, TK_Plus, ''+'') | Op_Sub \<Rightarrow> (7, TK_Minus, ''-'')
      | Op_Mul \<Rightarrow> (8, TK_Star, ''*'') | Op_Div \<Rightarrow> (8, TK_Slash, ''/'') | Op_Mod \<Rightarrow> (8, TK_Percent, ''%''))"

abbreviation op_level :: "BinaryOp \<Rightarrow> nat" where
  "op_level op \<equiv> fst (op_token op)"

abbreviation sym_token :: "TokenKind \<times> string \<Rightarrow> Token" where
  "sym_token ks \<equiv> token (fst ks) (snd ks) 0"

definition unary_token :: "UnaryOp \<Rightarrow> Token" where
  "unary_token op =
     (case op of Op_LogNot \<Rightarrow> sym_token (TK_Not, ''not'') | Op_Negate \<Rightarrow> sym_token (TK_Minus, ''-'') | Op_BitNot \<Rightarrow> sym_token (TK_Tilde, ''~''))"

definition number_token :: "nat \<Rightarrow> Token" where
  "number_token n =
     \<lparr>tk_kind = TK_Number, tk_text = to_string n, tk_number = int n, tk_pos = 0, tk_has_error = False\<rparr>"

fun name_parts :: "string \<Rightarrow> string list" where
  "name_parts [] = [[]]"
| "name_parts (c # cs) =
     (if c = CHR ''.'' then [] # name_parts cs
      else case name_parts cs of [] \<Rightarrow> [[c]] | p # ps \<Rightarrow> (c # p) # ps)"

abbreviation ident :: "string \<Rightarrow> Token" where
  "ident s \<equiv> token TK_Identifier s 0"

abbreviation dotted :: "string list \<Rightarrow> Token list" where
  "dotted ps \<equiv> concat (map (\<lambda>p. [token TK_Dot ''.'' 0, ident p]) ps)"

definition name_tokens :: "string \<Rightarrow> Token list" where
  "name_tokens name = (case name_parts name of [] \<Rightarrow> [] | p # ps \<Rightarrow> ident p # dotted ps)"

definition precedence :: "Expr \<Rightarrow> nat" where
  "precedence e = (case e of Binary op a b \<Rightarrow> op_level op | _ \<Rightarrow> 9)"

definition left_level :: "BinaryOp \<Rightarrow> nat" where
  "left_level op = (if op_level op = 2 then 3 else op_level op)"

definition paren :: "bool \<Rightarrow> Token list \<Rightarrow> Token list" where
  "paren b ts = (if b then token TK_LParen ''('' 0 # ts @ [token TK_RParen '')'' 0] else ts)"

fun bare_tokens :: "Expr \<Rightarrow> Token list" where
  "bare_tokens (NumberLit v) = [number_token (nat v)]"
| "bare_tokens (BoolLit b) = [if b then sym_token (TK_True, ''true'') else sym_token (TK_False, ''false'')]"
| "bare_tokens Remaining = [sym_token (TK_Remaining, ''remaining'')]"
| "bare_tokens (FieldRef name) = name_tokens name"
| "bare_tokens (ConstantRef name) = name_tokens name"
| "bare_tokens (Unary op a) = unary_token op # paren (precedence a < 9) (bare_tokens a)"
| "bare_tokens (Binary op a b) =
     paren (precedence a < left_level op) (bare_tokens a) @ sym_token (snd (op_token op)) #
     paren (precedence b < Suc (op_level op)) (bare_tokens b)"

abbreviation level_tokens :: "nat \<Rightarrow> Expr \<Rightarrow> Token list" where
  "level_tokens l e \<equiv> paren (precedence e < l) (bare_tokens e)"

definition print_expr :: "Expr \<Rightarrow> string" where
  "print_expr e = concat (map (\<lambda>t. tk_text t @ '' '') (bare_tokens e))"

text \<open>Nesting of parentheses, without and with those around the expression itself.\<close>

fun parens :: "Expr \<Rightarrow> nat" where
  "parens (Unary op a) = parens a + of_bool (precedence a < 9)"
| "parens (Binary op a b) =
     max (parens a + of_bool (precedence a < left_level op)) (parens b + of_bool (precedence b < Suc (op_level op)))"
| "parens e = 0"

text \<open>The names the lexer can read, and the expressions the parser can return.\<close>

definition plain_name :: "string \<Rightarrow> bool" where
  "plain_name s \<longleftrightarrow>
     s \<noteq> [] \<and> (isalpha (hd s) \<or> hd s = CHR ''_'') \<and> identifier_text s = s \<and> keyword_kind s = TK_Identifier"

fun printable :: "Expr \<Rightarrow> bool" where
  "printable (NumberLit v) \<longleftrightarrow> 0 \<le> v \<and> v < 2 ^ 63"
| "printable (FieldRef name) \<longleftrightarrow> list_all plain_name (name_parts name) \<and> \<not> is_constant_name name"
| "printable (ConstantRef name) \<longleftrightarrow> list_all plain_name (name_parts name) \<and> is_constant_name name"
| "printable (Unary op a) \<longleftrightarrow> printable a"
| "printable (Binary op a b) \<longleftrightarrow> printable a \<and> printable b"
| "printable e \<longleftrightarrow> True"

section \<open>Parsing what was printed\<close>

text \<open>Tokens up to their position.\<close>

abbreviation unpos :: "Token \<Rightarrow> Token" where
  "unpos t \<equiv> t\<lparr>tk_pos := 0\<rparr>"

lemma unpos_eqD:
  "unpos t = u \<Longrightarrow> tk_kind t = tk_kind u \<and> tk_text t = tk_text u \<and> tk_number t = tk_number u \<and> tk_has_error t = tk_has_error u"
  by (cases t; cases u) simp

lemma current_Cons [simp]: "current (t # ts) = t"
  by (simp add: current_def)

lemma binary_op_token: "binary_op l (fst (snd (op_token op))) = (if l = op_level op then Some op else None)"
proof -
  have "l \<in> {0..8} \<or> l > 8" by auto
  then have "l \<in> {0, 1, 2, 3, 4, 5, 6, 7, 8} \<or> l > 8" by (simp add: atLeastAtMost_iff) presburger
  then show ?thesis by (cases op) (auto simp: binary_op_def op_token_def)
qed

lemma op_level_le: "op_level op \<le> 8"
  by (cases op) (simp_all add: op_token_def)

lemma op_token_not_dot: "fst (snd (op_token op)) \<noteq> TK_Dot"
  by (cases op) (simp_all add: op_token_def)

lemma unary_op_token: "unary_op (tk_kind (unary_token op)) = Some op"
  by (cases op) (simp_all add: unary_token_def token_def unary_op_def)

lemma binary_op_9 [simp]: "8 < l \<Longrightarrow> binary_op l k = None"
  by (simp add: binary_op_def)

lemma level_9 [simp]: "parse_level d 9 ts = parse_unary d ts"
  by (simp add: parse_level.simps)

lemma name_parts_nonempty: "name_parts s \<noteq> []"
  by (cases s rule: name_parts.cases) (auto split: list.split)

lemma name_parts_join: "hd (name_parts s) @ concat (map (\<lambda>p. CHR ''.'' # p) (tl (name_parts s))) = s"
  by (induction s) (auto split: list.split simp: name_parts_nonempty)

lemma parse_path_dotted:
  assumes "map unpos ts = dotted ps" and "kind rest \<noteq> TK_Dot"
  shows "parse_path name (ts @ rest) = (Some (name @ concat (map (\<lambda>p. CHR ''.'' # p) ps)), rest)"
  using assms(1)
proof (induction ps arbitrary: name ts)
  case Nil
  then show ?case using assms(2) by (simp add: parse_path.simps [of _ rest])
next
  case (Cons p ps)
  then obtain t u us where ts: "ts = t # u # us" and t: "unpos t = token TK_Dot ''.'' 0" and u: "unpos u = ident p"
    and us: "map unpos us = dotted ps" by (auto simp: map_eq_Cons_conv)
  show ?case
    using Cons.IH [OF us] unpos_eqD [OF t] unpos_eqD [OF u] by (simp add: ts parse_path.simps [of name] token_def)
qed

definition stops :: "nat \<Rightarrow> Token list \<Rightarrow> bool" where
  "stops l rest \<longleftrightarrow> kind rest \<noteq> TK_Dot \<and> (\<forall>k\<ge>l. binary_op k (kind rest) = None)"

definition inner_depth :: "nat \<Rightarrow> nat \<Rightarrow> nat" where
  "inner_depth d l = (if l = 0 then Suc d else d)"

abbreviation level_parens :: "nat \<Rightarrow> Expr \<Rightarrow> nat" where
  "level_parens l e \<equiv> parens e + of_bool (precedence e < l)"

text \<open>At level \<open>l\<close> the printed expression is read up to the loop of that level.\<close>

definition reads :: "nat \<Rightarrow> Expr \<Rightarrow> bool" where
  "reads l e \<longleftrightarrow> (\<forall>d ts rest.
     map unpos ts = level_tokens l e \<longrightarrow> inner_depth d l + level_parens l e \<le> MAX_EXPR_DEPTH \<longrightarrow> stops (Suc l) rest \<longrightarrow>
     (l = 2 \<longrightarrow> binary_op l (kind rest) = None) \<longrightarrow>
     parse_level d l (ts @ rest) = (if l = 2 then (Inr e, rest) else parse_loop (inner_depth d l) l e rest))"

lemma readsD:
  assumes "reads l e" "map unpos ts = level_tokens l e" "inner_depth d l + level_parens l e \<le> MAX_EXPR_DEPTH" "stops l rest"
  shows "parse_level d l (ts @ rest) = (Inr e, rest)"
proof -
  have s: "stops (Suc l) rest" and n: "binary_op l (kind rest) = None" using assms(4) by (simp_all add: stops_def)
  have "parse_level d l (ts @ rest) = (if l = 2 then (Inr e, rest) else parse_loop (inner_depth d l) l e rest)"
    by (rule assms(1) [unfolded reads_def, rule_format, OF assms(2,3) s]) (rule n)
  then show ?thesis using n by (simp add: parse_loop.simps [of _ _ e])
qed

lemma reads_9D:
  assumes "reads 9 e" "map unpos ts = level_tokens 9 e" "d + level_parens 9 e \<le> MAX_EXPR_DEPTH" "kind rest \<noteq> TK_Dot"
  shows "parse_unary d (ts @ rest) = (Inr e, rest)"
  using readsD [OF assms(1,2), of d rest] assms(3,4) by (simp add: inner_depth_def stops_def)

lemma reads_down:
  assumes r: "reads (Suc l) e" and l: "l \<le> 8" "precedence e \<noteq> l"
  shows "reads l e"
  unfolding reads_def
proof (intro allI impI)
  fix d ts rest
  assume t: "map unpos ts = level_tokens l e" and d: "inner_depth d l + level_parens l e \<le> MAX_EXPR_DEPTH"
    and s: "stops (Suc l) rest" and two: "l = 2 \<longrightarrow> binary_op l (kind rest) = None"
  have same: "precedence e < Suc l \<longleftrightarrow> precedence e < l" using l by linarith
  have "parse_level (inner_depth d l) (Suc l) (ts @ rest) = (Inr e, rest)"
    by (rule readsD [OF r _ _ s]) (use t d same in \<open>simp_all add: inner_depth_def\<close>)
  then show "parse_level d l (ts @ rest) = (if l = 2 then (Inr e, rest) else parse_loop (inner_depth d l) l e rest)"
    using l(1) d two by (simp add: parse_level.simps [of d l] inner_depth_def Let_def)
qed

lemma reads_down_to:
  assumes "reads m e" "l \<le> m" "m \<le> 9" "\<And>k. l \<le> k \<Longrightarrow> k < m \<Longrightarrow> precedence e \<noteq> k"
  shows "reads l e"
  using assms(2,1,3,4)
proof (induction rule: inc_induct)
  case (step n)
  then show ?case by (intro reads_down [of n]) auto
qed

lemma reads_binary_level:
  assumes a: "reads (left_level op) a" and b: "reads (Suc (op_level op)) b"
  shows "reads (op_level op) (Binary op a b)"
  unfolding reads_def
proof (intro allI impI)
  let ?l = "op_level op"
  fix d ts rest
  assume t: "map unpos ts = level_tokens ?l (Binary op a b)" and d: "inner_depth d ?l + level_parens ?l (Binary op a b) \<le> MAX_EXPR_DEPTH"
    and s: "stops (Suc ?l) rest" and two: "?l = 2 \<longrightarrow> binary_op ?l (kind rest) = None"
  obtain as u bs where ts: "ts = as @ u # bs" and as: "map unpos as = level_tokens (left_level op) a"
    and u: "unpos u = sym_token (snd (op_token op))" and bs: "map unpos bs = level_tokens (Suc ?l) b"
    using t by (auto simp: precedence_def paren_def map_eq_append_conv map_eq_Cons_conv)
  have k: "tk_kind u = fst (snd (op_token op))" using unpos_eqD [OF u] by (simp add: token_def)
  have dl: "inner_depth d ?l + level_parens (left_level op) a \<le> MAX_EXPR_DEPTH"
    and dr: "inner_depth d ?l + level_parens (Suc ?l) b \<le> MAX_EXPR_DEPTH" using d by (simp_all add: precedence_def)
  have right: "parse_level (inner_depth d ?l) (Suc ?l) (bs @ rest) = (Inr b, rest)"
    by (rule readsD [OF b bs _ s]) (use dr in \<open>simp add: inner_depth_def\<close>)
  have su: "stops (Suc ?l) (u # bs @ rest)" "op_level op = 2 \<Longrightarrow> stops 3 (u # bs @ rest)"
    using op_token_not_dot [of op] by (auto simp: stops_def k binary_op_token)
  show "parse_level d ?l (ts @ rest) = (if ?l = 2 then (Inr (Binary op a b), rest) else parse_loop (inner_depth d ?l) ?l (Binary op a b) rest)"
  proof (cases "?l = 2")
    case True
    have "parse_level (inner_depth d ?l) (Suc ?l) (as @ u # bs @ rest) = (Inr a, u # bs @ rest)"
      using readsD [OF a as _ , of "inner_depth d ?l" "u # bs @ rest"] dl su(2) True by (simp add: left_level_def inner_depth_def)
    then show ?thesis using right True k
      by (simp add: ts parse_level.simps [of d 2] inner_depth_def binary_op_token)
  next
    case False
    then have "parse_level d ?l (as @ u # bs @ rest) = parse_loop (inner_depth d ?l) ?l a (u # bs @ rest)"
      using a as dl su by (simp add: reads_def left_level_def)
    then show ?thesis using right False k by (simp add: ts parse_loop.simps [of _ _ a] binary_op_token)
  qed
qed

lemma reads_parens:
  assumes "precedence e < 9" "reads 0 e"
  shows "reads 9 e"
  unfolding reads_def
proof (intro allI impI)
  fix d ts rest
  assume t: "map unpos ts = level_tokens 9 e" and d: "inner_depth d 9 + level_parens 9 e \<le> MAX_EXPR_DEPTH"
    and s: "stops (Suc 9) rest"
  obtain u es v where ts: "ts = u # es @ [v]" and u: "unpos u = token TK_LParen ''('' 0"
    and es: "map unpos es = level_tokens 0 e" and v: "unpos v = token TK_RParen '')'' 0"
    using t assms(1) by (auto simp: paren_def map_eq_append_conv map_eq_Cons_conv)
  have k: "tk_kind u = TK_LParen" "tk_kind v = TK_RParen" using unpos_eqD [OF u] unpos_eqD [OF v] by (simp_all add: token_def)
  have "stops 0 (v # rest)"
    by (auto simp: stops_def k binary_op_def nth_Cons' split: if_splits)
  then have "parse_level d 0 (es @ v # rest) = (Inr e, v # rest)"
    using readsD [OF assms(2) es, of d] d assms(1) by (simp add: inner_depth_def)
  then show "parse_level d 9 (ts @ rest) = (if (9::nat) = 2 then (Inr e, rest) else parse_loop (inner_depth d 9) 9 e rest)"
    by (simp add: ts parse_unary.simps [of _ "u # _"] parse_primary.simps [of _ "u # _"] k unary_op_def Let_def parse_loop.simps)
qed

lemma reads_atom:
  assumes "precedence e = 9"
    and "\<And>d ts rest. map unpos ts = bare_tokens e \<Longrightarrow> d + parens e \<le> MAX_EXPR_DEPTH \<Longrightarrow> kind rest \<noteq> TK_Dot \<Longrightarrow>
           parse_unary d (ts @ rest) = (Inr e, rest)"
  shows "reads 9 e"
  using assms by (simp add: reads_def paren_def stops_def inner_depth_def parse_loop.simps)

lemma parse_unary_name:
  assumes "map unpos ts = name_tokens name" "kind rest \<noteq> TK_Dot"
  shows "parse_unary d (ts @ rest) = (Inr (make_ref name), rest)"
proof -
  obtain p ps where ps: "name_parts name = p # ps" using name_parts_nonempty by (cases "name_parts name") auto
  obtain u us where ts: "ts = u # us" and u: "unpos u = ident p" and us: "map unpos us = dotted ps"
    using assms(1) by (auto simp: name_tokens_def ps map_eq_Cons_conv)
  have k: "tk_kind u = TK_Identifier" "tk_text u = p" using unpos_eqD [OF u] by (simp_all add: token_def)
  show ?thesis
    using parse_path_dotted [OF us assms(2), of p] name_parts_join [of name]
    by (simp add: ts parse_unary.simps parse_primary.simps k unary_op_def Let_def ps)
qed

lemma reads_unary:
  assumes "reads 9 a"
  shows "reads 9 (Unary op a)"
proof (rule reads_atom)
  fix d ts rest
  assume t: "map unpos ts = bare_tokens (Unary op a)" and d: "d + parens (Unary op a) \<le> MAX_EXPR_DEPTH" and r: "kind rest \<noteq> TK_Dot"
  obtain u us where ts: "ts = u # us" and u: "unpos u = unary_token op" and us: "map unpos us = level_tokens 9 a"
    using t by (auto simp: map_eq_Cons_conv)
  have "unary_op (tk_kind u) = Some op" using unpos_eqD [OF u] unary_op_token [of op] by simp
  moreover have "parse_unary d (us @ rest) = (Inr a, rest)" using reads_9D [OF assms us _ r] d by simp
  ultimately show "parse_unary d (ts @ rest) = (Inr (Unary op a), rest)"
    by (simp add: ts parse_unary.simps [of d "u # _"])
qed (simp add: precedence_def)

lemma parse_unary_atom:
  "tk_kind u \<in> {TK_Number, TK_True, TK_False, TK_Remaining} \<Longrightarrow> parse_unary d (u # us) = parse_primary d (u # us)"
  by (auto simp: parse_unary.simps [of d "u # us"] unary_op_def)

lemma reads_all: "printable e \<Longrightarrow> l \<le> 9 \<Longrightarrow> reads l e"
proof (induction e arbitrary: l)
  case (Binary op a b)
  let ?e = "Binary op a b"
  have p: "precedence ?e = op_level op" by (simp add: precedence_def)
  have own: "reads (op_level op) ?e"
    using Binary op_level_le [of op] by (intro reads_binary_level) (simp_all add: left_level_def)
  have low: "reads k ?e" if "k \<le> op_level op" for k
    by (rule reads_down_to [OF own that]) (use op_level_le [of op] p in auto)
  have "reads 9 ?e" using low [of 0] op_level_le [of op] by (intro reads_parens) (simp_all add: p)
  then have "reads k ?e" if "op_level op < k" "k \<le> 9" for k
    using that p by (intro reads_down_to [of 9 ?e k]) auto
  then show ?case using low Binary.prems(2) by (cases "l \<le> op_level op") auto
next
  case (Unary op a)
  then show ?case
    by (intro reads_down_to [of 9 "Unary op a" l] reads_unary) (simp_all add: precedence_def)
next
  case (NumberLit v)
  show ?case
    by (rule reads_down_to [of 9, OF reads_atom])
       (use NumberLit in \<open>auto simp: precedence_def map_eq_Cons_conv number_token_def parse_unary_atom parse_primary.simps dest!: unpos_eqD\<close>)
next
  case (BoolLit v)
  show ?case
    by (rule reads_down_to [of 9, OF reads_atom])
       (use BoolLit in \<open>auto simp: precedence_def map_eq_Cons_conv token_def parse_unary_atom parse_primary.simps dest!: unpos_eqD split: if_splits\<close>)
next
  case Remaining
  show ?case
    by (rule reads_down_to [of 9, OF reads_atom])
       (use Remaining in \<open>auto simp: precedence_def map_eq_Cons_conv token_def parse_unary_atom parse_primary.simps dest!: unpos_eqD\<close>)
next
  case (FieldRef name)
  show ?case
    by (rule reads_down_to [of 9, OF reads_atom])
       (use FieldRef parse_unary_name in \<open>auto simp: precedence_def make_ref_def\<close>)
next
  case (ConstantRef name)
  show ?case
    by (rule reads_down_to [of 9, OF reads_atom])
       (use ConstantRef parse_unary_name in \<open>auto simp: precedence_def make_ref_def\<close>)
qed

section \<open>Lexing what was printed\<close>

text \<open>A token whose text, with a blank behind it, is lexed as that token.\<close>

definition lexes :: "Token \<Rightarrow> bool" where
  "lexes t \<longleftrightarrow> tk_pos t = 0 \<and> tk_kind t \<noteq> TK_Eof \<and> tk_text t \<noteq> [] \<and> \<not> isspace (hd (tk_text t)) \<and>
     (\<forall>input pos rest. drop pos input = tk_text t @ CHR '' '' # rest \<longrightarrow>
        lex_next input pos = (t\<lparr>tk_pos := pos\<rparr>, pos + length (tk_text t)))"

lemma isspace_blank [simp]: "isspace (CHR '' '')"
  by (simp add: isspace_def)

lemma lex_next_skip:
  assumes "drop pos input = CHR '' '' # s"
  shows "lex_next input pos = lex_next input (Suc pos)"
proof -
  have "drop (Suc pos) input = s" using assms by (simp add: drop_Suc tl_drop [symmetric])
  then show ?thesis using assms by (simp add: lex_next_def skip_whitespace_def)
qed

lemma lex_next_here:
  assumes "drop pos input = c # s" "\<not> isspace c"
  shows "lex_next input pos =
    (if isdigit c then (lex_number (c # s) pos, pos + length (number_text (c # s)))
     else if isalpha c \<or> c = CHR ''_'' then (lex_identifier (c # s) pos, pos + length (identifier_text (c # s)))
     else case (if s \<noteq> [] then two_char_kind c (hd s) else None) of
            Some k \<Rightarrow> (token k (take 2 (c # s)) pos, pos + 2)
          | None \<Rightarrow> (case one_char_kind c of
                       Some k \<Rightarrow> (token k [c] pos, pos + 1)
                     | None \<Rightarrow> ((token TK_Eof [c] pos)\<lparr>tk_has_error := True\<rparr>, pos + 1)))"
proof -
  have 0: "skip_whitespace (c # s) = 0" using assms by (simp add: skip_whitespace_def)
  show ?thesis
    unfolding lex_next_def Let_def 0 add_0_right assms(1) by (cases s) (simp_all del: identifier_text.simps split del: if_split cong: if_cong option.case_cong)
qed

lemma token_pos: "(token k s 0)\<lparr>tk_pos := p\<rparr> = token k s p"
  by (simp add: token_def)

lemma identifier_text_blank: "identifier_text s = s \<Longrightarrow> identifier_text (s @ CHR '' '' # rest) = s"
  by (induction s rule: identifier_text.induct) (auto simp: name_char_def char_classes split: if_splits)

lemma lexes_word:
  assumes "s \<noteq> []" "isalpha (hd s) \<or> hd s = CHR ''_''" "identifier_text s = s"
  shows "lexes (token (keyword_kind s) s 0)"
proof -
  obtain c cs where s: "s = c # cs" using assms(1) by (cases s) auto
  have c: "\<not> isspace c" "\<not> isdigit c" using assms(2) by (auto simp: s char_classes)
  have "lex_next input pos = (token (keyword_kind s) s pos, pos + length s)"
    if "drop pos input = s @ CHR '' '' # rest" for input pos rest
    using that lex_next_here [of pos input c "cs @ CHR '' '' # rest"] c assms(2) identifier_text_blank [OF assms(3)]
    by (simp add: s lex_identifier_def Let_def)
  moreover have "keyword_kind s \<noteq> TK_Eof" by (simp add: keyword_kind_def)
  ultimately show ?thesis using assms(1) c(1) by (auto simp: lexes_def token_def s)
qed

lemma lexes_number:
  assumes "int n < 2 ^ 63"
  shows "lexes (number_token n)"
proof -
  let ?s = "to_string n"
  obtain c cs where s: "?s = c # cs" by (cases ?s) auto
  have c: "isdigit c" "\<not> isspace c" using to_string_digits [of c n] by (auto simp: s char_classes)
  have all: "takeWhile isdigit (?s @ CHR '' '' # rest) = ?s" for rest
    using to_string_digits [of _ n] by (subst takeWhile_append2) (auto simp: char_classes)
  have "(?s @ CHR '' '' # rest) ! 1 \<noteq> CHR ''x'' \<and> (?s @ CHR '' '' # rest) ! 1 \<noteq> CHR ''X''" for rest
    using to_string_digits [of "?s ! 1" n] by (cases "length ?s > 1") (auto simp: s nth_append nth_Cons' isdigit_def)
  then have nt: "number_text (?s @ CHR '' '' # rest) = ?s" for rest by (auto simp: number_text_def all)
  have "isdigit (?s ! 1)" if "2 < length ?s" using that by (intro to_string_digits [of _ n] nth_mem) simp
  then have "\<not> hex_prefixed ?s" by (auto simp: hex_prefixed_def isdigit_def)
  then have "lex_number (?s @ CHR '' '' # rest) pos = (number_token n)\<lparr>tk_pos := pos\<rparr>" for rest pos
    using from_chars_to_string [OF assms, of "[]"] by (simp add: lex_number_def nt number_token_def)
  then have "lex_next input pos = ((number_token n)\<lparr>tk_pos := pos\<rparr>, pos + length ?s)"
    if "drop pos input = ?s @ CHR '' '' # rest" for input pos rest
    using that lex_next_here [of pos input c "cs @ CHR '' '' # rest"] c nt [of rest] by (simp add: s)
  then show ?thesis using c by (simp add: lexes_def number_token_def s)
qed

lemma lexes_mark:
  assumes "\<not> isspace c" "\<not> isdigit c" "\<not> isalpha c" "c \<noteq> CHR ''_''"
    and "two_char_kind c (CHR '' '') = None" "one_char_kind c = Some k" "k \<noteq> TK_Eof"
  shows "lexes (token k [c] 0)"
proof -
  have "lex_next input pos = (token k [c] pos, pos + 1)" if "drop pos input = c # CHR '' '' # rest" for input pos rest
    using lex_next_here [OF that] assms by simp
  then show ?thesis using assms by (auto simp: lexes_def token_def)
qed

lemma lexes_marks:
  assumes "\<not> isspace c" "\<not> isdigit c" "\<not> isalpha c" "c \<noteq> CHR ''_''"
    and "two_char_kind c c2 = Some k" "k \<noteq> TK_Eof"
  shows "lexes (token k [c, c2] 0)"
proof -
  have "lex_next input pos = (token k [c, c2] pos, pos + 2)" if "drop pos input = c # c2 # CHR '' '' # rest" for input pos rest
    using lex_next_here [OF that] assms by simp
  then show ?thesis using assms by (auto simp: lexes_def token_def)
qed

lemmas mark_kinds = two_char_kind_def one_char_kind_def isspace_def isdigit_def isalpha_def isupper_def islower_def

lemma lexes_keyword:
  "lexes (token TK_Or ''or'' 0)" "lexes (token TK_And ''and'' 0)" "lexes (token TK_Not ''not'' 0)"
  "lexes (token TK_True ''true'' 0)" "lexes (token TK_False ''false'' 0)" "lexes (token TK_Remaining ''remaining'' 0)"
  using lexes_word [of "''or''"] lexes_word [of "''and''"] lexes_word [of "''not''"] lexes_word [of "''true''"]
    lexes_word [of "''false''"] lexes_word [of "''remaining''"]
  by (simp_all add: keyword_kind_def name_char_def char_classes)

lemma lexes_op: "lexes (sym_token (snd (op_token op)))"
  by (cases op) (simp_all add: op_token_def lexes_keyword lexes_mark lexes_marks mark_kinds)

lemma lexes_paren: "list_all lexes ts \<Longrightarrow> list_all lexes (paren b ts)"
  by (simp add: paren_def lexes_mark mark_kinds)

lemma lexes_unary: "lexes (unary_token op)"
  by (cases op) (simp_all add: unary_token_def lexes_keyword lexes_mark mark_kinds)

lemma lexes_name: "list_all plain_name (name_parts name) \<Longrightarrow> list_all lexes (name_tokens name)"
proof -
  have p: "lexes (ident s)" if "plain_name s" for s
    using that lexes_word [of s] by (simp add: plain_name_def)
  have d: "lexes (token TK_Dot ''.'' 0)" by (rule lexes_mark) (simp_all add: mark_kinds)
  have "list_all plain_name ps \<Longrightarrow> list_all lexes (dotted ps)" for ps by (induction ps) (simp_all add: p d)
  then show "list_all plain_name (name_parts name) \<Longrightarrow> list_all lexes (name_tokens name)"
    by (auto simp: name_tokens_def p split: list.split)
qed

lemma lexes_bare: "printable e \<Longrightarrow> list_all lexes (bare_tokens e)"
  by (induction e) (auto simp: lexes_op lexes_paren lexes_unary lexes_name lexes_keyword intro!: lexes_number)

lemma drop_at: "drop (p + k) xs = drop k (drop p xs)"
  by (simp add: add.commute)

lemma tokenize_printed:
  assumes "list_all lexes ts" "drop pos input = blanks @ concat (map (\<lambda>t. tk_text t @ '' '') ts)" "blanks = [] \<or> blanks = '' ''"
  shows "\<exists>us e. tokenize input pos = us @ [e] \<and> map unpos us = ts \<and> tk_kind e = TK_Eof \<and> \<not> tk_has_error e"
  using assms
proof (induction ts arbitrary: pos blanks)
  case Nil
  then have b: "drop pos input = blanks" "skip_whitespace blanks = length blanks" by (auto simp: skip_whitespace_def)
  moreover have "drop (pos + length blanks) input = []" using b(1) by (auto simp: drop_at)
  ultimately have "lex_next input pos = (token TK_Eof [] (pos + length blanks), pos + length blanks)"
    by (simp add: lex_next_def Let_def)
  then show ?case by (subst tokenize.simps) (auto simp: token_def)
next
  case (Cons t ts)
  define p where "p = pos + length blanks"
  define q where "q = p + length (tk_text t)"
  let ?text = "concat (map (\<lambda>t. tk_text t @ '' '') ts)"
  have t: "lexes t" using Cons.prems(1) by simp
  have d: "drop p input = tk_text t @ CHR '' '' # ?text" unfolding p_def drop_at Cons.prems(2) by simp
  have "lex_next input pos = lex_next input p"
    using Cons.prems(3) lex_next_skip [of pos input "tk_text t @ CHR '' '' # ?text"] Cons.prems(2) by (auto simp: p_def)
  then have n: "lex_next input pos = (t\<lparr>tk_pos := p\<rparr>, q)"
    using t [unfolded lexes_def] d by (simp add: q_def)
  have "drop q input = '' '' @ ?text" unfolding q_def drop_at d by simp
  then obtain us e where u: "tokenize input q = us @ [e]" "map unpos us = ts" "tk_kind e = TK_Eof" "\<not> tk_has_error e"
    using Cons.IH [of q "'' ''"] Cons.prems(1) by auto
  have "tokenize input pos = (t\<lparr>tk_pos := p\<rparr> # us) @ [e]"
    using t u(1) by (simp add: tokenize.simps [of input pos] n lexes_def)
  moreover have "map unpos (t\<lparr>tk_pos := p\<rparr> # us) = t # ts" using t u(2) by (simp add: lexes_def)
  ultimately show ?case using u(3,4) by (intro exI [of _ "t\<lparr>tk_pos := p\<rparr> # us"] exI [of _ e]) simp
qed

text \<open>
  C9: An expression printed with as few parentheses as the precedence of its operators allows, its tokens
  separated by blanks, is parsed back to the same expression, if its parentheses nest less deep than the
  parser's limit.  The expression may be any the parser can return: literals of \<open>int64_t\<close>, names and dotted
  paths the lexer accepts, and every operator.
\<close>

theorem parse_print_expression:
  assumes "printable e" and "parens e < MAX_EXPR_DEPTH"
  shows "parse_expression (print_expr e) = Inr e"
proof -
  obtain us t where us: "tokenize (print_expr e) 0 = us @ [t]" "map unpos us = bare_tokens e"
      "tk_kind t = TK_Eof" "\<not> tk_has_error t"
    using tokenize_printed [OF lexes_bare [OF assms(1)], of 0 "print_expr e" "[]"] by (auto simp: print_expr_def)
  have "stops 0 [t]" by (auto simp: stops_def us(3) binary_op_def nth_Cons' split: if_splits)
  then have "parse_level 0 0 (us @ [t]) = (Inr e, [t])"
    by (intro readsD [OF reads_all [OF assms(1)]]) (use us(2) assms(2) in \<open>simp_all add: paren_def inner_depth_def\<close>)
  then show ?thesis using us by (simp add: parse_expression_def parse_tokens_def)
qed

definition sample_expr :: Expr where
  "sample_expr =
     Binary Op_LogOr
       (Binary Op_Lte (Binary Op_Sub (Binary Op_Sub (FieldRef ''hdr.len'') (NumberLit 4)) (Unary Op_Negate (ConstantRef ''MAX_2'')))
          (Binary Op_Mul (Binary Op_Add Remaining (NumberLit 10)) (FieldRef ''x-y'')))
       (Unary Op_LogNot (BoolLit True))"

theorem parse_print_expression_witness:
  "printable sample_expr \<and> parens sample_expr = 1 \<and>
   print_expr sample_expr = ''hdr . len - 4 - - MAX_2 <= ( remaining + 10 ) * x-y or not true '' \<and>
   parse_expression (print_expr sample_expr) = Inr sample_expr"
proof -
  have "printable sample_expr" by code_simp
  moreover have "parens sample_expr = 1" by code_simp
  moreover have "print_expr sample_expr = ''hdr . len - 4 - - MAX_2 <= ( remaining + 10 ) * x-y or not true ''" by code_simp
  ultimately show ?thesis using parse_print_expression [of sample_expr] by (simp add: MAX_EXPR_DEPTH_def)
qed

section \<open>What the parser returns\<close>

definition token_ok :: "Token \<Rightarrow> bool" where
  "token_ok t \<longleftrightarrow>
     (tk_kind t = TK_Identifier \<longrightarrow> plain_name (tk_text t)) \<and>
     (tk_kind t = TK_Number \<and> \<not> tk_has_error t \<longrightarrow> 0 \<le> tk_number t \<and> tk_number t < 2 ^ 63)"

definition result_ok :: "parse_result \<Rightarrow> bool" where
  "result_ok res \<longleftrightarrow> list_all token_ok (snd res) \<and> (\<forall>e. fst res = Inr e \<longrightarrow> printable e)"

lemma list_all_tl: "list_all P xs \<Longrightarrow> list_all P (tl xs)"
  by (cases xs) simp_all

lemma result_ok_simps [simp]:
  "result_ok (Inl err, ts) \<longleftrightarrow> list_all token_ok ts"
  "result_ok (Inr e, ts) \<longleftrightarrow> list_all token_ok ts \<and> printable e"
  "result_ok (parse_error msg ts) \<longleftrightarrow> list_all token_ok ts"
  by (simp_all add: result_ok_def parse_error_def)

lemma current_ok: "list_all token_ok ts \<Longrightarrow> token_ok (current ts)"
  by (cases ts) (simp_all add: current_def token_def token_ok_def)

lemma identifier_text_char: "c \<in> set (identifier_text s) \<Longrightarrow> name_char c \<or> c = CHR ''-''"
  by (induction s rule: identifier_text.induct) (auto split: if_splits)

lemma identifier_text_idem: "identifier_text (identifier_text s) = identifier_text s"
proof (induction s rule: identifier_text.induct)
  case (2 c cs)
  have "hd (identifier_text cs) = hd cs \<and> identifier_text cs \<noteq> []" if "cs \<noteq> []" "name_char (hd cs)"
    using that by (cases cs) simp_all
  then show ?case using 2 by simp
qed simp

lemma name_parts_dotless: "CHR ''.'' \<notin> set p \<Longrightarrow> name_parts p = [p]"
  by (induction p) auto

lemma name_parts_append: "CHR ''.'' \<notin> set p \<Longrightarrow> name_parts (s @ CHR ''.'' # p) = name_parts s @ [p]"
proof (induction s)
  case Nil
  then show ?case by (simp add: name_parts_dotless)
next
  case (Cons c s)
  then show ?case using name_parts_nonempty [of s] by (auto split: list.split)
qed

lemma plain_name_dotless: "plain_name p \<Longrightarrow> CHR ''.'' \<notin> set p"
  using identifier_text_char [of "CHR ''.''" p] by (auto simp: plain_name_def name_char_def char_classes)

lemma parse_path_ok:
  "list_all token_ok ts \<Longrightarrow> list_all plain_name (name_parts name) \<Longrightarrow> parse_path name ts = (r, ts') \<Longrightarrow>
   list_all token_ok ts' \<and> (\<forall>n. r = Some n \<longrightarrow> list_all plain_name (name_parts n))"
proof (induction name ts rule: parse_path.induct)
  case (1 name ts)
  show ?case
  proof (cases "kind ts = TK_Dot \<and> kind (tl ts) = TK_Identifier")
    case True
    have ok: "list_all token_ok (tl ts)" "list_all token_ok (tl (tl ts))" using 1 by (simp_all add: list_all_tl)
    then have "plain_name (tk_text (current (tl ts)))" using current_ok [of "tl ts"] True by (simp add: token_ok_def)
    then show ?thesis using 1 True ok by (simp add: parse_path.simps [of name ts] name_parts_append plain_name_dotless)
  next
    case False
    then show ?thesis using 1 by (auto simp: parse_path.simps [of name ts] list_all_tl split: if_splits)
  qed
qed

lemma make_ref_printable: "list_all plain_name (name_parts n) \<Longrightarrow> printable (make_ref n)"
  by (simp add: make_ref_def)

lemma parse_ok:
  "list_all token_ok ts \<Longrightarrow> result_ok (parse_level d l ts)"
  "list_all token_ok ts \<Longrightarrow> printable x \<Longrightarrow> result_ok (parse_loop d l x ts)"
  "list_all token_ok ts \<Longrightarrow> result_ok (parse_unary d ts)"
  "list_all token_ok ts \<Longrightarrow> result_ok (parse_primary d ts)"
proof (induction d l ts and d l x ts and d ts and d ts rule: parse_level_parse_loop_parse_unary_parse_primary.induct)
  case (1 d l ts)
  define d' where "d' = (if l = 0 then Suc d else d)"
  note IH = "1.IH" [unfolded Let_def, folded d'_def]
  note eq = parse_level.simps [of d l ts, unfolded Let_def, folded d'_def]
  show ?case
  proof (cases "l > 8 \<or> l = 0 \<and> d' > MAX_EXPR_DEPTH")
    case True
    then show ?thesis using IH(1) "1.prems" by (auto simp: eq)
  next
    case False
    obtain r ts1 where s: "parse_level d' (Suc l) ts = (r, ts1)" by fastforce
    have ok: "result_ok (r, ts1)" using IH(2) False s "1.prems" by auto
    show ?thesis
    proof (cases r)
      case (Inr x)
      have right: "result_ok (parse_level d' (Suc l) (tl ts1))" if "l = 2" "binary_op l (kind ts1) = Some op" for op
        using IH(3) [OF _ refl _ s [symmetric] Inr] that False ok Inr by (auto simp: list_all_tl)
      have loop: "result_ok (parse_loop d' l x ts1)" if "l \<noteq> 2"
        using IH(4) [OF _ refl _ s [symmetric] Inr that] False ok Inr by auto
      obtain r2 ts2 where t: "parse_level d' (Suc l) (tl ts1) = (r2, ts2)" by fastforce
      show ?thesis
      proof (cases "l = 2")
        case two: True
        show ?thesis
        proof (cases "binary_op l (kind ts1)")
          case None
          then show ?thesis unfolding eq s Inr prod.case sum.case using ok Inr two False by simp
        next
          case (Some op)
          show ?thesis using right [OF two Some] ok
            unfolding eq s Inr prod.case sum.case t Some using two False by (cases r2) simp_all
        qed
      next
        case no: False
        then show ?thesis using loop False "1.prems" unfolding eq s Inr prod.case sum.case by simp
      qed
    qed (use False s ok "1.prems" in \<open>simp add: eq\<close>)
  qed
next
  case (2 d l x ts)
  show ?case
    using 2 by (auto simp: parse_loop.simps [of d l x ts] list_all_tl split: option.split prod.split sum.split)
next
  case (3 d ts)
  show ?case
    using 3 by (auto simp: parse_unary.simps [of d ts] list_all_tl split: option.split prod.split sum.split)
next
  case (4 d ts)
  note eq = parse_primary.simps [of d ts]
  note ok = "4.prems" list_all_tl [OF "4.prems"]
  show ?case
  proof (cases "kind ts = TK_LParen")
    case True
    then have "result_ok (parse_level d 0 (tl ts))" by (intro "4.IH") (use ok in auto)
    then show ?thesis unfolding eq using True
      by (auto simp: Let_def list_all_tl split: prod.split sum.split)
  next
    case False
    obtain r ts1 where p: "parse_path (tk_text (current ts)) (tl ts) = (r, ts1)" by fastforce
    have "list_all token_ok ts1 \<and> (\<forall>n. r = Some n \<longrightarrow> list_all plain_name (name_parts n))" if "kind ts = TK_Identifier"
      by (rule parse_path_ok [OF ok(2) _ p])
        (use that current_ok [OF ok(1)] in \<open>simp add: token_ok_def name_parts_dotless plain_name_dotless\<close>)
    then show ?thesis unfolding eq using False ok current_ok [OF ok(1), unfolded token_ok_def] p
      by (cases r) (simp_all add: Let_def make_ref_printable)
  qed
qed

lemma from_chars_nonneg:
  "from_chars base s = Some (v, r) \<Longrightarrow> s = [] \<or> hd s \<noteq> CHR ''-'' \<Longrightarrow> 0 \<le> v \<and> v < 2 ^ 63"
  by (auto simp: from_chars_def Let_def in_int64_def split: if_splits)

lemma lex_number_ok:
  assumes "rest \<noteq> []" "isdigit (hd rest)"
  shows "token_ok (lex_number rest p)"
proof -
  define s where "s = number_text rest"
  have dec: "hd s \<noteq> CHR ''-''"
    using assms by (cases rest) (auto simp: s_def number_text_def isdigit_def)
  have hex: "drop 2 s = [] \<or> hd (drop 2 s) \<noteq> CHR ''-''" if "hex_prefixed s"
  proof -
    have "drop 2 s = takeWhile isxdigit (drop 2 rest) \<or> list_all isdigit s"
      by (auto simp: s_def number_text_def list_all_iff dest: set_takeWhileD)
    moreover have "\<not> list_all isdigit s" using that by (auto simp: hex_prefixed_def list_all_length isdigit_def intro!: exI [of _ 1])
    ultimately have "drop 2 s = takeWhile isxdigit (drop 2 rest)" by blast
    then show ?thesis by (cases "drop 2 rest") (auto simp: char_classes)
  qed
  show ?thesis
    using from_chars_nonneg [of 16 "drop 2 s"] from_chars_nonneg [of 10 s] dec hex
    by (auto simp: lex_number_def s_def [symmetric] Let_def token_ok_def split: option.split)
qed

lemma lex_identifier_ok:
  assumes "rest \<noteq> []" "isalpha (hd rest) \<or> hd rest = CHR ''_''"
  shows "token_ok (lex_identifier rest p)"
proof -
  have "hd (identifier_text rest) = hd rest" using assms by (cases rest) (auto simp: name_char_def isalnum_def)
  then show ?thesis
    using assms identifier_text_nonempty [OF assms]
    by (auto simp: lex_identifier_def Let_def token_def token_ok_def plain_name_def identifier_text_idem)
qed

lemma mark_kind_ok:
  "two_char_kind c c2 = Some k \<Longrightarrow> k \<noteq> TK_Identifier \<and> k \<noteq> TK_Number"
  "one_char_kind c = Some k \<Longrightarrow> k \<noteq> TK_Identifier \<and> k \<noteq> TK_Number"
  by (auto simp: two_char_kind_def one_char_kind_def split: if_splits)

lemma lex_next_ok: "lex_next input pos = (t, pos') \<Longrightarrow> token_ok t"
proof -
  assume l: "lex_next input pos = (t, pos')"
  have mark: "token_ok (token k s q)" if "k \<noteq> TK_Identifier" "k \<noteq> TK_Number" for k s q
    using that by (simp add: token_ok_def token_def)
  have eof: "token_ok ((token TK_Eof s q)\<lparr>tk_has_error := True\<rparr>)" for s q
    by (simp add: token_ok_def token_def)
  show "token_ok t"
    using l lex_number_ok lex_identifier_ok mark_kind_ok mark eof
    by (auto simp: lex_next_def Let_def split: if_splits option.splits)
qed

lemma tokenize_ok: "list_all token_ok (tokenize input pos)"
proof (induction input pos rule: tokenize.induct)
  case (1 input pos)
  obtain t p where n: "lex_next input pos = (t, p)" by fastforce
  then show ?case using 1 lex_next_ok [OF n] by (simp add: tokenize.simps [of input pos])
qed



end
