(* ===== verification/Bgen_Auto_Expr.thy ===== *)
theory Bgen_Auto_Expr
  imports Bgen_Ast
begin

text \<open>
  The parser of \<open>auto\<close> attributes: \<open>bgen/src/parser/auto_expr_parser.cpp\<close>.  A position in the input is kept
  as the rest of the input behind it, and an error as its message.  The parser is shown to accept exactly
  the expressions \<open>auto_ok\<close> describes, with \<open>print_auto\<close> as a normal form.
\<close>

section \<open>Parser\<close>

definition is_blank :: "char \<Rightarrow> bool" where
  "is_blank c \<longleftrightarrow> c = CHR '' '' \<or> c = CHR 0x09"

definition trim_blanks :: "string \<Rightarrow> string" where
  "trim_blanks s = rev (dropWhile is_blank (rev (dropWhile is_blank s)))"

text \<open>The argument in parentheses and what follows the closing one.\<close>

definition try_parse_paren_arg :: "string \<Rightarrow> (string \<times> string) option" where
  "try_parse_paren_arg input =
     (case dropWhile is_blank input of
        [] \<Rightarrow> None
      | c # rest \<Rightarrow>
          if c \<noteq> CHR ''('' then None
          else case dropWhile (\<lambda>c. c \<noteq> CHR '')'') rest of
                 [] \<Rightarrow> None
               | _ # after \<Rightarrow> Some (trim_blanks (takeWhile (\<lambda>c. c \<noteq> CHR '')'') rest), after))"

definition arith_op_of :: "char \<Rightarrow> ArithOp option" where
  "arith_op_of c =
     (if c = CHR ''+'' then Some Arith_Add else if c = CHR ''-'' then Some Arith_Sub
      else if c = CHR ''*'' then Some Arith_Mul else if c = CHR ''/'' then Some Arith_Div
      else if c = CHR ''%'' then Some Arith_Mod else None)"

definition operand_char :: "char \<Rightarrow> bool" where
  "operand_char c \<longleftrightarrow> isalnum c \<or> c = CHR ''-'' \<or> c = CHR ''_''"

definition try_parse_modifier :: "string \<Rightarrow> ArithModifier option" where
  "try_parse_modifier remaining =
     (case trim_blanks remaining of
        [] \<Rightarrow> Some no_modifier
      | op_ch # rest \<Rightarrow>
          (case arith_op_of op_ch of
             None \<Rightarrow> None
           | Some op \<Rightarrow>
               (case trim_blanks rest of
                  [] \<Rightarrow> None
                | first # others \<Rightarrow>
                    if isdigit first \<or> first = CHR ''-'' then
                      (case whole_number 10 (first # others) of
                         None \<Rightarrow> None
                       | Some v \<Rightarrow> Some \<lparr>am_op = op, am_literal = v, am_field_ref = []\<rparr>)
                    else if isalpha first \<or> first = CHR ''_'' then
                      if list_all operand_char (first # others)
                      then Some \<lparr>am_op = op, am_literal = 0, am_field_ref = first # others\<rparr>
                      else None
                    else None)))"

abbreviation quote_text :: "string \<Rightarrow> string" where
  "quote_text s \<equiv> [CHR 0x27] @ s @ [CHR 0x27]"

definition starts_with :: "string \<Rightarrow> string \<Rightarrow> bool" where
  "starts_with s p \<longleftrightarrow> take (length p) s = p"

definition parse_auto_length :: "string \<Rightarrow> string + AutoExpr" where
  "parse_auto_length sv =
     (let result = new_auto_expr\<lparr>ae_kind := Auto_Length\<rparr>; arg = try_parse_paren_arg (drop 6 sv)
      in case arg of
           Some ([], after) \<Rightarrow> Inl ''length field reference cannot be empty''
         | _ \<Rightarrow>
             let result = (case arg of Some (arg, after) \<Rightarrow> result\<lparr>ae_field_ref := arg\<rparr> | None \<Rightarrow> result);
                 rest = trim_blanks (case arg of Some (arg, after) \<Rightarrow> after | None \<Rightarrow> drop 6 sv)
             in if rest = [] then Inr result
                else case try_parse_modifier rest of
                       None \<Rightarrow> Inl (''invalid modifier in length expression: '' @ quote_text rest)
                     | Some m \<Rightarrow> Inr (result\<lparr>ae_modifier := m\<rparr>))"

definition parse_auto_expr :: "string \<Rightarrow> string + AutoExpr" where
  "parse_auto_expr input =
     (let sv = trim_blanks input
      in if sv = [] then Inl ''empty auto expression''
         else if sv = ''id'' then Inr (new_auto_expr\<lparr>ae_kind := Auto_Id\<rparr>)
         else if sv = ''increment'' then Inr (new_auto_expr\<lparr>ae_kind := Auto_Increment\<rparr>)
         else if sv = ''timestamp'' then Inr (new_auto_expr\<lparr>ae_kind := Auto_Timestamp\<rparr>)
         else if starts_with sv ''config'' then
           (case try_parse_paren_arg (drop 6 sv) of
              None \<Rightarrow> Inl ''config requires a key argument: config(key)''
            | Some (arg, after) \<Rightarrow>
                if arg = [] then Inl ''config key cannot be empty''
                else if trim_blanks after \<noteq> []
                then Inl (''unexpected text after config(...): '' @ quote_text (trim_blanks after))
                else Inr (new_auto_expr\<lparr>ae_kind := Auto_Config, ae_key := arg\<rparr>))
         else if starts_with sv ''count'' then
           (case try_parse_paren_arg (drop 5 sv) of
              None \<Rightarrow> Inl ''count requires a field argument: count(field)''
            | Some (arg, after) \<Rightarrow>
                if arg = [] then Inl ''count field reference cannot be empty''
                else if trim_blanks after \<noteq> []
                then Inl (''unexpected text after count(...): '' @ quote_text (trim_blanks after))
                else Inr (new_auto_expr\<lparr>ae_kind := Auto_Count, ae_field_ref := arg\<rparr>))
         else if starts_with sv ''length'' then parse_auto_length sv
         else Inl (''unknown auto expression: '' @ quote_text sv))"

section \<open>Normal form\<close>

definition arith_char :: "ArithOp \<Rightarrow> string" where
  "arith_char op =
     (case op of Arith_None \<Rightarrow> [] | Arith_Add \<Rightarrow> ''+'' | Arith_Sub \<Rightarrow> ''-'' | Arith_Mul \<Rightarrow> ''*'' | Arith_Div \<Rightarrow> ''/''
      | Arith_Mod \<Rightarrow> ''%'')"

definition print_modifier :: "ArithModifier \<Rightarrow> string" where
  "print_modifier m =
     (if has_modifier m
      then '' '' @ arith_char (am_op m) @ '' '' @ (if is_field_operand m then am_field_ref m else to_string_int (am_literal m))
      else [])"

definition print_auto :: "AutoExpr \<Rightarrow> string" where
  "print_auto e =
     (case ae_kind e of
        Auto_Id \<Rightarrow> ''id'' | Auto_Increment \<Rightarrow> ''increment'' | Auto_Timestamp \<Rightarrow> ''timestamp''
      | Auto_Config \<Rightarrow> ''config('' @ ae_key e @ '')''
      | Auto_Count \<Rightarrow> ''count('' @ ae_field_ref e @ '')''
      | Auto_Length \<Rightarrow>
          ''length'' @ (if ae_field_ref e = [] then [] else ''('' @ ae_field_ref e @ '')'') @ print_modifier (ae_modifier e))"

text \<open>The arguments in parentheses, the modifiers and the expressions that can be written.\<close>

definition arg_ok :: "string \<Rightarrow> bool" where
  "arg_ok s \<longleftrightarrow> s \<noteq> [] \<and> CHR '')'' \<notin> set s \<and> \<not> is_blank (hd s) \<and> \<not> is_blank (last s)"

definition modifier_ok :: "ArithModifier \<Rightarrow> bool" where
  "modifier_ok m \<longleftrightarrow> m = no_modifier \<or>
     has_modifier m \<and>
       (am_field_ref m = [] \<and> in_int64 (am_literal m) \<or>
        am_literal m = 0 \<and> am_field_ref m \<noteq> [] \<and> (isalpha (hd (am_field_ref m)) \<or> hd (am_field_ref m) = CHR ''_'') \<and>
        list_all operand_char (am_field_ref m))"

definition auto_ok :: "AutoExpr \<Rightarrow> bool" where
  "auto_ok e \<longleftrightarrow>
     (case ae_kind e of
        Auto_Config \<Rightarrow> arg_ok (ae_key e) \<and> ae_field_ref e = [] \<and> ae_modifier e = no_modifier
      | Auto_Count \<Rightarrow> arg_ok (ae_field_ref e) \<and> ae_key e = [] \<and> ae_modifier e = no_modifier
      | Auto_Length \<Rightarrow> (ae_field_ref e = [] \<or> arg_ok (ae_field_ref e)) \<and> ae_key e = [] \<and> modifier_ok (ae_modifier e)
      | _ \<Rightarrow> ae_field_ref e = [] \<and> ae_key e = [] \<and> ae_modifier e = no_modifier)"

section \<open>Trimming\<close>

lemma trim_prefix: "\<exists>n. rev (dropWhile P (rev t)) = take n t"
  by (metis rev_take rev_rev_ident dropWhile_eq_drop rev_drop)

lemma trim_id: "s = [] \<or> \<not> is_blank (hd s) \<and> \<not> is_blank (last s) \<Longrightarrow> trim_blanks s = s"
proof -
  assume s: "s = [] \<or> \<not> is_blank (hd s) \<and> \<not> is_blank (last s)"
  have "dropWhile is_blank s = s" using s by (cases s) auto
  moreover have "dropWhile is_blank (rev s) = rev s" using s by (cases s rule: rev_cases) auto
  ultimately show "trim_blanks s = s" by (simp add: trim_blanks_def)
qed

lemma set_trim: "set (trim_blanks s) \<subseteq> set s"
  by (auto simp: trim_blanks_def dest!: set_dropWhileD)

lemma trim_ends:
  assumes "trim_blanks s \<noteq> []"
  shows "\<not> is_blank (hd (trim_blanks s)) \<and> \<not> is_blank (last (trim_blanks s))"
proof -
  define t where "t = dropWhile is_blank s"
  obtain n where n: "trim_blanks s = take n t" using trim_prefix [of is_blank t] by (auto simp: trim_blanks_def t_def)
  have "t \<noteq> []" using assms n by auto
  then have "\<not> is_blank (hd t)" unfolding t_def using hd_dropWhile by blast
  moreover have "hd (take n t) = hd t" using assms n by (cases n) (auto simp: hd_conv_nth)
  moreover have "\<not> is_blank (last (trim_blanks s))"
    using assms hd_dropWhile [of is_blank "rev t"] by (auto simp: trim_blanks_def t_def [symmetric] last_rev)
  ultimately show ?thesis by (simp add: n)
qed

lemma trim_trim [simp]: "trim_blanks (trim_blanks s) = trim_blanks s"
  using trim_ends [of s] by (intro trim_id) auto

section \<open>Every result is well formed\<close>

lemma paren_arg_ok:
  assumes "try_parse_paren_arg s = Some (arg, after)" "arg \<noteq> []"
  shows "arg_ok arg"
proof -
  obtain rest where arg: "arg = trim_blanks (takeWhile (\<lambda>c. c \<noteq> CHR '')'') rest)"
    using assms(1) by (auto simp: try_parse_paren_arg_def split: list.splits if_splits)
  have "CHR '')'' \<notin> set arg" using set_trim unfolding arg by (fastforce dest: set_takeWhileD)
  then show ?thesis using assms(2) trim_ends unfolding arg_ok_def arg by blast
qed

lemma whole_number_range: "whole_number base s = Some v \<Longrightarrow> in_int64 v"
  by (auto simp: whole_number_def split: option.splits if_splits dest: from_chars_range)

lemma arith_op_of_some: "arith_op_of c = Some op \<Longrightarrow> op \<noteq> Arith_None \<and> arith_char op = [c]"
  by (auto simp: arith_op_of_def arith_char_def split: if_splits)

lemma parse_modifier_ok: "try_parse_modifier s = Some m \<Longrightarrow> modifier_ok m"
  by (auto simp: try_parse_modifier_def modifier_ok_def has_modifier_def split: list.splits option.splits if_splits
      dest: whole_number_range arith_op_of_some)

lemma no_modifier_ok [simp]: "modifier_ok no_modifier"
  by (simp add: modifier_ok_def)

lemma parse_length_ok:
  assumes "parse_auto_length sv = Inr e"
  shows "auto_ok e"
proof (cases "try_parse_paren_arg (drop 6 sv)")
  case None
  then show ?thesis using assms parse_modifier_ok
    by (auto simp: parse_auto_length_def Let_def auto_ok_def new_auto_expr_def split: if_splits option.splits)
next
  case (Some r)
  then obtain arg after where r: "try_parse_paren_arg (drop 6 sv) = Some (arg, after)" by (cases r) auto
  then have "arg \<noteq> []" using assms by (auto simp: parse_auto_length_def)
  with r show ?thesis using assms parse_modifier_ok paren_arg_ok [OF r]
    by (auto simp: parse_auto_length_def Let_def auto_ok_def new_auto_expr_def split: if_splits option.splits list.splits)
qed

lemma parse_auto_ok: "parse_auto_expr s = Inr e \<Longrightarrow> auto_ok e"
  by (auto simp: parse_auto_expr_def Let_def auto_ok_def new_auto_expr_def split: option.splits if_splits prod.splits
      dest: parse_length_ok [unfolded auto_ok_def] paren_arg_ok)

section \<open>The normal form is parsed back\<close>

lemma digits_take: "takeWhile isdigit (to_string n) = to_string n" "dropWhile isdigit (to_string n) = []"
  using to_string_digits [of _ n] by (auto simp: takeWhile_eq_all_conv)

lemma whole_number_to_string_int:
  assumes "in_int64 v"
  shows "whole_number 10 (to_string_int v) = Some v"
proof (cases "v < 0")
  case True
  have "number_value 10 (to_string (nat (- v))) = nat (- v)"
    using number_value_digits [of "to_string (nat (- v))"] to_string_digits [of _ "nat (- v)"] digits_value_to_string
    by (simp add: list_all_iff)
  then show ?thesis using True assms
    by (simp add: to_string_int_def whole_number_def from_chars_def Let_def digit_of_10 [abs_def] digits_take)
next
  case False
  then show ?thesis
    using assms from_chars_to_string [of "nat v" "[]"] by (simp add: to_string_int_def whole_number_def in_int64_def)
qed

lemma to_string_int_first:
  "\<exists>c cs. to_string_int v = c # cs \<and> (isdigit c \<or> c = CHR ''-'')"
  using to_string_digits [of _ "nat v"] by (cases "to_string (nat v)") (auto simp: to_string_int_def)

lemma digit_not_blank: "isdigit c \<Longrightarrow> \<not> is_blank c" "operand_char c \<Longrightarrow> \<not> is_blank c" "isdigit c \<Longrightarrow> c \<noteq> CHR ''(''"
  by (auto simp: is_blank_def operand_char_def char_classes)

lemma to_string_int_last: "\<not> is_blank (last (to_string_int v))"
proof -
  have "isdigit (last (to_string n))" for n by (rule to_string_digits [of _ n]) simp
  then show ?thesis using digit_not_blank(1) by (simp add: to_string_int_def)
qed

abbreviation operand :: "ArithModifier \<Rightarrow> string" where
  "operand m \<equiv> if is_field_operand m then am_field_ref m else to_string_int (am_literal m)"

lemma operand_ends:
  assumes "modifier_ok m" "has_modifier m"
  shows "operand m \<noteq> []" "\<not> is_blank (hd (operand m))" "\<not> is_blank (last (operand m))"
proof -
  have m: "am_field_ref m \<noteq> [] \<Longrightarrow> list_all operand_char (am_field_ref m)"
    using assms by (auto simp: modifier_ok_def no_modifier_def has_modifier_def)
  obtain c cs where "to_string_int (am_literal m) = c # cs" "isdigit c \<or> c = CHR ''-''" using to_string_int_first by blast
  then show "operand m \<noteq> []" "\<not> is_blank (hd (operand m))" "\<not> is_blank (last (operand m))"
    using m digit_not_blank to_string_int_last [of "am_literal m"]
    by (auto simp: is_field_operand_def list_all_iff is_blank_def)
qed

lemma parse_print_modifier:
  assumes "modifier_ok m" "has_modifier m" "arith_char (am_op m) = [c]" "arith_op_of c = Some (am_op m)" "\<not> is_blank c"
  shows "try_parse_modifier (c # '' '' @ operand m) = Some m"
proof -
  note e = operand_ends [OF assms(1,2)]
  have t1: "trim_blanks (c # '' '' @ operand m) = c # '' '' @ operand m"
    using e assms(5) by (intro trim_id) auto
  have t2: "trim_blanks ('' '' @ operand m) = operand m"
    using trim_id [of "operand m"] e by (simp add: trim_blanks_def is_blank_def)
  obtain f fs where f: "operand m = f # fs" using e(1) by (cases "operand m") auto
  show ?thesis
  proof (cases "is_field_operand m")
    case True
    then have "list_all operand_char (f # fs)" "isalpha f \<or> f = CHR ''_''" "am_literal m = 0"
      using f assms(1,2) by (auto simp: modifier_ok_def is_field_operand_def no_modifier_def)
    moreover have "\<not> isdigit f" "f \<noteq> CHR ''-''" using calculation(2) by (auto simp: char_classes)
    ultimately show ?thesis
      using f True assms(4) t2 unfolding try_parse_modifier_def t1 by (simp split: list.splits)
  next
    case False
    then have "in_int64 (am_literal m)" "am_field_ref m = []"
      using assms(1,2) by (auto simp: modifier_ok_def is_field_operand_def no_modifier_def has_modifier_def)
    moreover have "isdigit f \<or> f = CHR ''-''" using to_string_int_first [of "am_literal m"] f False by auto
    ultimately show ?thesis
      using f False assms(4) t2 whole_number_to_string_int [of "am_literal m"]
      unfolding try_parse_modifier_def t1 by (simp split: list.splits)
  qed
qed

lemma paren_arg_printed:
  "arg_ok s \<Longrightarrow> try_parse_paren_arg (CHR ''('' # s @ CHR '')'' # after) = Some (s, after)"
proof -
  assume s: "arg_ok s"
  have all: "\<forall>c \<in> set s. c \<noteq> CHR '')''" using s by (auto simp: arg_ok_def)
  have "takeWhile (\<lambda>c. c \<noteq> CHR '')'') (s @ CHR '')'' # after) = s"
    by (subst takeWhile_append2) (use all in auto)
  moreover have "dropWhile (\<lambda>c. c \<noteq> CHR '')'') (s @ CHR '')'' # after) = CHR '')'' # after"
    by (subst dropWhile_append2) (use all in auto)
  moreover have "trim_blanks s = s" using s by (intro trim_id) (simp add: arg_ok_def)
  ultimately show "try_parse_paren_arg (CHR ''('' # s @ CHR '')'' # after) = Some (s, after)"
    by (simp add: try_parse_paren_arg_def is_blank_def)
qed

lemma arith_char_ok:
  "op \<noteq> Arith_None \<Longrightarrow> \<exists>c. arith_char op = [c] \<and> arith_op_of c = Some op \<and> \<not> is_blank c \<and> c \<noteq> CHR ''(''"
  by (cases op) (simp_all add: arith_char_def arith_op_of_def is_blank_def)

lemma parse_print_rest:
  assumes "modifier_ok m"
  shows "try_parse_paren_arg (print_modifier m) = None"
    and "trim_blanks (print_modifier m) = [] \<Longrightarrow> m = no_modifier"
    and "trim_blanks (print_modifier m) \<noteq> [] \<Longrightarrow> try_parse_modifier (trim_blanks (print_modifier m)) = Some m"
proof -
  have "try_parse_paren_arg (print_modifier m) = None \<and> (trim_blanks (print_modifier m) = [] \<longrightarrow> m = no_modifier) \<and>
    (trim_blanks (print_modifier m) \<noteq> [] \<longrightarrow> try_parse_modifier (trim_blanks (print_modifier m)) = Some m)"
  proof (cases "has_modifier m")
    case True
    obtain c where c: "arith_char (am_op m) = [c]" "arith_op_of c = Some (am_op m)" "\<not> is_blank c" "c \<noteq> CHR ''(''"
      using True arith_char_ok by (auto simp: has_modifier_def)
    have p: "print_modifier m = CHR '' '' # c # '' '' @ operand m" using True c by (simp add: print_modifier_def)
    have "trim_blanks (print_modifier m) = trim_blanks (c # '' '' @ operand m)"
      unfolding p by (simp add: trim_blanks_def is_blank_def)
    also have "\<dots> = c # '' '' @ operand m" using operand_ends [OF assms True] c by (intro trim_id) auto
    finally have t: "trim_blanks (print_modifier m) = c # '' '' @ operand m" .
    have "try_parse_paren_arg (print_modifier m) = None"
      unfolding p using c by (simp add: try_parse_paren_arg_def is_blank_def)
    then show ?thesis unfolding t using parse_print_modifier [OF assms True c(1-3)] by simp
  next
    case False
    then show ?thesis using assms
      by (auto simp: print_modifier_def modifier_ok_def try_parse_paren_arg_def trim_blanks_def)
  qed
  then show "try_parse_paren_arg (print_modifier m) = None" "trim_blanks (print_modifier m) = [] \<Longrightarrow> m = no_modifier"
    "trim_blanks (print_modifier m) \<noteq> [] \<Longrightarrow> try_parse_modifier (trim_blanks (print_modifier m)) = Some m" by blast+
qed

lemma print_modifier_last: "modifier_ok m \<Longrightarrow> print_modifier m \<noteq> [] \<Longrightarrow> \<not> is_blank (last (print_modifier m))"
  using operand_ends [of m] by (auto simp: print_modifier_def split: if_splits)

lemma parse_print_length:
  assumes "auto_ok e" "ae_kind e = Auto_Length"
  shows "parse_auto_length (print_auto e) = Inr e"
proof -
  have m: "modifier_ok (ae_modifier e)" using assms by (simp add: auto_ok_def)
  note r = parse_print_rest [OF m]
  have e: "e = new_auto_expr\<lparr>ae_kind := Auto_Length, ae_field_ref := ae_field_ref e, ae_modifier := ae_modifier e\<rparr>"
    using assms by (cases e) (simp add: auto_ok_def new_auto_expr_def)
  show ?thesis
  proof (cases "ae_field_ref e = []")
    case True
    show ?thesis
      using r True assms(2) by (subst (2) e) (auto simp: parse_auto_length_def print_auto_def new_auto_expr_def Let_def)
  next
    case False
    then have "arg_ok (ae_field_ref e)" using assms by (simp add: auto_ok_def)
    from paren_arg_printed [OF this] False r assms(2) show ?thesis
      by (subst (2) e) (auto simp: parse_auto_length_def print_auto_def new_auto_expr_def Let_def split: list.split)
  qed
qed

lemma print_auto_trimmed: "auto_ok e \<Longrightarrow> trim_blanks (print_auto e) = print_auto e"
  using print_modifier_last [of "ae_modifier e"]
  by (intro trim_id) (auto simp: print_auto_def auto_ok_def is_blank_def split: AutoKind.splits)

lemma parse_print_auto:
  assumes "auto_ok e"
  shows "parse_auto_expr (print_auto e) = Inr e"
  using assms paren_arg_printed [of "ae_key e" "[]"] paren_arg_printed [of "ae_field_ref e" "[]"] parse_print_length [OF assms]
  unfolding parse_auto_expr_def print_auto_trimmed [OF assms] Let_def
  by (cases e; cases "ae_kind e")
     (auto simp: print_auto_def auto_ok_def starts_with_def new_auto_expr_def trim_blanks_def arg_ok_def)

text \<open>
  C13: The parser of \<open>auto\<close> attributes accepts exactly what it should.  Every expression it returns is well
  formed: an argument in parentheses is not empty, has no closing parenthesis and no blanks at its ends, only
  \<open>length\<close> has a modifier, and a modifier's operand is a literal of \<open>int64_t\<close> or a field name, never both.
  Every well-formed expression, printed in normal form, is parsed back to itself.
\<close>

theorem auto_expr_round_trip:
  "(parse_auto_expr s = Inr e \<longrightarrow> auto_ok e) \<and> (auto_ok e \<longrightarrow> parse_auto_expr (print_auto e) = Inr e)"
  using parse_auto_ok parse_print_auto by blast

definition sample_auto :: AutoExpr where
  "sample_auto = new_auto_expr\<lparr>ae_kind := Auto_Length, ae_field_ref := ''payload'',
     ae_modifier := \<lparr>am_op = Arith_Sub, am_literal = -3, am_field_ref = []\<rparr>\<rparr>"

theorem auto_expr_round_trip_witness:
  "parse_auto_expr '' length ( payload )- -3 '' = Inr sample_auto \<and> auto_ok sample_auto \<and>
   print_auto sample_auto = ''length(payload) - -3'' \<and> parse_auto_expr ''length(payload) - -3'' = Inr sample_auto"
proof -
  have p: "parse_auto_expr '' length ( payload )- -3 '' = Inr sample_auto" by code_simp
  have q: "print_auto sample_auto = ''length(payload) - -3''" by code_simp
  show ?thesis using p q auto_expr_round_trip [of "'' length ( payload )- -3 ''" sample_auto] by simp
qed

end
