(* ===== verification/Bgen_Tree.thy ===== *)
theory Bgen_Tree
  imports Bgen_Ast
begin

text \<open>
  Walks over the syntax tree that several passes share: the fields below a node in document order, the
  replacement of every field, and the induction rule for lists of children.
\<close>

section \<open>Default-initialised nodes\<close>

definition new_type :: TypeDef where
  "new_type = \<lparr>td_name = [], td_base = Base_Uint, td_bits = 0, td_endian = Endian_Big, td_endian_explicit = False,
     td_format = Fmt_Decimal, td_format_explicit = False, td_wire_encoding = Wire_Default, td_wire_encoding_explicit = False,
     td_scale = None, td_offset = None, td_unit = None, td_enum_values = [], td_flags = [], td_constraint = None,
     td_length = None, td_encoding = Enc_Ascii, td_encoding_explicit = False, td_padding = Pad_Null, td_padding_explicit = False,
     td_trim = Trim_Right, td_trim_explicit = False, td_terminated = None, td_max_length = None, td_char_bits = None,
     td_annotations = [], td_loc = []\<rparr>"

definition new_field :: Field where
  "new_field = \<lparr>fd_name = [], fd_type_ref = [], fd_bits = None, fd_bytes_attr = None, fd_is_signed = False, fd_base = None,
     fd_scale = None, fd_offset = None, fd_unit = None, fd_enum_values = [], fd_flags = [], fd_constraint = None, fd_bit = None,
     fd_present_when = None, fd_length = None, fd_length_star = False, fd_length_from = None, fd_length_prefix = None,
     fd_length_includes_prefix = False, fd_encoding = None, fd_padding = None, fd_trim = None, fd_terminated = None,
     fd_max_length = None, fd_char_bits = None, fd_endian = Endian_Big, fd_endian_explicit = False, fd_format = Fmt_Decimal,
     fd_format_explicit = False, fd_wire_encoding = None, fd_is_inline = False, fd_default_value = None, fd_auto_expr = None,
     fd_annotations = [], fd_loc = []\<rparr>"

definition new_struct :: StructInfo where
  "new_struct = \<lparr>sd_name = [], sd_is_bitmap = False, sd_bitmap_bits = 8, sd_bitmap_ext = None, sd_bitmap_endian = Endian_Big,
     sd_bit = None, sd_present_when = None, sd_type_override = None, sd_has_explicit_empty = False, sd_loc = []\<rparr>"

definition new_array :: ArrayInfo where
  "new_array = \<lparr>ai_name = [], ai_type_ref = [], ai_fixed_count = None, ai_count_from = None, ai_count_star = False,
     ai_count_fx = False, ai_length = None, ai_length_from = None, ai_bit = None, ai_present_when = None,
     ai_type_override = None, ai_loc = []\<rparr>"

definition new_case :: CaseInfo where
  "new_case = \<lparr>ci_name = [], ci_type_ref = [], ci_value = None, ci_range = None, ci_direction = Dir_Both,
     ci_type_override = None, ci_loc = []\<rparr>"

definition new_choice :: ChoiceInfo where
  "new_choice = \<lparr>chi_name = [], chi_switch_expr = None, chi_length = None, chi_length_from = None, chi_bit = None,
     chi_present_when = None, chi_type_override = None, chi_loc = []\<rparr>"

definition new_message :: MessageDef where
  "new_message = \<lparr>md_name = [], md_children = [], md_id = [], md_direction = Dir_Both, md_has_explicit_empty = False,
     md_annotations = [], md_loc = []\<rparr>"

definition new_frame :: FrameDef where
  "new_frame = \<lparr>fr_name = [], fr_header_fields = [], fr_payload = \<lparr>pd_is_array = False, pd_length_from = None\<rparr>,
     fr_footer_fields = [], fr_loc = []\<rparr>"

definition new_protocol :: Protocol where
  "new_protocol = \<lparr>pr_name = [], pr_version = [], pr_bmdl_version = [], pr_defaults = BUILTIN_DEFAULTS, pr_imports = [],
     pr_constants = [], pr_types = [], pr_structs = [], pr_messages = [], pr_frames = [], pr_warnings = [], pr_loc = []\<rparr>"

lemmas node_defs = new_type_def new_field_def new_struct_def new_array_def new_case_def new_choice_def new_message_def
  new_frame_def new_protocol_def

section \<open>Walks\<close>

lemma size_case_child [termination_simp]:
  "(i, cs) \<in> set cases \<Longrightarrow> x \<in> set cs \<Longrightarrow> size x < size_list (size_prod (\<lambda>_. 0) (size_list size)) cases"
  using size_list_estimation [of "(i, cs)" cases "size x" "size_prod (\<lambda>_. 0) (size_list size)"]
    size_list_estimation' [of x cs "size x" size]
  by simp

lemma size_otherwise_child [termination_simp]:
  "ow = Some (i, cs) \<Longrightarrow> x \<in> set cs \<Longrightarrow> size x < size_option (size_prod (\<lambda>_. 0) (size_list size)) ow"
  using size_list_estimation' [of x cs "size x" size] by simp

fun child_fields :: "StructChild \<Rightarrow> Field list" where
  "child_fields (Child_Field f) = [f]"
| "child_fields (Child_Struct i cs) = concat (map child_fields cs)"
| "child_fields (Child_Array i cs) = concat (map child_fields cs)"
| "child_fields (Child_Choice i cases ow) =
     concat (map (\<lambda>(i, cs). concat (map child_fields cs)) cases) @
     (case ow of None \<Rightarrow> [] | Some (i, cs) \<Rightarrow> concat (map child_fields cs))"
| "child_fields (Child_Fx cs) = concat (map child_fields cs)"
| "child_fields (Child_Reserved n) = []"
| "child_fields (Child_Align n) = []"

fun map_fields :: "(Field \<Rightarrow> Field) \<Rightarrow> StructChild \<Rightarrow> StructChild" where
  "map_fields g (Child_Field f) = Child_Field (g f)"
| "map_fields g (Child_Struct i cs) = Child_Struct i (map (map_fields g) cs)"
| "map_fields g (Child_Array i cs) = Child_Array i (map (map_fields g) cs)"
| "map_fields g (Child_Choice i cases ow) =
     Child_Choice i (map (\<lambda>(i, cs). (i, map (map_fields g) cs)) cases)
       (case ow of None \<Rightarrow> None | Some (i, cs) \<Rightarrow> Some (i, map (map_fields g) cs))"
| "map_fields g (Child_Fx cs) = Child_Fx (map (map_fields g) cs)"
| "map_fields g (Child_Reserved n) = Child_Reserved n"
| "map_fields g (Child_Align n) = Child_Align n"

abbreviation all_fields :: "StructChild list \<Rightarrow> Field list" where
  "all_fields cs \<equiv> concat (map child_fields cs)"

lemma child_induct [case_names Field Struct Array Choice Fx Reserved Align]:
  assumes "\<And>f. P (Child_Field f)"
    and "\<And>i cs. (\<And>c. c \<in> set cs \<Longrightarrow> P c) \<Longrightarrow> P (Child_Struct i cs)"
    and "\<And>i cs. (\<And>c. c \<in> set cs \<Longrightarrow> P c) \<Longrightarrow> P (Child_Array i cs)"
    and "\<And>i cases ow. (\<And>j cs c. (j, cs) \<in> set cases \<Longrightarrow> c \<in> set cs \<Longrightarrow> P c) \<Longrightarrow>
           (\<And>j cs c. ow = Some (j, cs) \<Longrightarrow> c \<in> set cs \<Longrightarrow> P c) \<Longrightarrow> P (Child_Choice i cases ow)"
    and "\<And>cs. (\<And>c. c \<in> set cs \<Longrightarrow> P c) \<Longrightarrow> P (Child_Fx cs)"
    and "\<And>n. P (Child_Reserved n)" and "\<And>n. P (Child_Align n)"
  shows "P c"
proof (induction c rule: child_fields.induct)
  case (4 i cases ow)
  then show ?case by (intro assms(4)) blast+
qed (use assms in blast)+

lemma concat_map_cases:
  "(\<And>i cs. (i, cs) \<in> set cases \<Longrightarrow> F (h cs) = map g (F cs)) \<Longrightarrow>
   concat (map (\<lambda>(i, cs). F cs) (map (\<lambda>(i, cs). (i, h cs)) cases)) = map g (concat (map (\<lambda>(i, cs). F cs) cases))"
proof (induction cases)
  case (Cons p ps)
  have "concat (map (\<lambda>(i, cs). F cs) (map (\<lambda>(i, cs). (i, h cs)) ps)) = map g (concat (map (\<lambda>(i, cs). F cs) ps))"
    using Cons by (meson list.set_intros(2))
  then show ?case using Cons.prems [of "fst p" "snd p"] by (cases p) simp
qed simp

lemma map_cases_same:
  "(\<And>i cs. (i, cs) \<in> set cases \<Longrightarrow> F i (h cs) = F i cs) \<Longrightarrow>
   map (\<lambda>(i, cs). F i cs) (map (\<lambda>(i, cs). (i, h cs)) cases) = map (\<lambda>(i, cs). F i cs) cases"
  by (auto simp: comp_def)

lemma child_fields_map: "child_fields (map_fields g c) = map g (child_fields c)"
proof (induction c rule: child_induct)
  case (Choice i cases ow)
  have list: "all_fields (map (map_fields g) cs) = map g (all_fields cs)"
    if "\<And>c. c \<in> set cs \<Longrightarrow> child_fields (map_fields g c) = map g (child_fields c)" for cs
    using that by (induction cs) simp_all
  have "concat (map (\<lambda>(i, cs). all_fields cs) (map (\<lambda>(i, cs). (i, map (map_fields g) cs)) cases)) =
      map g (concat (map (\<lambda>(i, cs). all_fields cs) cases))"
    using Choice(1) list by (intro concat_map_cases) blast
  moreover have "all_fields (map (map_fields g) cs) = map g (all_fields cs)" if "ow = Some (j, cs)" for j cs
    using Choice(2) [OF that] by (rule list)
  ultimately show ?case by (simp del: map_map split: option.split)
qed (auto simp: map_concat intro!: arg_cong [of _ _ concat] map_cong)

lemma all_fields_map: "all_fields (map (map_fields g) cs) = map g (all_fields cs)"
  by (induction cs) (simp_all add: child_fields_map)

end
