(* ===== verification/Bgen_Import.thy ===== *)
theory Bgen_Import
  imports Bgen_Tree
begin

text \<open>
  Imports and the merged protocol: \<open>bgen/src/parser/import_resolver.cpp\<close> and \<open>bgen/src/model/ast_builder.cpp\<close>.

  The file system, the path operations and the parser of one file are parameters, collected in \<open>Files\<close>; an
  operation that can throw returns the text of the exception on the left.  The resolver is the source's
  depth-first walk with its list of files seen, bounded by the depth limit.
\<close>

section \<open>Import resolver\<close>

type_synonym located_error = "string \<times> string"

record Files =
  fs_normalize :: "string \<Rightarrow> string + string"
  fs_join :: "string \<Rightarrow> string \<Rightarrow> string"
  fs_exists :: "string \<Rightarrow> string + bool"
  fs_parse :: "string \<Rightarrow> located_error list + BmdlFile"

record Resolver =
  rs_seen :: "string list"
  rs_files :: "BmdlFile list"
  rs_errors :: "located_error list"

definition MAX_IMPORT_DEPTH :: nat where
  "MAX_IMPORT_DEPTH = 64"

text \<open>A dash between blanks, in UTF-8.\<close>

definition em_dash :: string where
  "em_dash = [CHR '' '', CHR 0xE2, CHR 0x80, CHR 0x94, CHR '' '']"

text \<open>A location in a file without line information, as it is printed.\<close>

definition file_loc :: "string \<Rightarrow> string" where
  "file_loc path = (if path = [] then ''<unknown>'' else path @ '':offset(0)'')"

definition push_error :: "string \<Rightarrow> string \<Rightarrow> Resolver \<Rightarrow> Resolver" where
  "push_error msg loc st = st\<lparr>rs_errors := rs_errors st @ [(msg, loc)]\<rparr>"

definition normalize_path :: "Files \<Rightarrow> string \<Rightarrow> Resolver \<Rightarrow> string \<times> Resolver" where
  "normalize_path fs path st =
     (case fs_normalize fs path of
        Inr p \<Rightarrow> (p, st)
      | Inl what \<Rightarrow> (path, push_error (''path normalization failed for: '' @ path @ '' ('' @ what @ '')'') ''<unknown>'' st))"

text \<open>\<open>dedup_key\<close> is the path itself outside Windows.\<close>

function resolve_file :: "Files \<Rightarrow> string \<Rightarrow> nat \<Rightarrow> Resolver \<Rightarrow> Resolver"
  and resolve_import_list :: "Files \<Rightarrow> string \<Rightarrow> ImportDef list \<Rightarrow> nat \<Rightarrow> Resolver \<Rightarrow> Resolver" where
  "resolve_file fs abs_path depth st =
     (if depth > MAX_IMPORT_DEPTH then
        push_error (''import depth exceeds '' @ to_string MAX_IMPORT_DEPTH @ em_dash @ ''possible circular import chain'') (file_loc abs_path) st
      else if abs_path \<in> set (rs_seen st) then st
      else
        let st = st\<lparr>rs_seen := abs_path # rs_seen st\<rparr>
        in case fs_parse fs abs_path of
             Inl errors \<Rightarrow> st\<lparr>rs_errors := rs_errors st @ errors\<rparr>
           | Inr bmdl \<Rightarrow>
               let st = resolve_import_list fs abs_path (bf_imports bmdl) depth st
               in st\<lparr>rs_files := rs_files st @ [bmdl]\<rparr>)"
| "resolve_import_list fs abs_path [] depth st = st"
| "resolve_import_list fs abs_path (imp # imps) depth st =
     (case normalize_path fs (fs_join fs abs_path (imp_href imp)) st of
        (imp_path, st) \<Rightarrow>
          resolve_import_list fs abs_path imps depth
            (case fs_exists fs imp_path of
               Inl what \<Rightarrow> push_error (''cannot access import '' @ [CHR 0x27] @ imp_href imp @ [CHR 0x27] @ '': '' @ what) (imp_loc imp) st
             | Inr False \<Rightarrow> push_error (''import file not found: '' @ imp_href imp) (imp_loc imp) st
             | Inr True \<Rightarrow> resolve_file fs imp_path (Suc depth) st))"
  by pat_completeness auto
termination
  by (relation "inv_image (less_than <*lex*> less_than <*lex*> less_than) (\<lambda>x. case x of
        Inl (fs, p, d, st) \<Rightarrow> if d > MAX_IMPORT_DEPTH then (0, 0, 0) else (MAX_IMPORT_DEPTH + 2 - d, 2, 0)
      | Inr (fs, p, is, d, st) \<Rightarrow> (MAX_IMPORT_DEPTH + 2 - d, 1, length is))") auto

declare resolve_file.simps [simp del]

definition new_resolver :: Resolver where
  "new_resolver = \<lparr>rs_seen = [], rs_files = [], rs_errors = []\<rparr>"

definition resolve_imports :: "Files \<Rightarrow> string \<Rightarrow> located_error list + BmdlFile list" where
  "resolve_imports fs root_path =
     (let (abs_path, st) = normalize_path fs root_path new_resolver;
          st = resolve_file fs abs_path 0 st
      in if rs_errors st \<noteq> [] then Inl (rs_errors st) else Inr (rs_files st))"

section \<open>Order of the files\<close>

text \<open>The imports of a file, as paths.\<close>

definition imports_of :: "Files \<Rightarrow> string \<Rightarrow> string set" where
  "imports_of fs p =
     (case fs_parse fs p of
        Inl e \<Rightarrow> {}
      | Inr f \<Rightarrow> {q. \<exists>i \<in> set (bf_imports f). fs_normalize fs (fs_join fs p (imp_href i)) = Inr q})"

definition import_edge :: "Files \<Rightarrow> (string \<times> string) set" where
  "import_edge fs = {(p, q). q \<in> imports_of fs p}"

text \<open>
  The state after files \<open>ps\<close> have been finished: they are the parsed files in order, and the imports of each
  were finished before it or lie on a cycle with it.
\<close>

definition walked :: "Files \<Rightarrow> string list \<Rightarrow> Resolver \<Rightarrow> bool" where
  "walked fs ps st \<longleftrightarrow>
     map (fs_parse fs) ps = map Inr (rs_files st) \<and> distinct ps \<and> set ps \<subseteq> set (rs_seen st) \<and>
     (\<forall>i<length ps. \<forall>q \<in> imports_of fs (ps ! i). q \<in> set (take i ps) \<or> (q, ps ! i) \<in> (import_edge fs)\<^sup>*) \<and>
     (\<forall>p \<in> set ps. imports_of fs p \<subseteq> set (rs_seen st))"

text \<open>A step of the walk: from the node \<open>p\<close>, with the same files in progress before and after.\<close>

definition walk :: "Files \<Rightarrow> string \<Rightarrow> string list \<Rightarrow> Resolver \<Rightarrow> string list \<Rightarrow> Resolver \<Rightarrow> bool" where
  "walk fs p ps st ps' st' \<longleftrightarrow>
     walked fs ps' st' \<and> set (rs_seen st) \<subseteq> set (rs_seen st') \<and> set ps \<subseteq> set ps' \<and>
     set (rs_seen st') - set ps' = set (rs_seen st) - set ps \<and>
     (\<forall>q \<in> set ps' - set ps. (p, q) \<in> (import_edge fs)\<^sup>*)"

definition import_step :: "Files \<Rightarrow> ImportDef \<Rightarrow> string \<Rightarrow> nat \<Rightarrow> Resolver \<Rightarrow> Resolver" where
  "import_step fs imp imp_path depth st =
     (case fs_exists fs imp_path of
        Inl what \<Rightarrow> push_error (''cannot access import '' @ [CHR 0x27] @ imp_href imp @ [CHR 0x27] @ '': '' @ what) (imp_loc imp) st
      | Inr False \<Rightarrow> push_error (''import file not found: '' @ imp_href imp) (imp_loc imp) st
      | Inr True \<Rightarrow> resolve_file fs imp_path (Suc depth) st)"

lemma resolve_list_step:
  assumes "normalize_path fs (fs_join fs p (imp_href imp)) st = (q, st1)"
  shows "resolve_import_list fs p (imp # imps) d st = resolve_import_list fs p imps d (import_step fs imp q d st1)"
  using assms by (simp add: import_step_def)

lemma resolve_induct [case_names Node Nil Step]:
  assumes "\<And>fs p d st. (\<And>f. d \<le> MAX_IMPORT_DEPTH \<Longrightarrow> p \<notin> set (rs_seen st) \<Longrightarrow> fs_parse fs p = Inr f \<Longrightarrow>
             L fs p (bf_imports f) d (st\<lparr>rs_seen := p # rs_seen st\<rparr>)) \<Longrightarrow> F fs p d st"
    and "\<And>fs p d st. L fs p [] d st"
    and "\<And>fs p imp imps d st q st1. normalize_path fs (fs_join fs p (imp_href imp)) st = (q, st1) \<Longrightarrow>
           (fs_exists fs q = Inr True \<Longrightarrow> F fs q (Suc d) st1) \<Longrightarrow>
           L fs p imps d (import_step fs imp q d st1) \<Longrightarrow> L fs p (imp # imps) d st"
  shows "F fs p d st" and "L fs p is d st"
proof (induction fs p d st and fs p "is" d st rule: resolve_file_resolve_import_list.induct)
  case (1 fs p d st)
  then show ?case by (intro assms(1)) (simp add: linorder_not_less)
next
  case (3 fs p imp imps d st)
  obtain q st1 where n: "normalize_path fs (fs_join fs p (imp_href imp)) st = (q, st1)" by fastforce
  show ?case
    by (rule assms(3) [OF n]) (use 3 n in \<open>auto simp: import_step_def\<close>)
qed (rule assms(2))

lemma errors_grow:
  "rs_errors (resolve_file fs p d st) = [] \<Longrightarrow> rs_errors st = []"
  "rs_errors (resolve_import_list fs p is d st) = [] \<Longrightarrow> rs_errors st = []"
proof (induction fs p d st and fs p "is" d st rule: resolve_induct)
  case (Node fs p d st)
  then show ?case
    by (auto simp: resolve_file.simps [of fs p d st] push_error_def Let_def split: if_splits sum.splits)
next
  case (Step fs p imp imps d st q st1)
  have "rs_errors (import_step fs imp q d st1) = []" using Step.IH(2) Step.prems resolve_list_step [OF Step.hyps] by simp
  then have "rs_errors st1 = []"
    using Step.IH(1) by (auto simp: import_step_def push_error_def split: sum.splits bool.splits)
  then show ?case using Step.hyps by (auto simp: normalize_path_def push_error_def split: sum.splits)
qed simp

lemma walked_seen: "walked fs ps st \<Longrightarrow> walked fs ps (st\<lparr>rs_seen := p # rs_seen st\<rparr>)"
  by (auto simp: walked_def)

lemma walk_refl: "walked fs ps st \<Longrightarrow> walk fs p ps st ps st"
  by (simp add: walk_def)

lemma walk_trans:
  assumes "walk fs q ps st ps1 st1" "(p, q) \<in> import_edge fs" "walk fs p ps1 st1 ps2 st2"
  shows "walk fs p ps st ps2 st2"
proof -
  have "\<forall>x \<in> set ps2 - set ps. (p, x) \<in> (import_edge fs)\<^sup>*"
    using assms unfolding walk_def by (meson DiffD1 DiffD2 DiffI converse_rtrancl_into_rtrancl)
  then show ?thesis using assms unfolding walk_def by simp blast
qed

lemma walk_finish:
  assumes parse: "fs_parse fs p = Inr f" and new: "p \<notin> set (rs_seen st)"
    and stack: "\<forall>s \<in> set (rs_seen st) - set ps. (s, p) \<in> (import_edge fs)\<^sup>*"
    and ps: "set ps \<subseteq> set (rs_seen st)"
    and w: "walk fs p ps (st\<lparr>rs_seen := p # rs_seen st\<rparr>) ps1 st1" and i: "imports_of fs p \<subseteq> set (rs_seen st1)"
  shows "walk fs p ps st (ps1 @ [p]) (st1\<lparr>rs_files := rs_files st1 @ [f]\<rparr>)"
proof -
  have w1: "walked fs ps1 st1" and open1: "set (rs_seen st1) - set ps1 = insert p (set (rs_seen st)) - set ps"
    and mono: "insert p (set (rs_seen st)) \<subseteq> set (rs_seen st1)" "set ps \<subseteq> set ps1"
    and reach: "\<forall>q \<in> set ps1 - set ps. (p, q) \<in> (import_edge fs)\<^sup>*"
    using w by (simp_all add: walk_def)
  have p: "p \<notin> set ps1" "p \<notin> set ps" using open1 new ps by auto
  have "q \<in> set ps1 \<or> (q, p) \<in> (import_edge fs)\<^sup>*" if "q \<in> imports_of fs p" for q
  proof -
    have "q \<in> set ps1 \<or> q = p \<or> q \<in> set (rs_seen st) - set ps" using that i open1 by blast
    then show ?thesis using stack by auto
  qed
  then have order: "\<forall>i<length (ps1 @ [p]). \<forall>q \<in> imports_of fs ((ps1 @ [p]) ! i).
      q \<in> set (take i (ps1 @ [p])) \<or> (q, (ps1 @ [p]) ! i) \<in> (import_edge fs)\<^sup>*"
    using w1 by (auto simp: walked_def nth_append less_Suc_eq)
  have "walked fs (ps1 @ [p]) (st1\<lparr>rs_files := rs_files st1 @ [f]\<rparr>)"
    unfolding walked_def using w1 p parse i mono order by (auto simp: walked_def)
  then show ?thesis unfolding walk_def using mono open1 reach p new by auto
qed

lemma import_step_ok:
  assumes "rs_errors (import_step fs imp q d st1) = []" "normalize_path fs path st = (q, st1)"
  shows "fs_normalize fs path = Inr q" "st1 = st" "fs_exists fs q = Inr True" "import_step fs imp q d st1 = resolve_file fs q (Suc d) st"
proof -
  have x: "fs_exists fs q = Inr True"
    using assms(1) by (auto simp: import_step_def push_error_def split: sum.splits bool.splits)
  then have "rs_errors st1 = []" using assms(1) errors_grow(1) by (simp add: import_step_def)
  then have "fs_normalize fs path = Inr q \<and> st1 = st"
    using assms(2) by (auto simp: normalize_path_def push_error_def split: sum.splits)
  then show "fs_normalize fs path = Inr q" "st1 = st" "fs_exists fs q = Inr True" "import_step fs imp q d st1 = resolve_file fs q (Suc d) st"
    using x by (simp_all add: import_step_def)
qed

lemma resolve_walks:
  "rs_errors (resolve_file fs p d st) = [] \<Longrightarrow> \<forall>p. fs_parse fs p \<noteq> Inl [] \<Longrightarrow> walked fs ps st \<Longrightarrow>
   \<forall>s \<in> set (rs_seen st) - set ps. (s, p) \<in> (import_edge fs)\<^sup>* \<Longrightarrow>
   \<exists>ps'. walk fs p ps st ps' (resolve_file fs p d st) \<and> p \<in> set (rs_seen (resolve_file fs p d st)) \<and>
     (p \<notin> set (rs_seen st) \<longrightarrow> ps' \<noteq> [] \<and> last ps' = p)"
  "rs_errors (resolve_import_list fs p is d st) = [] \<Longrightarrow> \<forall>p. fs_parse fs p \<noteq> Inl [] \<Longrightarrow> walked fs ps st \<Longrightarrow>
   \<forall>s \<in> set (rs_seen st) - set ps. (s, p) \<in> (import_edge fs)\<^sup>* \<Longrightarrow>
   \<forall>i \<in> set is. \<forall>q. fs_normalize fs (fs_join fs p (imp_href i)) = Inr q \<longrightarrow> (p, q) \<in> import_edge fs \<Longrightarrow>
   \<exists>ps'. walk fs p ps st ps' (resolve_import_list fs p is d st) \<and>
     (\<forall>i \<in> set is. \<forall>q. fs_normalize fs (fs_join fs p (imp_href i)) = Inr q \<longrightarrow> q \<in> set (rs_seen (resolve_import_list fs p is d st)))"
proof (induction fs p d st and fs p "is" d st arbitrary: ps and ps rule: resolve_induct)
  case (Node fs p d st)
  note eq = resolve_file.simps [of fs p d st]
  have d: "d \<le> MAX_IMPORT_DEPTH" using Node.prems(1) by (auto simp: eq push_error_def split: if_splits)
  show ?case
  proof (cases "p \<in> set (rs_seen st)")
    case True
    then show ?thesis using d walk_refl [OF Node.prems(3)] by (auto simp: eq)
  next
    case new: False
    let ?st = "st\<lparr>rs_seen := p # rs_seen st\<rparr>"
    show ?thesis
    proof (cases "fs_parse fs p")
      case (Inl e)
      then show ?thesis using Node.prems(1,2) d new by (auto simp: eq)
    next
      case (Inr f)
      let ?st1 = "resolve_import_list fs p (bf_imports f) d ?st"
      have r: "resolve_file fs p d st = ?st1\<lparr>rs_files := rs_files ?st1 @ [f]\<rparr>" using d new Inr by (simp add: eq Let_def)
      have e: "rs_errors ?st1 = []" using Node.prems(1) by (simp add: r)
      have stack: "\<forall>s \<in> set (rs_seen ?st) - set ps. (s, p) \<in> (import_edge fs)\<^sup>*" using Node.prems(4) by auto
      have edges: "\<forall>i \<in> set (bf_imports f). \<forall>q. fs_normalize fs (fs_join fs p (imp_href i)) = Inr q \<longrightarrow> (p, q) \<in> import_edge fs"
        using Inr by (auto simp: import_edge_def imports_of_def)
      obtain ps1 where w: "walk fs p ps ?st ps1 ?st1"
        and s: "\<forall>i \<in> set (bf_imports f). \<forall>q. fs_normalize fs (fs_join fs p (imp_href i)) = Inr q \<longrightarrow> q \<in> set (rs_seen ?st1)"
        using Node.IH [OF d new Inr e Node.prems(2) walked_seen [OF Node.prems(3)] stack edges] by blast
      have "imports_of fs p \<subseteq> set (rs_seen ?st1)" using s by (auto simp: imports_of_def Inr)
      moreover have "p \<in> set (rs_seen ?st1)" using w by (auto simp: walk_def)
      moreover have "walk fs p ps st (ps1 @ [p]) (resolve_file fs p d st)"
        unfolding r using walk_finish [OF Inr new Node.prems(4) _ w] Node.prems(3) calculation(1) by (simp add: walked_def)
      ultimately show ?thesis by (intro exI [of _ "ps1 @ [p]"]) (simp add: r)
    qed
  qed
next
  case (Nil fs p d st)
  then show ?case using walk_refl [OF Nil(3), of p] by auto
next
  case (Step fs p imp imps d st q st1)
  note l = resolve_list_step [OF Step.hyps, of imps d]
  have e2: "rs_errors (import_step fs imp q d st1) = []" using errors_grow(2) Step.prems(1) unfolding l by blast
  note ok = import_step_ok [OF e2 Step.hyps]
  let ?st2 = "resolve_file fs q (Suc d) st"
  have edge: "(p, q) \<in> import_edge fs" using Step.prems(5) ok(1) by simp
  have "\<forall>s \<in> set (rs_seen st) - set ps. (s, q) \<in> (import_edge fs)\<^sup>*"
    using Step.prems(4) edge by (meson rtrancl.rtrancl_into_rtrancl)
  then obtain ps1 where w1: "walk fs q ps st ps1 ?st2" and q: "q \<in> set (rs_seen ?st2)"
    using Step.IH(1) [OF ok(3), unfolded ok(2), OF _ Step.prems(2,3)] e2 unfolding ok(4) by blast
  have "walked fs ps1 ?st2" "set (rs_seen ?st2) - set ps1 = set (rs_seen st) - set ps" using w1 by (simp_all add: walk_def)
  then have stack: "\<forall>s \<in> set (rs_seen ?st2) - set ps1. (s, p) \<in> (import_edge fs)\<^sup>*" and w1': "walked fs ps1 ?st2"
    using Step.prems(4) by simp_all
  have edges: "\<forall>i \<in> set imps. \<forall>q. fs_normalize fs (fs_join fs p (imp_href i)) = Inr q \<longrightarrow> (p, q) \<in> import_edge fs"
    using Step.prems(5) by simp
  obtain ps2 where w2: "walk fs p ps1 ?st2 ps2 (resolve_import_list fs p imps d ?st2)"
    and s2: "\<forall>i \<in> set imps. \<forall>q. fs_normalize fs (fs_join fs p (imp_href i)) = Inr q \<longrightarrow> q \<in> set (rs_seen (resolve_import_list fs p imps d ?st2))"
    using Step.IH(2) [unfolded ok(4), OF Step.prems(1) [unfolded l ok(4)] Step.prems(2) w1' stack edges] by blast
  have "q \<in> set (rs_seen (resolve_import_list fs p imps d ?st2))" using q w2 by (auto simp: walk_def)
  then show ?case unfolding l ok(4) using walk_trans [OF w1 edge w2] s2 ok(1) by auto
qed

text \<open>
  C11: The files of a resolved description are in dependency order.  There is a list of paths, without
  repetition and ending with the root file, whose files are the ones returned; it holds exactly the files
  reachable from the root by imports; and whatever a file imports comes before it, unless the two import each
  other in a circle.  The parser of one file is assumed to report at least one error when it fails.
\<close>

theorem imports_in_order:
  assumes "resolve_imports fs root_path = Inr files" and "\<forall>p. fs_parse fs p \<noteq> Inl []"
  shows "\<exists>p0 ps. fs_normalize fs root_path = Inr p0 \<and> map (fs_parse fs) ps = map Inr files \<and> distinct ps \<and>
    ps \<noteq> [] \<and> last ps = p0 \<and> set ps = {q. (p0, q) \<in> (import_edge fs)\<^sup>*} \<and>
    (\<forall>i<length ps. \<forall>q \<in> imports_of fs (ps ! i). q \<in> set (take i ps) \<or> (q, ps ! i) \<in> (import_edge fs)\<^sup>*)"
proof -
  obtain p0 st where n: "normalize_path fs root_path new_resolver = (p0, st)" by fastforce
  let ?st = "resolve_file fs p0 0 st"
  have e: "rs_errors ?st = []" and f: "files = rs_files ?st"
    using assms(1) by (auto simp: resolve_imports_def n Let_def split: if_splits)
  have s: "st = new_resolver" "fs_normalize fs root_path = Inr p0"
    using errors_grow(1) [OF e] n by (auto simp: normalize_path_def push_error_def split: sum.splits)
  have "walked fs [] st" by (simp add: walked_def s new_resolver_def)
  then obtain ps where w: "walk fs p0 [] st ps ?st" and a: "p0 \<in> set (rs_seen ?st)" and l: "ps \<noteq> []" "last ps = p0"
    using resolve_walks(1) [OF e assms(2), of "[]"] by (auto simp: s new_resolver_def)
  have all_done: "set (rs_seen ?st) = set ps" using w by (auto simp: walk_def walked_def s new_resolver_def)
  have "q \<in> set ps" if "(p0, q) \<in> (import_edge fs)\<^sup>*" for q
    using that
  proof induction
    case base
    then show ?case using a all_done by simp
  next
    case (step y z)
    then show ?case using w all_done by (auto simp: walk_def walked_def import_edge_def)
  qed
  then have "set ps = {q. (p0, q) \<in> (import_edge fs)\<^sup>*}" using w by (auto simp: walk_def)
  then show ?thesis using w l s(2) f unfolding walk_def walked_def by blast
qed

text \<open>Files given by the names they import, for the examples.\<close>

definition plain_file :: "string \<Rightarrow> string list \<Rightarrow> BmdlFile" where
  "plain_file path hrefs =
     \<lparr>bf_file_path = path, bf_bmdl_version = ''2.0'', bf_has_protocol = False, bf_protocol_name = [],
      bf_protocol_version = [], bf_defaults = BUILTIN_DEFAULTS,
      bf_imports = map (\<lambda>h. \<lparr>imp_href = h, imp_ns = None, imp_loc = path\<rparr>) hrefs,
      bf_constants = [], bf_types = [], bf_structs = [], bf_messages = [], bf_frames = [], bf_warnings = [], bf_loc = path\<rparr>"

definition plain_files :: "(string \<times> string list) list \<Rightarrow> Files" where
  "plain_files tree =
     \<lparr>fs_normalize = Inr, fs_join = (\<lambda>p h. h), fs_exists = (\<lambda>p. Inr (map_of tree p \<noteq> None)),
      fs_parse = (\<lambda>p. case map_of tree p of None \<Rightarrow> Inl [(''cannot open'', p)] | Some hs \<Rightarrow> Inr (plain_file p hs))\<rparr>"

definition diamond :: Files where
  "diamond = plain_files [(''a'', [''b'', ''c'']), (''b'', [''d'']), (''c'', [''d'']), (''d'', [])]"

theorem imports_in_order_witness:
  "\<exists>files ps. resolve_imports diamond ''a'' = Inr files \<and> map bf_file_path files = [''d'', ''b'', ''c'', ''a''] \<and>
     map (fs_parse diamond) ps = map Inr files \<and> distinct ps \<and> last ps = ''a''"
proof -
  define fs where "fs = [plain_file ''d'' [], plain_file ''b'' [''d''], plain_file ''c'' [''d''], plain_file ''a'' [''b'', ''c'']]"
  have r: "resolve_imports diamond ''a'' = Inr fs" unfolding fs_def by code_simp
  have p: "\<forall>p. fs_parse diamond p \<noteq> Inl []" by (simp add: diamond_def plain_files_def split: option.split)
  have n: "fs_normalize diamond ''a'' = Inr ''a''" by (simp add: diamond_def plain_files_def)
  have m: "map bf_file_path fs = [''d'', ''b'', ''c'', ''a'']" by (simp add: fs_def plain_file_def)
  obtain ps where "map (fs_parse diamond) ps = map Inr fs" "distinct ps" "last ps = ''a''"
    using imports_in_order [OF r p] unfolding n sum.inject by (elim exE conjE) simp
  then show ?thesis using r m by (intro exI [of _ fs] exI [of _ ps] conjI)
qed

text \<open>The files \<open>0\<close> to \<open>n\<close>, each of which imports the next.\<close>

definition chain :: "nat \<Rightarrow> Files" where
  "chain n = (plain_files [])\<lparr>fs_exists := (\<lambda>p. Inr True),
     fs_parse := (\<lambda>p. Inr (plain_file p (if digits_value p < n then [to_string (Suc (digits_value p))] else [])))\<rparr>"

lemma to_string_eq: "to_string j = to_string k \<longleftrightarrow> j = k"
  by (metis digits_value_to_string)

abbreviation deep_error :: located_error where
  "deep_error \<equiv> (''import depth exceeds 64'' @ em_dash @ ''possible circular import chain'', file_loc (to_string 65))"

lemma chain_simps:
  "fs_normalize (chain n) p = Inr p" "fs_join (chain n) p h = h" "fs_exists (chain n) p = Inr True"
  "fs_parse (chain n) (to_string k) = Inr (plain_file (to_string k) (if k < n then [to_string (Suc k)] else []))"
  "bf_imports (plain_file p hs) = map (\<lambda>h. \<lparr>imp_href = h, imp_ns = None, imp_loc = p\<rparr>) hs"
  using digits_value_to_string [of k] by (simp_all add: chain_def plain_files_def plain_file_def del: digits_value.simps)

lemma chain_import:
  assumes "k \<le> 64" "to_string k \<notin> set (rs_seen st)"
  shows "resolve_file (chain n) (to_string k) k st =
    (let st1 = st\<lparr>rs_seen := to_string k # rs_seen st\<rparr>;
         st2 = (if k < n then resolve_file (chain n) (to_string (Suc k)) (Suc k) st1 else st1)
     in st2\<lparr>rs_files := rs_files st2 @ [plain_file (to_string k) (if k < n then [to_string (Suc k)] else [])]\<rparr>)"
  using assms
  by (simp add: resolve_file.simps [of _ "to_string k"] MAX_IMPORT_DEPTH_def chain_simps normalize_path_def Let_def)

lemma chain_walk:
  assumes "k \<le> 65" "k \<le> n" "\<forall>j\<ge>k. to_string j \<notin> set (rs_seen st)"
  shows "rs_errors (resolve_file (chain n) (to_string k) k st) = rs_errors st @ (if n \<le> 64 then [] else [deep_error]) \<and>
    (n \<le> 64 \<longrightarrow> length (rs_files (resolve_file (chain n) (to_string k) k st)) = length (rs_files st) + (n - k) + 1)"
  using assms
proof (induction "65 - k" arbitrary: k st)
  case 0
  then have "k = 65" by simp
  moreover have "to_string 64 = ''64''" by code_simp
  ultimately show ?case using 0 by (simp add: resolve_file.simps [of _ "to_string 65"] MAX_IMPORT_DEPTH_def push_error_def)
next
  case (Suc m)
  let ?st = "st\<lparr>rs_seen := to_string k # rs_seen st\<rparr>"
  have "\<forall>j\<ge>Suc k. to_string j \<notin> set (rs_seen ?st)" using Suc.prems(3) by (auto simp: to_string_eq)
  then have "k < n \<Longrightarrow> rs_errors (resolve_file (chain n) (to_string (Suc k)) (Suc k) ?st) = rs_errors st @ (if n \<le> 64 then [] else [deep_error]) \<and>
      (n \<le> 64 \<longrightarrow> length (rs_files (resolve_file (chain n) (to_string (Suc k)) (Suc k) ?st)) = length (rs_files st) + (n - Suc k) + 1)"
    using Suc.hyps(1) [of "Suc k" ?st] Suc.hyps(2) Suc.prems by simp
  then show ?case using chain_import [of k st n] Suc.hyps(2) Suc.prems by (cases "k < n") (simp_all add: Let_def, arith)
qed

text \<open>
  C40: The depth limit is not only met by circular imports.  A chain of files without any cycle, each of which
  imports the next, is accepted up to 65 files and refused beyond, with a message about a possible circular
  chain.
\<close>

theorem deep_imports_rejected:
  "(if n \<le> 64 then \<exists>files. resolve_imports (chain n) ''0'' = Inr files \<and> length files = n + 1
    else resolve_imports (chain n) ''0'' = Inl [(''import depth exceeds 64'' @ em_dash @ ''possible circular import chain'', ''65:offset(0)'')])"
proof -
  have s: "to_string 0 = ''0''" "to_string 65 = ''65''" by code_simp+
  have "normalize_path (chain n) ''0'' new_resolver = (''0'', new_resolver)"
    by (simp add: chain_def plain_files_def normalize_path_def)
  then show ?thesis
    using chain_walk [of 0 n new_resolver] unfolding s
    by (auto simp: resolve_imports_def Let_def new_resolver_def file_loc_def)
qed

section \<open>The merged protocol\<close>

definition apply_defaults_to_field :: "Defaults \<Rightarrow> Field \<Rightarrow> Field" where
  "apply_defaults_to_field defaults f =
     (let f = (if \<not> fd_endian_explicit f then f\<lparr>fd_endian := df_endian defaults\<rparr> else f)
      in if fd_type_ref f = ''string'' \<or> fd_type_ref f = ''bytes''
         then f\<lparr>fd_encoding := (if fd_encoding f = None then Some (df_string_encoding defaults) else fd_encoding f),
                fd_padding := (if fd_padding f = None then Some (df_string_padding defaults) else fd_padding f),
                fd_trim := (if fd_trim f = None then Some (df_string_trim defaults) else fd_trim f)\<rparr>
         else f)"

definition apply_defaults_to_children :: "Defaults \<Rightarrow> StructChild list \<Rightarrow> StructChild list" where
  "apply_defaults_to_children defaults children = map (map_fields (apply_defaults_to_field defaults)) children"

definition apply_defaults_to_struct :: "Defaults \<Rightarrow> StructDef \<Rightarrow> StructDef" where
  "apply_defaults_to_struct defaults sd = (fst sd, apply_defaults_to_children defaults (snd sd))"

definition apply_defaults_to_type :: "Defaults \<Rightarrow> TypeDef \<Rightarrow> TypeDef" where
  "apply_defaults_to_type defaults td =
     (let td = (if \<not> td_endian_explicit td then td\<lparr>td_endian := df_endian defaults\<rparr> else td)
      in if td_base td = Base_String \<or> td_base td = Base_Bytes
         then td\<lparr>td_encoding := (if \<not> td_encoding_explicit td then df_string_encoding defaults else td_encoding td),
                 td_padding := (if \<not> td_padding_explicit td then df_string_padding defaults else td_padding td),
                 td_trim := (if \<not> td_trim_explicit td then df_string_trim defaults else td_trim td)\<rparr>
         else td)"

definition apply_defaults_to_message :: "Defaults \<Rightarrow> MessageDef \<Rightarrow> MessageDef" where
  "apply_defaults_to_message defaults md = md\<lparr>md_children := apply_defaults_to_children defaults (md_children md)\<rparr>"

definition apply_defaults_to_frame :: "Defaults \<Rightarrow> FrameDef \<Rightarrow> FrameDef" where
  "apply_defaults_to_frame defaults fd =
     fd\<lparr>fr_header_fields := apply_defaults_to_children defaults (fr_header_fields fd),
        fr_footer_fields := apply_defaults_to_children defaults (fr_footer_fields fd)\<rparr>"

definition no_definitions :: "BmdlFile \<Rightarrow> bool" where
  "no_definitions f \<longleftrightarrow>
     \<not> bf_has_protocol f \<and> bf_types f = [] \<and> bf_structs f = [] \<and> bf_messages f = [] \<and> bf_constants f = []"

definition merge_file :: "BmdlFile \<Rightarrow> BmdlFile \<Rightarrow> Protocol \<Rightarrow> Protocol" where
  "merge_file protocol_file f proto =
     (let defaults = (if bf_has_protocol f then bf_defaults f else bf_defaults protocol_file)
      in proto\<lparr>
           pr_types := pr_types proto @ map (apply_defaults_to_type defaults) (bf_types f),
           pr_structs := pr_structs proto @ map (apply_defaults_to_struct defaults) (bf_structs f),
           pr_messages := pr_messages proto @ map (apply_defaults_to_message defaults) (bf_messages f),
           pr_frames := pr_frames proto @ map (apply_defaults_to_frame defaults) (bf_frames f),
           pr_constants := pr_constants proto @ bf_constants f,
           pr_imports := pr_imports proto @ bf_imports f,
           pr_warnings := pr_warnings proto @
             (if no_definitions f
              then [(''imported file '' @ [CHR 0x27] @ bf_file_path f @ [CHR 0x27] @ '' contains no definitions'', bf_loc f)]
              else []) @ bf_warnings f\<rparr>)"

definition empty_protocol :: "BmdlFile \<Rightarrow> Protocol" where
  "empty_protocol f =
     \<lparr>pr_name = bf_protocol_name f, pr_version = bf_protocol_version f, pr_bmdl_version = bf_bmdl_version f,
      pr_defaults = bf_defaults f, pr_imports = [], pr_constants = [], pr_types = [], pr_structs = [],
      pr_messages = [], pr_frames = [], pr_warnings = [], pr_loc = bf_loc f\<rparr>"

definition build_protocol :: "Files \<Rightarrow> string \<Rightarrow> located_error list + Protocol" where
  "build_protocol fs root_path =
     (case resolve_imports fs root_path of
        Inl errors \<Rightarrow> Inl errors
      | Inr files \<Rightarrow>
          let protocol_files = filter bf_has_protocol files
          in if protocol_files = []
             then Inl [(''no protocol file found'' @ em_dash @ ''expected <defaults> or <frame> in at least one file'', file_loc root_path)]
             else if length protocol_files > 1
             then Inl [(''multiple protocol files found'' @ em_dash @ ''only one file may define <defaults> or <frame>'', file_loc root_path)]
             else Inr (fold (merge_file (last protocol_files)) files (empty_protocol (last protocol_files))))"

definition protocol_fields :: "Protocol \<Rightarrow> Field list" where
  "protocol_fields proto =
     concat (map (\<lambda>m. all_fields (md_children m)) (pr_messages proto)) @
     concat (map (\<lambda>s. all_fields (snd s)) (pr_structs proto)) @
     concat (map (\<lambda>f. all_fields (fr_header_fields f) @ all_fields (fr_footer_fields f)) (pr_frames proto))"

text \<open>No attribute with a default is left open.\<close>

definition field_complete :: "Defaults \<Rightarrow> Field \<Rightarrow> bool" where
  "field_complete d f \<longleftrightarrow>
     (fd_endian_explicit f \<or> fd_endian f = df_endian d) \<and>
     (fd_type_ref f = ''string'' \<or> fd_type_ref f = ''bytes'' \<longrightarrow>
        fd_encoding f \<noteq> None \<and> fd_padding f \<noteq> None \<and> fd_trim f \<noteq> None)"

definition type_complete :: "Defaults \<Rightarrow> TypeDef \<Rightarrow> bool" where
  "type_complete d t \<longleftrightarrow>
     (td_endian_explicit t \<or> td_endian t = df_endian d) \<and>
     (td_base t = Base_String \<or> td_base t = Base_Bytes \<longrightarrow>
        (td_encoding_explicit t \<or> td_encoding t = df_string_encoding d) \<and>
        (td_padding_explicit t \<or> td_padding t = df_string_padding d) \<and>
        (td_trim_explicit t \<or> td_trim t = df_string_trim d))"

lemma defaults_complete:
  "field_complete d (apply_defaults_to_field d f)" "type_complete d (apply_defaults_to_type d t)"
  by (simp_all add: field_complete_def apply_defaults_to_field_def type_complete_def apply_defaults_to_type_def Let_def)

lemma children_complete: "list_all (field_complete d) (all_fields (apply_defaults_to_children d cs))"
  unfolding apply_defaults_to_children_def all_fields_map by (simp add: list_all_iff defaults_complete)

lemma fold_merge:
  assumes "\<forall>f \<in> set files. bf_has_protocol f \<longrightarrow> bf_defaults f = d" "bf_defaults p = d"
  shows "pr_types (fold (merge_file p) files proto) = pr_types proto @ map (apply_defaults_to_type d) (concat (map bf_types files))"
    and "pr_structs (fold (merge_file p) files proto) = pr_structs proto @ map (apply_defaults_to_struct d) (concat (map bf_structs files))"
    and "pr_messages (fold (merge_file p) files proto) = pr_messages proto @ map (apply_defaults_to_message d) (concat (map bf_messages files))"
    and "pr_frames (fold (merge_file p) files proto) = pr_frames proto @ map (apply_defaults_to_frame d) (concat (map bf_frames files))"
    and "pr_constants (fold (merge_file p) files proto) = pr_constants proto @ concat (map bf_constants files)"
    and "pr_defaults (fold (merge_file p) files proto) = pr_defaults proto"
  using assms by (induction files arbitrary: proto) (auto simp: merge_file_def Let_def)


definition sample_files :: Files where
  "sample_files = (plain_files [])\<lparr>fs_exists := (\<lambda>p. Inr True), fs_parse := (\<lambda>p.
     if p = ''p'' then Inr ((plain_file p [''lib''])\<lparr>bf_has_protocol := True,
         bf_defaults := BUILTIN_DEFAULTS\<lparr>df_endian := Endian_Little\<rparr>,
         bf_messages := [new_message\<lparr>md_name := ''hello'', md_children := [Child_Field (new_field\<lparr>fd_name := ''h'', fd_type_ref := ''head''\<rparr>)]\<rparr>]\<rparr>)
     else Inr ((plain_file p [])\<lparr>bf_structs := [(new_struct\<lparr>sd_name := ''head''\<rparr>,
         [Child_Fx [Child_Field (new_field\<lparr>fd_name := ''s'', fd_type_ref := ''string''\<rparr>)]])]\<rparr>))\<rparr>"


end
