(* ===== verification/Bgen_Types.thy ===== *)
theory Bgen_Types
  imports Bgen_Tree
begin

text \<open>
  Names and types of a protocol: \<open>bgen/src/analyzer/type_resolver.cpp\<close> and \<open>type_resolver.hpp\<close>.

  A lookup table is an association list in the order of insertion; where the source iterates over a hash table
  the model takes that order.  The index of the source holds pointers into the protocol, so that after fields
  have inherited attributes it refers to the changed definitions: the model returns the index of the changed
  protocol.
\<close>

section \<open>Index\<close>

type_synonym resolve_error = "string \<times> string"

record TypeIndex =
  ti_types :: "(string \<times> TypeDef) list"
  ti_structs :: "(string \<times> StructDef) list"
  ti_messages :: "(string \<times> MessageDef) list"
  ti_constants :: "(string \<times> ConstDef) list"
  ti_frames :: "(string \<times> FrameDef) list"

datatype ResolvedDef = Resolved_Type TypeDef | Resolved_Struct StructDef | Resolved_Message MessageDef

definition index_find :: "TypeIndex \<Rightarrow> string \<Rightarrow> ResolvedDef option" where
  "index_find idx name =
     (case map_of (ti_types idx) name of
        Some t \<Rightarrow> Some (Resolved_Type t)
      | None \<Rightarrow>
          (case map_of (ti_structs idx) name of
             Some s \<Rightarrow> Some (Resolved_Struct s)
           | None \<Rightarrow>
               (case map_of (ti_messages idx) name of
                  Some m \<Rightarrow> Some (Resolved_Message m)
                | None \<Rightarrow> None)))"

text \<open>A table of definitions by name: the first definition of a name is kept, and every later one reported.\<close>

definition index_add :: "('a \<Rightarrow> string) \<Rightarrow> 'a \<Rightarrow> (string \<times> 'a) list \<Rightarrow> (string \<times> 'a) list" where
  "index_add name x table = (if map_of table (name x) \<noteq> None then table else table @ [(name x, x)])"

definition index_of :: "('a \<Rightarrow> string) \<Rightarrow> 'a list \<Rightarrow> (string \<times> 'a) list" where
  "index_of name xs = fold (index_add name) xs []"

fun duplicate_errors :: "string \<Rightarrow> ('a \<Rightarrow> string) \<Rightarrow> ('a \<Rightarrow> string) \<Rightarrow> string list \<Rightarrow> 'a list \<Rightarrow> resolve_error list" where
  "duplicate_errors kind name loc seen [] = []"
| "duplicate_errors kind name loc seen (x # xs) =
     (if name x \<in> set seen
      then (''duplicate '' @ kind @ '' name: '' @ name x, loc x) # duplicate_errors kind name loc seen xs
      else duplicate_errors kind name loc (name x # seen) xs)"

definition build_index :: "Protocol \<Rightarrow> TypeIndex" where
  "build_index proto =
     \<lparr>ti_types = index_of td_name (pr_types proto), ti_structs = index_of (sd_name \<circ> fst) (pr_structs proto),
      ti_messages = index_of md_name (pr_messages proto), ti_constants = index_of cd_name (pr_constants proto),
      ti_frames = index_of fr_name (pr_frames proto)\<rparr>"

section \<open>References\<close>

definition validate_type_ref :: "TypeIndex \<Rightarrow> string \<times> string \<Rightarrow> resolve_error list" where
  "validate_type_ref idx r =
     (if fst r = ''bytes'' \<or> fst r = ''string'' then []
      else if index_find idx (fst r) = None then [(''unresolved type reference: '' @ fst r, snd r)]
      else [])"

text \<open>The references below a node that are validated, with their locations.\<close>

abbreviation ref_at :: "string \<Rightarrow> string \<Rightarrow> (string \<times> string) list" where
  "ref_at r loc \<equiv> if r = [] then [] else [(r, loc)]"

fun child_refs :: "StructChild \<Rightarrow> (string \<times> string) list" where
  "child_refs (Child_Field f) = ref_at (fd_type_ref f) (fd_loc f)"
| "child_refs (Child_Struct i cs) = concat (map child_refs cs)"
| "child_refs (Child_Array i cs) = ref_at (ai_type_ref i) (ai_loc i) @ concat (map child_refs cs)"
| "child_refs (Child_Choice i cases ow) =
     concat (map (\<lambda>(c, cs). ref_at (ci_type_ref c) (ci_loc c) @ concat (map child_refs cs)) cases) @
     (case ow of None \<Rightarrow> [] | Some (c, cs) \<Rightarrow> ref_at (oi_type_ref c) (oi_loc c) @ concat (map child_refs cs))"
| "child_refs (Child_Fx cs) = concat (map child_refs cs)"
| "child_refs (Child_Reserved n) = []"
| "child_refs (Child_Align n) = []"

abbreviation refs_of :: "StructChild list \<Rightarrow> (string \<times> string) list" where
  "refs_of cs \<equiv> concat (map child_refs cs)"

definition validate_children :: "TypeIndex \<Rightarrow> StructChild list \<Rightarrow> resolve_error list" where
  "validate_children idx children = concat (map (validate_type_ref idx) (refs_of children))"

definition constant_errors :: "TypeIndex \<Rightarrow> string list \<Rightarrow> ConstDef list \<Rightarrow> resolve_error list" where
  "constant_errors idx seen cs =
     fst (fold (\<lambda>c (errs, seen).
        (errs @ (if cd_name c \<in> set seen then [(''duplicate constant name: '' @ cd_name c, cd_loc c)] else []) @
           (if cd_type_ref c \<noteq> [] then validate_type_ref idx (cd_type_ref c, cd_loc c) else []),
         cd_name c # seen)) cs ([], seen))"

definition both_error :: "string \<Rightarrow> string \<Rightarrow> string \<Rightarrow> string \<Rightarrow> resolve_error" where
  "both_error name a b loc = (''name '' @ [CHR 0x27] @ name @ [CHR 0x27] @ '' defined as both '' @ a @ '' and '' @ b, loc)"

definition collision_errors :: "TypeIndex \<Rightarrow> resolve_error list" where
  "collision_errors idx =
     concat (map (\<lambda>p.
       (if map_of (ti_structs idx) (fst p) \<noteq> None then [both_error (fst p) ''type'' ''struct'' (td_loc (snd p))] else []) @
       (if map_of (ti_messages idx) (fst p) \<noteq> None then [both_error (fst p) ''type'' ''message'' (td_loc (snd p))] else []))
       (ti_types idx)) @
     concat (map (\<lambda>p.
       (if map_of (ti_messages idx) (fst p) \<noteq> None then [both_error (fst p) ''struct'' ''message'' (sd_loc (fst (snd p)))] else []))
       (ti_structs idx))"

section \<open>Inheritance\<close>

definition inherit_field :: "TypeIndex \<Rightarrow> Field \<Rightarrow> Field" where
  "inherit_field idx f =
     (if fd_type_ref f = [] then f
      else case map_of (ti_types idx) (fd_type_ref f) of
             None \<Rightarrow> f
           | Some td \<Rightarrow>
               let f = (if \<not> fd_endian_explicit f \<and> td_endian_explicit td then f\<lparr>fd_endian := td_endian td\<rparr> else f)
               in if \<not> fd_format_explicit f \<and> td_format_explicit td then f\<lparr>fd_format := td_format td\<rparr> else f)"

text \<open>A bound that the field's constraint relaxes: \<open>worse\<close> compares the field's literal with the type's.\<close>

definition relaxed :: "(int \<Rightarrow> int \<Rightarrow> bool) \<Rightarrow> string option \<Rightarrow> string option \<Rightarrow> bool" where
  "relaxed worse field_bound type_bound =
     (case (field_bound, type_bound) of
        (Some fb, Some tb) \<Rightarrow>
          (case (parse_literal fb, parse_literal tb) of (Some a, Some b) \<Rightarrow> worse a b | _ \<Rightarrow> False)
      | _ \<Rightarrow> False)"

definition inherit_errors :: "TypeIndex \<Rightarrow> Field \<Rightarrow> resolve_error list" where
  "inherit_errors idx f =
     (let field = ''field '' @ [CHR 0x27] @ fd_name f @ [CHR 0x27]
      in if fd_type_ref f = [] then []
      else case map_of (ti_types idx) (fd_type_ref f) of
             None \<Rightarrow> []
           | Some td \<Rightarrow>
               let type = '' type '' @ [CHR 0x27] @ td_name td @ [CHR 0x27]
               in (if (fd_scale f \<noteq> None \<or> fd_offset f \<noteq> None) \<and> (td_scale td \<noteq> None \<or> td_offset td \<noteq> None)
                   then [(field @ '' and'' @ type @ '' both define scale/offset'', fd_loc f)] else []) @
                  (case (fd_constraint f, td_constraint td) of
                     (Some fc, Some tc) \<Rightarrow>
                       (if con_equals tc \<noteq> None \<and> con_equals fc \<noteq> None \<and> con_equals tc \<noteq> con_equals fc
                        then [(field @ '' constraint conflicts with'' @ type @ '' constraint'', fd_loc f)] else []) @
                       (if relaxed (<) (con_min fc) (con_min tc)
                        then [(field @ '' constraint min ('' @ the (con_min fc) @ '') is less than'' @ type @ '' min ('' @ the (con_min tc) @ '')'', fd_loc f)] else []) @
                       (if relaxed (>) (con_max fc) (con_max tc)
                        then [(field @ '' constraint max ('' @ the (con_max fc) @ '') exceeds'' @ type @ '' max ('' @ the (con_max tc) @ '')'', fd_loc f)] else [])
                   | _ \<Rightarrow> []))"

definition inherit_children :: "TypeIndex \<Rightarrow> StructChild list \<Rightarrow> StructChild list" where
  "inherit_children idx children = map (map_fields (inherit_field idx)) children"

definition inherit_protocol :: "TypeIndex \<Rightarrow> Protocol \<Rightarrow> Protocol" where
  "inherit_protocol idx proto =
     proto\<lparr>pr_messages := map (\<lambda>m. m\<lparr>md_children := inherit_children idx (md_children m)\<rparr>) (pr_messages proto),
           pr_structs := map (\<lambda>s. (fst s, inherit_children idx (snd s))) (pr_structs proto),
           pr_frames := map (\<lambda>f. f\<lparr>fr_header_fields := inherit_children idx (fr_header_fields f),
                                   fr_footer_fields := inherit_children idx (fr_footer_fields f)\<rparr>) (pr_frames proto)\<rparr>"

text \<open>The lists of children of a protocol, in the order of the passes.\<close>

definition protocol_children :: "Protocol \<Rightarrow> StructChild list list" where
  "protocol_children proto =
     map md_children (pr_messages proto) @ map snd (pr_structs proto) @
     concat (map (\<lambda>f. [fr_header_fields f, fr_footer_fields f]) (pr_frames proto))"

definition resolve_types :: "Protocol \<Rightarrow> (resolve_error list + TypeIndex) \<times> Protocol" where
  "resolve_types proto =
     (let idx = build_index proto;
          errors =
            duplicate_errors ''type'' td_name td_loc [] (pr_types proto) @
            duplicate_errors ''struct'' (sd_name \<circ> fst) (sd_loc \<circ> fst) [] (pr_structs proto) @
            duplicate_errors ''message'' md_name md_loc [] (pr_messages proto) @
            constant_errors idx [] (pr_constants proto) @
            duplicate_errors ''frame'' fr_name fr_loc [] (pr_frames proto) @
            collision_errors idx @
            concat (map (validate_children idx) (protocol_children proto)) @
            concat (map (\<lambda>cs. concat (map (inherit_errors idx) (all_fields cs))) (protocol_children proto));
          proto' = inherit_protocol idx proto
      in (if errors \<noteq> [] then Inl errors else Inr (build_index proto'), proto'))"

section \<open>What resolution establishes\<close>

text \<open>The names of the definitions a reference can mean.\<close>

definition defined_names :: "Protocol \<Rightarrow> string set" where
  "defined_names proto =
     td_name ` set (pr_types proto) \<union> (sd_name \<circ> fst) ` set (pr_structs proto) \<union> md_name ` set (pr_messages proto)"

definition names_unique :: "Protocol \<Rightarrow> bool" where
  "names_unique proto \<longleftrightarrow>
     distinct (map td_name (pr_types proto) @ map (sd_name \<circ> fst) (pr_structs proto) @ map md_name (pr_messages proto)) \<and>
     distinct (map cd_name (pr_constants proto)) \<and> distinct (map fr_name (pr_frames proto))"

definition type_refs :: "Protocol \<Rightarrow> string set" where
  "type_refs proto =
     fst ` (\<Union>cs \<in> set (protocol_children proto). set (refs_of cs)) \<union> (cd_type_ref ` set (pr_constants proto) - {[]})"

definition fields_in :: "Protocol \<Rightarrow> Field set" where
  "fields_in proto = (\<Union>cs \<in> set (protocol_children proto). set (all_fields cs))"

definition compatible :: "TypeDef \<Rightarrow> Field \<Rightarrow> bool" where
  "compatible td f \<longleftrightarrow>
     \<not> ((fd_scale f \<noteq> None \<or> fd_offset f \<noteq> None) \<and> (td_scale td \<noteq> None \<or> td_offset td \<noteq> None)) \<and>
     (\<forall>fc tc. fd_constraint f = Some fc \<and> td_constraint td = Some tc \<longrightarrow>
        (con_equals tc = None \<or> con_equals fc = None \<or> con_equals tc = con_equals fc) \<and>
        \<not> relaxed (<) (con_min fc) (con_min tc) \<and> \<not> relaxed (>) (con_max fc) (con_max tc))"

text \<open>The type a field refers to: the first of that name.\<close>

definition type_of :: "Protocol \<Rightarrow> Field \<Rightarrow> TypeDef option" where
  "type_of proto f = (if fd_type_ref f = [] then None else find (\<lambda>t. td_name t = fd_type_ref f) (pr_types proto))"

definition resolvable :: "Protocol \<Rightarrow> bool" where
  "resolvable proto \<longleftrightarrow>
     names_unique proto \<and> type_refs proto \<subseteq> defined_names proto \<union> {''bytes'', ''string''} \<and>
     (\<forall>f \<in> fields_in proto. \<forall>td. type_of proto f = Some td \<longrightarrow> compatible td f)"

definition inherited :: "TypeDef \<Rightarrow> Field \<Rightarrow> bool" where
  "inherited td f \<longleftrightarrow>
     (fd_endian_explicit f \<or> \<not> td_endian_explicit td \<or> fd_endian f = td_endian td) \<and>
     (fd_format_explicit f \<or> \<not> td_format_explicit td \<or> fd_format f = td_format td)"

definition typed_by :: "TypeIndex \<Rightarrow> Protocol \<Rightarrow> bool" where
  "typed_by idx proto \<longleftrightarrow>
     resolvable proto \<and>
     (\<forall>t. index_find idx (td_name t) = Some (Resolved_Type t) \<longleftrightarrow> t \<in> set (pr_types proto)) \<and>
     (\<forall>s. index_find idx (sd_name (fst s)) = Some (Resolved_Struct s) \<longleftrightarrow> s \<in> set (pr_structs proto)) \<and>
     (\<forall>m. index_find idx (md_name m) = Some (Resolved_Message m) \<longleftrightarrow> m \<in> set (pr_messages proto)) \<and>
     (\<forall>r \<in> type_refs proto. r = ''bytes'' \<or> r = ''string'' \<or> index_find idx r \<noteq> None) \<and>
     (\<forall>f \<in> fields_in proto. \<forall>td. type_of proto f = Some td \<longrightarrow> inherited td f)"

lemma map_of_index_add: "map_of (index_add name x table) n = (case map_of table n of Some y \<Rightarrow> Some y | None \<Rightarrow> if name x = n then Some x else None)"
  by (auto simp: index_add_def map_add_def split: option.splits)

lemma map_of_index: "map_of (index_of name xs) n = find (\<lambda>x. name x = n) xs"
proof -
  have "map_of (fold (index_add name) xs table) n = (case map_of table n of Some y \<Rightarrow> Some y | None \<Rightarrow> find (\<lambda>x. name x = n) xs)" for table
    by (induction xs arbitrary: table) (auto simp: map_of_index_add split: option.splits)
  then show ?thesis by (simp add: index_of_def)
qed

lemma index_in: "p \<in> set (index_of name xs) \<Longrightarrow> snd p \<in> set xs \<and> fst p = name (snd p)"
proof -
  have "p \<in> set (fold (index_add name) xs table) \<Longrightarrow> p \<in> set table \<or> snd p \<in> set xs \<and> fst p = name (snd p)" for table
    by (induction xs arbitrary: table) (fastforce simp: index_add_def split: if_splits)+
  then show "p \<in> set (index_of name xs) \<Longrightarrow> snd p \<in> set xs \<and> fst p = name (snd p)" by (force simp: index_of_def)
qed

lemma index_names: "fst ` set (index_of name xs) = name ` set xs"
proof
  show "fst ` set (index_of name xs) \<subseteq> name ` set xs" using index_in by fastforce
  show "name ` set xs \<subseteq> fst ` set (index_of name xs)"
  proof
    fix n assume "n \<in> name ` set xs"
    then have "find (\<lambda>x. name x = n) xs \<noteq> None" by (auto simp: find_None_iff)
    then show "n \<in> fst ` set (index_of name xs)" using map_of_index [of name xs n] by (metis map_of_eq_None_iff)
  qed
qed

lemma duplicate_none: "duplicate_errors kind name loc seen xs = [] \<longleftrightarrow> distinct (map name xs) \<and> set (map name xs) \<inter> set seen = {}"
  by (induction kind name loc seen xs rule: duplicate_errors.induct) auto

lemma find_none: "find (\<lambda>x. name x = n) xs = None \<longleftrightarrow> n \<notin> name ` set xs"
  by (auto simp: find_None_iff)

lemma find_some: "distinct (map name xs) \<Longrightarrow> find (\<lambda>x. name x = n) xs = Some x \<longleftrightarrow> x \<in> set xs \<and> name x = n"
  by (induction xs) (auto split: if_splits)

lemma index_find_none: "index_find (build_index proto) n = None \<longleftrightarrow> n \<notin> defined_names proto"
proof -
  have "index_find idx n = None \<longleftrightarrow> map_of (ti_types idx) n = None \<and> map_of (ti_structs idx) n = None \<and> map_of (ti_messages idx) n = None" for idx
    by (auto simp: index_find_def split: option.splits)
  then show ?thesis
    by (simp add: build_index_def map_of_index defined_names_def find_none)
qed

lemma type_ref_none:
  "validate_type_ref (build_index proto) r = [] \<longleftrightarrow> fst r \<in> defined_names proto \<union> {''bytes'', ''string''}"
  by (auto simp: validate_type_ref_def index_find_none)

lemma constants_none:
  "constant_errors idx seen cs = [] \<longleftrightarrow>
     distinct (map cd_name cs) \<and> set (map cd_name cs) \<inter> set seen = {} \<and>
     (\<forall>c \<in> set cs. cd_type_ref c \<noteq> [] \<longrightarrow> validate_type_ref idx (cd_type_ref c, cd_loc c) = [])"
proof -
  define step where "step = (\<lambda>(c :: ConstDef) (errs, seen).
        (errs @ (if cd_name c \<in> set seen then [(''duplicate constant name: '' @ cd_name c, cd_loc c)] else []) @
           (if cd_type_ref c \<noteq> [] then validate_type_ref idx (cd_type_ref c, cd_loc c) else []),
         cd_name c # seen))"
  have "fst (fold step cs (errs, seen)) = [] \<longleftrightarrow> errs = [] \<and> distinct (map cd_name cs) \<and> set (map cd_name cs) \<inter> set seen = {} \<and>
     (\<forall>c \<in> set cs. cd_type_ref c \<noteq> [] \<longrightarrow> validate_type_ref idx (cd_type_ref c, cd_loc c) = [])" for errs
  proof (induction cs arbitrary: errs seen)
    case (Cons c cs)
    have "step c (errs, seen) = (errs @ (if cd_name c \<in> set seen then [(''duplicate constant name: '' @ cd_name c, cd_loc c)] else []) @
        (if cd_type_ref c \<noteq> [] then validate_type_ref idx (cd_type_ref c, cd_loc c) else []), cd_name c # seen)" by (simp add: step_def)
    then show ?case by (auto simp: Cons)
  qed simp
  from this [of "[]"] show ?thesis by (simp add: constant_errors_def step_def)
qed

lemma index_none: "map_of (index_of name xs) n = None \<longleftrightarrow> n \<notin> name ` set xs"
  by (simp add: map_of_index find_none)

lemma index_all: "(\<forall>p \<in> set (index_of name xs). P (fst p)) \<longleftrightarrow> (\<forall>n \<in> name ` set xs. P n)"
  unfolding index_names [of name xs, symmetric] by simp

lemma if_error_none: "(if b then [e] else []) = [] \<longleftrightarrow> \<not> b"
  by simp

lemma collisions_none:
  "collision_errors (build_index proto) = [] \<longleftrightarrow>
     td_name ` set (pr_types proto) \<inter> (sd_name \<circ> fst) ` set (pr_structs proto) = {} \<and>
     td_name ` set (pr_types proto) \<inter> md_name ` set (pr_messages proto) = {} \<and>
     (sd_name \<circ> fst) ` set (pr_structs proto) \<inter> md_name ` set (pr_messages proto) = {}"
proof -
  have "collision_errors idx = [] \<longleftrightarrow>
      (\<forall>p \<in> set (ti_types idx). map_of (ti_structs idx) (fst p) = None \<and> map_of (ti_messages idx) (fst p) = None) \<and>
      (\<forall>p \<in> set (ti_structs idx). map_of (ti_messages idx) (fst p) = None)" for idx
    by (simp only: collision_errors_def append_is_Nil_conv concat_eq_Nil_conv set_map ball_simps if_error_none not_not)
  from this [of "build_index proto"] show ?thesis
    unfolding build_index_def TypeIndex.simps index_none
      index_all [of _ _ "\<lambda>n. n \<notin> (sd_name \<circ> fst) ` set (pr_structs proto) \<and> n \<notin> md_name ` set (pr_messages proto)"]
      index_all [of _ _ "\<lambda>n. n \<notin> md_name ` set (pr_messages proto)"]
    by blast
qed

lemma inherit_none:
  "inherit_errors (build_index proto) f = [] \<longleftrightarrow> (\<forall>td. type_of proto f = Some td \<longrightarrow> compatible td f)"
proof (cases "type_of proto f")
  case None
  then show ?thesis
    by (auto simp: inherit_errors_def type_of_def build_index_def map_of_index Let_def split: if_splits)
next
  case (Some td)
  then have "fd_type_ref f \<noteq> []" "map_of (ti_types (build_index proto)) (fd_type_ref f) = Some td"
    by (auto simp: type_of_def build_index_def map_of_index split: if_splits)
  then show ?thesis
    unfolding Some inherit_errors_def compatible_def Let_def
    by (cases "fd_constraint f"; cases "td_constraint td") (simp_all only: if_False option.case prod.case append_is_Nil_conv if_error_none option.inject, auto)
qed

lemma inherit_keeps:
  "fd_type_ref (inherit_field idx f) = fd_type_ref f" "fd_loc (inherit_field idx f) = fd_loc f"
  "fd_constraint (inherit_field idx f) = fd_constraint f" "fd_scale (inherit_field idx f) = fd_scale f"
  "fd_offset (inherit_field idx f) = fd_offset f" "fd_endian_explicit (inherit_field idx f) = fd_endian_explicit f"
  "fd_format_explicit (inherit_field idx f) = fd_format_explicit f"
  by (simp_all add: inherit_field_def Let_def split: option.split)

lemma child_refs_inherit: "child_refs (map_fields (inherit_field idx) c) = child_refs c"
proof (induction c rule: child_induct)
  case (Choice i cases ow)
  have "concat (map child_refs (map (map_fields (inherit_field idx)) cs)) = concat (map child_refs cs)"
    if "\<And>c. c \<in> set cs \<Longrightarrow> child_refs (map_fields (inherit_field idx) c) = child_refs c" for cs
    using that by (induction cs) simp_all
  then have "map (\<lambda>(c, cs). ref_at (ci_type_ref c) (ci_loc c) @ refs_of cs) (map (\<lambda>(i, cs). (i, map (map_fields (inherit_field idx)) cs)) cases)
      = map (\<lambda>(c, cs). ref_at (ci_type_ref c) (ci_loc c) @ refs_of cs) cases"
    and "ow = Some (j, cs) \<Longrightarrow> refs_of (map (map_fields (inherit_field idx)) cs) = refs_of cs" for j cs
    using Choice by (intro map_cases_same, blast, blast)
  then show ?case by (simp del: map_map split: option.split)
qed (auto simp: inherit_keeps intro!: arg_cong [of _ _ concat] map_cong)

lemma refs_of_inherit: "refs_of (inherit_children idx cs) = refs_of cs"
  by (simp add: inherit_children_def child_refs_inherit comp_def)

lemma protocol_children_inherit:
  "protocol_children (inherit_protocol idx proto) = map (inherit_children idx) (protocol_children proto)"
  by (simp add: protocol_children_def inherit_protocol_def map_concat comp_def)

lemma resolve_errors_none:
  "(\<exists>idx. fst (resolve_types proto) = Inr idx) \<longleftrightarrow> resolvable proto"
proof -
  let ?idx = "build_index proto"
  have names: "duplicate_errors ''type'' td_name td_loc [] (pr_types proto) = [] \<and>
      duplicate_errors ''struct'' (sd_name \<circ> fst) (sd_loc \<circ> fst) [] (pr_structs proto) = [] \<and>
      duplicate_errors ''message'' md_name md_loc [] (pr_messages proto) = [] \<and>
      duplicate_errors ''frame'' fr_name fr_loc [] (pr_frames proto) = [] \<and> distinct (map cd_name (pr_constants proto)) \<and>
      collision_errors ?idx = [] \<longleftrightarrow> names_unique proto"
    unfolding duplicate_none collisions_none names_unique_def distinct_append set_append set_map by auto
  have refs: "concat (map (validate_children ?idx) (protocol_children proto)) = [] \<and>
      (\<forall>c \<in> set (pr_constants proto). cd_type_ref c \<noteq> [] \<longrightarrow> validate_type_ref ?idx (cd_type_ref c, cd_loc c) = []) \<longleftrightarrow>
      type_refs proto \<subseteq> defined_names proto \<union> {''bytes'', ''string''}"
    unfolding validate_children_def concat_eq_Nil_conv set_map ball_simps type_ref_none type_refs_def by fastforce
  have fields: "concat (map (\<lambda>cs. concat (map (inherit_errors ?idx) (all_fields cs))) (protocol_children proto)) = [] \<longleftrightarrow>
      (\<forall>f \<in> fields_in proto. \<forall>td. type_of proto f = Some td \<longrightarrow> compatible td f)"
    unfolding concat_eq_Nil_conv set_map ball_simps inherit_none fields_in_def by blast
  have "(\<exists>idx. fst (resolve_types proto) = Inr idx) \<longleftrightarrow>
      duplicate_errors ''type'' td_name td_loc [] (pr_types proto) = [] \<and>
      duplicate_errors ''struct'' (sd_name \<circ> fst) (sd_loc \<circ> fst) [] (pr_structs proto) = [] \<and>
      duplicate_errors ''message'' md_name md_loc [] (pr_messages proto) = [] \<and>
      constant_errors ?idx [] (pr_constants proto) = [] \<and>
      duplicate_errors ''frame'' fr_name fr_loc [] (pr_frames proto) = [] \<and> collision_errors ?idx = [] \<and>
      concat (map (validate_children ?idx) (protocol_children proto)) = [] \<and>
      concat (map (\<lambda>cs. concat (map (inherit_errors ?idx) (all_fields cs))) (protocol_children proto)) = []"
    by (simp only: resolve_types_def Let_def fst_conv append_is_Nil_conv) simp
  then show ?thesis
    unfolding constants_none set_map list.set(1) Int_empty_right resolvable_def names [symmetric] refs [symmetric] fields [symmetric] by blast
qed

lemma inherit_names:
  "pr_types (inherit_protocol idx proto) = pr_types proto" "pr_constants (inherit_protocol idx proto) = pr_constants proto"
  "map (sd_name \<circ> fst) (pr_structs (inherit_protocol idx proto)) = map (sd_name \<circ> fst) (pr_structs proto)"
  "map md_name (pr_messages (inherit_protocol idx proto)) = map md_name (pr_messages proto)"
  "map fr_name (pr_frames (inherit_protocol idx proto)) = map fr_name (pr_frames proto)"
  by (simp_all add: inherit_protocol_def comp_def)

lemma fields_inherit: "fields_in (inherit_protocol idx proto) = inherit_field idx ` fields_in proto"
proof -
  have "set (all_fields (inherit_children idx cs)) = inherit_field idx ` set (all_fields cs)" for cs
    unfolding inherit_children_def all_fields_map by simp
  then show ?thesis by (simp add: fields_in_def protocol_children_inherit image_UN)
qed

lemma type_refs_inherit: "type_refs (inherit_protocol idx proto) = type_refs proto"
proof -
  have "(\<Union>a \<in> set (inherit_children idx cs). set (child_refs a)) = (\<Union>a \<in> set cs. set (child_refs a))" for cs
    by (simp add: inherit_children_def child_refs_inherit)
  then show ?thesis by (simp add: type_refs_def protocol_children_inherit inherit_names)
qed

lemma defined_names_inherit: "defined_names (inherit_protocol idx proto) = defined_names proto"
proof -
  have "defined_names p = set (map td_name (pr_types p)) \<union> set (map (sd_name \<circ> fst) (pr_structs p)) \<union> set (map md_name (pr_messages p))" for p
    by (simp only: defined_names_def set_map)
  then show ?thesis by (simp only: inherit_names)
qed

lemma type_of_inherit: "type_of (inherit_protocol idx proto) (inherit_field idx f) = type_of proto f"
  by (simp add: type_of_def inherit_keeps inherit_names)

lemma resolvable_inherit: "resolvable (inherit_protocol idx proto) \<longleftrightarrow> resolvable proto"
proof -
  have "names_unique (inherit_protocol idx proto) \<longleftrightarrow> names_unique proto"
    by (simp only: names_unique_def inherit_names)
  moreover have "compatible td (inherit_field idx f) \<longleftrightarrow> compatible td f" for td f
    by (simp add: compatible_def inherit_keeps)
  ultimately show ?thesis
    by (simp only: resolvable_def type_refs_inherit defined_names_inherit fields_inherit ball_simps type_of_inherit)
qed

lemma index_find_some:
  "index_find idx n = Some (Resolved_Type t) \<longleftrightarrow> map_of (ti_types idx) n = Some t"
  "index_find idx n = Some (Resolved_Struct s) \<longleftrightarrow> map_of (ti_types idx) n = None \<and> map_of (ti_structs idx) n = Some s"
  "index_find idx n = Some (Resolved_Message m) \<longleftrightarrow>
     map_of (ti_types idx) n = None \<and> map_of (ti_structs idx) n = None \<and> map_of (ti_messages idx) n = Some m"
  by (auto simp: index_find_def split: option.splits)

lemma index_find_exact:
  assumes "names_unique proto"
  shows "index_find (build_index proto) (td_name t) = Some (Resolved_Type t) \<longleftrightarrow> t \<in> set (pr_types proto)"
    and "index_find (build_index proto) (sd_name (fst s)) = Some (Resolved_Struct s) \<longleftrightarrow> s \<in> set (pr_structs proto)"
    and "index_find (build_index proto) (md_name m) = Some (Resolved_Message m) \<longleftrightarrow> m \<in> set (pr_messages proto)"
proof -
  have d: "distinct (map td_name (pr_types proto))" "distinct (map (sd_name \<circ> fst) (pr_structs proto))" "distinct (map md_name (pr_messages proto))"
    and x: "td_name ` set (pr_types proto) \<inter> (sd_name \<circ> fst) ` set (pr_structs proto) = {}"
      "td_name ` set (pr_types proto) \<inter> md_name ` set (pr_messages proto) = {}"
      "(sd_name \<circ> fst) ` set (pr_structs proto) \<inter> md_name ` set (pr_messages proto) = {}"
    using assms by (auto simp: names_unique_def)
  show "index_find (build_index proto) (td_name t) = Some (Resolved_Type t) \<longleftrightarrow> t \<in> set (pr_types proto)"
    unfolding index_find_some by (simp add: build_index_def map_of_index find_some [OF d(1)])
  show "index_find (build_index proto) (sd_name (fst s)) = Some (Resolved_Struct s) \<longleftrightarrow> s \<in> set (pr_structs proto)"
    unfolding index_find_some build_index_def TypeIndex.simps index_none unfolding map_of_index find_some [OF d(2)] using x(1) by auto
  show "index_find (build_index proto) (md_name m) = Some (Resolved_Message m) \<longleftrightarrow> m \<in> set (pr_messages proto)"
    unfolding index_find_some build_index_def TypeIndex.simps index_none unfolding map_of_index find_some [OF d(3)] using x(2,3) by auto
qed

lemma inherit_inherited: "type_of proto f = Some td \<Longrightarrow> inherited td (inherit_field (build_index proto) f)"
  by (auto simp: type_of_def inherited_def inherit_field_def build_index_def map_of_index Let_def split: if_splits)


end
