(* ===== verification/Spec2Isabelle.thy ===== *)
theory Spec2Isabelle
  imports Bit_IO String_Encoding Transceiver_Link Bgen_Expr_Print Bgen_Auto_Expr Bgen_Import Bgen_Types
begin

text \<open>
  A verification development for Conduit, a C++23 library (under \<open>src/conduit\<close>) that encodes binary
  messages and moves them between peers, and for the front end of \<open>bgen\<close>, the generator that turns message
  descriptions into code for it.

  \<^bold>\<open>The program.\<close>  Code generated from a message description encodes fields with \<open>BitWriter\<close> and decodes
  them with \<open>BitReader\<close>; both use the byte-order, float and string helpers.  A \<open>Transceiver\<close> owns peers.  Bytes
  from a stream transport go through the \<open>StreamFramer\<close> of their peer, which cuts them into frames; the session
  of the peer decodes each frame; the messages go through a \<open>BoundedQueue\<close> to worker threads, which dispatch
  them through the \<open>HandlerRegistry\<close> to user callbacks.  Sending goes from the session to the transport.  Both
  directions can be written to a \<open>MessageLog\<close>.  \<open>bgen\<close> reads a description and the files it imports, merges them
  into one protocol, parses the expressions in it and resolves its names and types before it generates code.

  \<^bold>\<open>Theories and sources\<close> (\<open>include/\<close> is \<open>src/conduit/include/conduit/\<close>, \<open>src/\<close> is \<open>src/conduit/src/\<close>):
  \<^item> \<open>Conduit_Prelude\<close>: word, byte, list and string facts shared by all; \<open>size_t\<close> arithmetic that wraps at
    64 bits; \<open>std::to_string\<close>; substring search.
  \<^item> \<open>Conduit_Error\<close>: \<open>include/core/error.hpp\<close>, \<open>src/core/error.cpp\<close>.  \<open>Result<T>\<close> is \<open>error + 'a\<close>.
  \<^item> \<open>Endian_Codec\<close>, \<open>Float_Codec\<close>: \<open>include/io/endian.hpp\<close>, one definition per function.
  \<^item> \<open>Bit_Reader\<close>, \<open>Bit_Writer\<close>: \<open>src/io/bit_reader.cpp\<close>, \<open>src/io/bit_writer.cpp\<close>, one definition per member
    function, returning the result and the new object; \<open>None\<close> is an access outside the buffer or another step
    with undefined behaviour.  \<open>Bit_IO\<close> puts the two together over lists of typed fields.
  \<^item> \<open>String_Encoding\<close>: \<open>include/string/encoding.hpp\<close>, with its two tables.
  \<^item> \<open>Bounded_Queue\<close>: \<open>include/queue/bounded_queue.hpp\<close>.  A call is one atomic step under the mutex; \<open>None\<close> is a
    call that still waits.
  \<^item> \<open>Stream_Framer\<close>: \<open>src/transceiver/stream_framer.cpp\<close>; the framing functions of a session are a parameter.
  \<^item> \<open>Handler_Registry\<close>: \<open>src/transceiver/handler.cpp\<close>, \<open>include/transceiver/message_handler.hpp\<close> and \<open>peer.hpp\<close>;
    a callback is a function on a world of the user's choice that may throw.
  \<^item> \<open>Message_Log\<close>: \<open>src/transceiver/message_log.cpp\<close>; output is a list of events.
  \<^item> \<open>Transport_Config\<close>: the configuration records of the transports, validation, connection states and the
    attributes \<open>is_multi_peer\<close>, \<open>is_stream_oriented\<close> and \<open>transport_type\<close>.
  \<^item> \<open>Double_Round\<close>: rounding of \<open>double\<close> quotients and products, for the back-pressure threshold.
  \<^item> \<open>Transceiver_Model\<close>: \<open>src/transceiver/transceiver.cpp\<close> with its headers, operation by operation.
    \<open>Transceiver_Safety\<close>: all calls, callbacks and worker steps as events and the invariant they keep.
    \<open>Transceiver_Runs\<close>: whole runs.  \<open>Transceiver_Limits\<close>: where the code does less than it promises.
    \<open>Transceiver_Link\<close>: a sender, its wire and a receiver.
  \<^item> \<open>Bgen_Text\<close>, \<open>Bgen_Ast\<close>, \<open>Bgen_Tree\<close>: characters and numbers, the syntax tree and walks over it (\<open>model/ast.hpp\<close>
    and \<open>analyzer/parse_utils.hpp\<close> under \<open>src/conduit/bgen/src/\<close>, as the following).
  \<^item> \<open>Bgen_Expr\<close>, \<open>Bgen_Expr_Print\<close>: \<open>parser/expression_parser.cpp\<close>, and the parser against a printer.
    \<open>Bgen_Auto_Expr\<close>: \<open>parser/auto_expr_parser.cpp\<close>.
  \<^item> \<open>Bgen_Import\<close>: \<open>parser/import_resolver.cpp\<close> and \<open>model/ast_builder.cpp\<close>.  \<open>Bgen_Types\<close>:
    \<open>analyzer/type_resolver.cpp\<close>.

  \<^bold>\<open>What is shown.\<close>
  \<^item> Codec: what is written is read back for every field kind, alignment and width (\<open>message_round_trip\<close>);
    decoding any input is defined and stays in the buffer (\<open>decode_safe\<close>); each primitive appends or returns
    exactly the bits it should; the float formats and the string tables convert as documented, with the
    exceptions proved beside them.
  \<^item> Queue: over any interleaving of calls the ring buffer is a bounded list with the configured drop policy;
    its indices, its statistics and its waiting conditions are right.
  \<^item> Framer: frames do not depend on how the stream is cut, are exactly the well-formed frames of the stream,
    and the buffer stays within its limit.
  \<^item> Registry and log: dispatch depends only on the calls made, by the documented priority; log entries reach
    exactly the files the configuration names.
  \<^item> Transceiver: no reachable state has a dangling peer pointer, an overfull queue or framer; ids are unique;
    a stream is delivered to the queue as the messages it encodes; \<open>stop\<close> ends and drains; a disconnected peer
    is forgotten; what one transceiver sends, another receives.
  \<^item> Generator: expressions and \<open>auto\<close> attributes are parsed back from their printed form and every result is
    well formed; imports come in dependency order, each file once; a merged protocol leaves no default open;
    type resolution accepts exactly the protocols whose names and references are in order.

  \<^bold>\<open>Interfaces.\<close>  \<open>reader_op\<close> (what every read promises), \<open>writer_op\<close> (what every write promises), \<open>wire_format\<close>
  (encoding and decoding of fields), \<open>bounded_fifo\<close> (queue) and \<open>keyed_store\<close> (handler tables) are locales; each
  is interpreted on the definitions of the model in the theory that provides them.

  \<^bold>\<open>Bounds.\<close>  Every recursion terminates: loops have a measure on what is left of their input, the import
  resolver on the depth that is left below its limit of 64, the expression parser on the tokens it has not
  read (a call never gives tokens back, which is proved before its termination), and the retry loop of \<open>next_peer_id\<close>
  has the 256 attempts of the source, enough for fewer than 255 peers.  There is no fuel.
  Counters are words of the source's width.  Sizes are naturals, with the wrap-around of \<open>size_t\<close> written out
  where the source adds before it compares.

  \<^bold>\<open>Parameters.\<close>  Generated sessions, the I/O of transports, user callbacks, the clock, the file system and
  the parser of one description file are arguments of the definitions that use them.  Session factories do not
  throw, and a step is atomic because the sources hold the lock of the state it touches.

  \<^bold>\<open>Not modelled.\<close>  The socket, serial and polling layers and the I/O loops around them, which are system calls;
  the diagnostic logger; the C and JNI bindings, which forward to the modelled classes; the XML parser of the
  generator, which reads the tree of a third-party library; its validator, wire sizes and session analysis,
  which come after type resolution; its code generators and their output; source
  locations and time stamps of errors.
\<close>

section \<open>From one transceiver to another\<close>

text \<open>
  C2: what one transceiver sends another one receives.  If the session of a message type can decode what it
  encodes and the connection carries bytes in order, then sending payloads one after the other succeeds, and
  however the bytes that were put on the wire are cut into chunks on their way, the receiver's dispatch queue
  grows by exactly these payloads, in order, each a message of that type from the peer they came from.
\<close>

theorem sent_messages_arrive:
  assumes "codec_ok (en_session env) ty ses (sf_max_buffer_size f) L" and "wired wire T" and "sending sa p T"
    and "en_session env' = en_session env" and "mk_transceiver env' config w = Inr st0" and "reach env' bound st0 sb"
    and "find_peer sb p' = Some a" and "tc_contexts sb a = Some c" and "pc_framer c = Some f" and "unread f = []"
    and "tc_dispatch_queue sb = Some q" and "\<not> bq_closed q" and "bq_size q + length xs \<le> bq_capacity q"
  shows "\<exists>sa' bs. send_all env p ty xs sa = (Inr (), sa') \<and> wire (tc_world sa') = wire (tc_world sa) @ bs \<and>
    (\<forall>ds. concat ds = bs \<longrightarrow> (\<forall>d \<in> set ds. L + length d \<le> sf_max_buffer_size f) \<longrightarrow>
      (\<exists>sb' q' ms. receive_all env' p' ds sb = Some sb' \<and> tc_dispatch_queue sb' = Some q' \<and>
         contents q' = contents q @ inbound p' ms \<and> map dm_payload ms = xs \<and> list_all (\<lambda>m. dm_type_id m = ty) ms))"
proof -
  from send_all_wire [OF assms(1-3), of xs] obtain sa' fs where
    s: "send_all env p ty xs sa = (Inr (), sa')" "wire (tc_world sa') = wire (tc_world sa) @ concat fs"
    "list_all (good_frame ses (sf_max_buffer_size f)) fs" "\<forall>g \<in> set fs. length g \<le> L"
    and d: "\<And>s. map dm_payload (fst (decode_all (en_session env) fs s)) = xs"
      "\<And>s. list_all (\<lambda>m. dm_type_id m = ty) (fst (decode_all (en_session env) fs s))" by blast
  have "tc_ok sb" using reach_ok(1) [OF assms(6) constructed_ok(1) [OF assms(5)]] .
  then have str: "streaming sb p' a c f q"
    using assms(7-12) by (auto simp: streaming_def tc_ok_def dispatch_queue_ok_def framers_ok_def)
  obtain ms s' where ms: "decode_all (en_session env') fs (pc_session c) = (ms, s')" by fastforce
  have ses: "\<forall>s. si_framing (en_session env') s = ses" "length (fs_sync_pattern ses) \<le> header_size ses"
    using assms(1,4) by (simp_all add: codec_ok_def)
  have m: "map dm_payload ms = xs" "list_all (\<lambda>m. dm_type_id m = ty) ms"
    using d(1,2) [of "pc_session c"] ms assms(4) by simp_all
  have "bq_size q + length ms \<le> bq_capacity q" using assms(13) m(1) by auto
  from receive_stream [OF ses str s(3,4) _ _ _ ms this] assms(10)
  have "\<exists>sb' q'. receive_all env' p' ds sb = Some sb' \<and> tc_dispatch_queue sb' = Some q' \<and>
      contents q' = contents q @ inbound p' ms"
    if "concat ds = concat fs" "\<forall>d \<in> set ds. L + length d \<le> sf_max_buffer_size f" for ds
    using that by (fastforce simp: streaming_def)
  then show ?thesis using s(1,2) m by blast
qed

lemma tiny_codec: "codec_ok (en_session tiny_env) 1 example_session 1048576 4"
  by (simp add: codec_ok_def tiny_defs header_size_def good_frame_def)

lemma tiny_ready_world: "tc_world tiny_ready = []"
  by (simp add: tiny_ready_def tiny_start_def empty_transceiver_def add_peer_session_def next_peer_id_def Let_def
      tiny_defs eval_nat_numeral add_context_def track_transport_def start_def threshold_ok_def)

lemma tiny_sent:
  assumes "send_all tiny_env (PeerId 1) 1 [7, 8] tiny_ready = (r, sa)"
  shows "concat (tc_world sa) = [0xAA, 0x55, 4, 7, 0xAA, 0x55, 4, 8]"
  using assms tiny_ready_world
  by (auto simp: send_impl_def find_peer_def tiny_ready_eq set_context_def transport_send_def tiny_defs Let_def)

theorem sent_messages_arrive_witness:
  "\<exists>sa' bs. send_all tiny_env (PeerId 1) 1 [7, 8] tiny_ready = (Inr (), sa') \<and> concat (tc_world sa') = bs \<and>
     (\<exists>sb' q'. receive_all tiny_env (PeerId 1) [bs] tiny_ready = Some sb' \<and> tc_dispatch_queue sb' = Some q' \<and>
        map (dm_payload \<circ> im_decoded) (contents q') = [7, 8])"
proof -
  let ?f = "mk_framer default_max_buffer_size" and ?q = "mk_queue (blank_message tiny_env) 2 DropOldest"
  let ?c = "\<lparr>pc_id = PeerId 1, pc_name = ''a'', pc_remote_endpoint = [], pc_session = 0, pc_framer = Some ?f,
    pc_transport = 0, pc_state = Disconnected\<rparr>"
  have codec: "codec_ok (en_session tiny_env) 1 example_session (sf_max_buffer_size ?f) 4"
    using tiny_codec by (simp add: mk_framer_def default_max_buffer_size_def)
  have wire: "wired concat (tiny_transport False)" by (simp add: wired_def tiny_transport_def)
  have send: "sending tiny_ready (PeerId 1) (tiny_transport False)"
    by (simp add: sending_def peer_context_def find_peer_def tiny_ready_eq)
  have at: "find_peer tiny_ready (PeerId 1) = Some 0" "tc_contexts tiny_ready 0 = Some ?c" "pc_framer ?c = Some ?f"
    by (simp_all add: find_peer_def tiny_ready_eq)
  have q: "\<not> bq_closed ?q" "bq_size ?q + length [7, 8 :: u8] \<le> bq_capacity ?q" by (simp_all add: mk_queue_def)
  from sent_messages_arrive [OF codec wire send refl tiny_constructed tiny_ready_reached at mk_framer_ok(2) tiny_ready_eq(5) q]
  obtain sa' bs where s: "send_all tiny_env (PeerId 1) 1 [7, 8] tiny_ready = (Inr (), sa')"
    "concat (tc_world sa') = concat (tc_world tiny_ready) @ bs" and
    d: "\<forall>ds. concat ds = bs \<longrightarrow> (\<forall>d \<in> set ds. 4 + length d \<le> sf_max_buffer_size ?f) \<longrightarrow>
      (\<exists>sb' q' ms. receive_all tiny_env (PeerId 1) ds tiny_ready = Some sb' \<and> tc_dispatch_queue sb' = Some q' \<and>
         contents q' = contents ?q @ inbound (PeerId 1) ms \<and> map dm_payload ms = [7, 8] \<and> list_all (\<lambda>m. dm_type_id m = 1) ms)"
    by (elim exE conjE) (rule that)
  have "bs = [0xAA, 0x55, 4, 7, 0xAA, 0x55, 4, 8]" "concat (tc_world sa') = bs" using tiny_sent [OF s(1)] s(2) tiny_ready_world by simp_all
  moreover from this have "4 + length bs \<le> sf_max_buffer_size ?f" by (simp add: mk_framer_def default_max_buffer_size_def)
  ultimately show ?thesis using s(1) d [rule_format, of "[bs]"] mk_queue_ok(2) [of "blank_message tiny_env" 2 DropOldest]
    by (auto simp: inbound_def)
qed

end
